(* ===== verification/Prelude.thy ===== *)
theory Prelude
  imports Complex_Main "HOL-Library.Word" "HOL-Library.Sublist"
begin

text \<open>
  Shared vocabulary of the development: outcomes of C++ calls, the parts of
  \<open>std::string\<close>, \<open>std::stoi\<close>, \<open>std::to_string\<close>, \<open>toupper\<close> and \<open>tolower\<close> that the
  server uses, and the lemma collections the component theories rewrite with. A
  \<open>std::string\<close> is a \<^typ>\<open>string\<close>: a list of 8-bit characters, null bytes included.
\<close>

named_theorems text_simps \<open>facts about the string functions that are safe rewrite rules\<close>

named_theorems trace_simps \<open>how operations extend the trace of system calls\<close>

section \<open>Outcomes\<close>

text \<open>
  A C++ exception leaves a call through \<open>Throws\<close>; \<open>Undefined_behaviour\<close> marks the
  executions the language gives no meaning (an array written out of bounds, a signed
  overflow). A call that waits for a peer that never answers is \<open>Hangs\<close>. All three keep the
  state reached, so that a safety property also speaks of runs that do not return.
\<close>

datatype cxx_exn = Invalid_argument | Out_of_range | Undefined_behaviour

datatype 'a outcome = Done (outcome_state: 'a) | Throws cxx_exn (outcome_state: 'a) | Hangs (outcome_state: 'a)

primrec is_done :: "'a outcome \<Rightarrow> bool" where
  "is_done (Done s) = True"
| "is_done (Throws e s) = False"
| "is_done (Hangs s) = False"

primrec bind_outcome :: "'a outcome \<Rightarrow> ('a \<Rightarrow> 'a outcome) \<Rightarrow> 'a outcome" where
  "bind_outcome (Done s) f = f s"
| "bind_outcome (Throws e s) f = Throws e s"
| "bind_outcome (Hangs s) f = Hangs s"

primrec hangs :: "'a outcome \<Rightarrow> bool" where
  "hangs (Done s) = False"
| "hangs (Throws e s) = False"
| "hangs (Hangs s) = True"

lemma bind_outcome_simps:
  "bind_outcome m f = Throws e t \<longleftrightarrow> m = Throws e t \<or> (\<exists>s. m = Done s \<and> f s = Throws e t)"
  "bind_outcome m f = Hangs t \<longleftrightarrow> m = Hangs t \<or> (\<exists>s. m = Done s \<and> f s = Hangs t)"
  "bind_outcome m f = Done t \<longleftrightarrow> (\<exists>s. m = Done s \<and> f s = Done t)"
  "hangs (bind_outcome m f) \<longleftrightarrow> hangs m \<or> (\<exists>s. m = Done s \<and> hangs (f s))"
  by (cases m; simp)+

section \<open>Searching and cutting strings\<close>

primrec find_char :: "char \<Rightarrow> string \<Rightarrow> nat option" where
  "find_char c [] = None"
| "find_char c (x # xs) = (if x = c then Some 0 else map_option Suc (find_char c xs))"

definition find_char_from :: "char \<Rightarrow> nat \<Rightarrow> string \<Rightarrow> nat option" where
  "find_char_from c k s = map_option (\<lambda>i. i + k) (find_char c (drop k s))"

primrec rfind_char :: "char \<Rightarrow> string \<Rightarrow> nat option" where
  "rfind_char c [] = None"
| "rfind_char c (x # xs) =
     (case rfind_char c xs of Some i \<Rightarrow> Some (Suc i) | None \<Rightarrow> if x = c then Some 0 else None)"

definition substr :: "nat \<Rightarrow> nat \<Rightarrow> string \<Rightarrow> string" where
  "substr pos n s = take n (drop pos s)"

primrec strip_trailing :: "(char \<Rightarrow> bool) \<Rightarrow> string \<Rightarrow> string" where
  "strip_trailing P [] = []"
| "strip_trailing P (x # xs) =
     (let r = strip_trailing P xs in if r = [] \<and> P x then [] else x # r)"

lemma find_char_None [text_simps]: "find_char c s = None \<longleftrightarrow> c \<notin> set s"
  by (induction s) auto

lemma find_char_append [text_simps]: "c \<notin> set s \<Longrightarrow> find_char c (s @ c # t) = Some (length s)"
  by (induction s) auto

lemma find_char_Some:
  "find_char c s = Some i \<Longrightarrow> i < length s \<and> s ! i = c \<and> c \<notin> set (take i s)"
proof (induction s arbitrary: i)
  case Nil
  then show ?case by simp
next
  case (Cons x xs)
  show ?case
  proof (cases "x = c")
    case True
    with Cons.prems show ?thesis by simp
  next
    case False
    with Cons.prems obtain j where "find_char c xs = Some j" and "i = Suc j" by auto
    with Cons.IH[of j] False show ?thesis by auto
  qed
qed

lemma find_char_split:
  assumes "find_char c s = Some i"
  shows "s = take i s @ c # drop (Suc i) s"
  using find_char_Some[OF assms] by (metis id_take_nth_drop)

lemma rfind_char_None [text_simps]: "rfind_char c s = None \<longleftrightarrow> c \<notin> set s"
  by (induction s) (auto split: option.splits)

lemma rfind_char_append:
  "rfind_char c (s @ t) =
     (case rfind_char c t of Some i \<Rightarrow> Some (length s + i) | None \<Rightarrow> rfind_char c s)"
  by (induction s) (auto split: option.splits)

lemma rfind_char_Some: "rfind_char c s = Some i \<Longrightarrow> i < length s \<and> s ! i = c"
  by (induction s arbitrary: i) (auto split: option.splits if_splits)

lemma strip_trailing_append [text_simps]:
  "\<forall>x\<in>set t. P x \<Longrightarrow> strip_trailing P (s @ t) = strip_trailing P s"
proof -
  assume t: "\<forall>x\<in>set t. P x"
  then have "strip_trailing P t = []" by (induction t) (auto simp: Let_def)
  then show ?thesis by (induction s) (auto simp: Let_def)
qed

lemma strip_trailing_id [text_simps]:
  "s = [] \<or> \<not> P (last s) \<Longrightarrow> strip_trailing P s = s"
  by (induction s) (auto simp: Let_def split: if_splits)

lemma strip_trailing_last: "strip_trailing P s = [] \<or> \<not> P (last (strip_trailing P s))"
  by (induction s) (auto simp: Let_def)

lemma prefix_strip_trailing: "prefix (strip_trailing P s) s"
  by (induction s) (auto simp: Let_def)

lemma length_strip_trailing: "length (strip_trailing P s) \<le> length s"
  using prefix_strip_trailing prefix_length_le by blast


section \<open>Case conversion\<close>

text \<open>\<open>toupper\<close> and \<open>tolower\<close> in the C locale change ASCII letters only.\<close>

definition toupper :: "char \<Rightarrow> char" where
  "toupper c = (let n = of_char c in if (97::nat) \<le> n \<and> n \<le> 122 then char_of (n - 32) else c)"

definition tolower :: "char \<Rightarrow> char" where
  "tolower c = (let n = of_char c in if (65::nat) \<le> n \<and> n \<le> 90 then char_of (n + 32) else c)"

lemma tolower_tolower: "tolower (tolower c) = tolower c"
  by (simp add: tolower_def Let_def)

lemma toupper_changes: "(97::nat) \<le> of_char c \<Longrightarrow> of_char c \<le> (122::nat) \<Longrightarrow> toupper c \<noteq> c"
proof
  assume c: "(97::nat) \<le> of_char c" "of_char c \<le> (122::nat)" and "toupper c = c"
  then have "c = char_of (of_char c - 32 :: nat)" by (simp add: toupper_def Let_def)
  then have "(of_char c :: nat) = (of_char c - 32) mod 256"
    by (metis of_char_of)
  then have "(of_char c :: nat) = of_char c - 32" using c by (subst (asm) mod_less) simp_all
  with c(1) show False by linarith
qed

section \<open>Numbers and strings\<close>

definition is_digit :: "char \<Rightarrow> bool" where
  "is_digit c \<longleftrightarrow> (48::nat) \<le> of_char c \<and> of_char c \<le> (57::nat)"

definition digit_char :: "nat \<Rightarrow> char" where
  "digit_char d = char_of (48 + d)"

definition digit_val :: "char \<Rightarrow> nat" where
  "digit_val c = of_char c - 48"

text \<open>\<open>std::to_string\<close> of an unsigned and of a signed integer.\<close>

fun nat_str :: "nat \<Rightarrow> string" where
  "nat_str n = (if n < 10 then [digit_char n] else nat_str (n div 10) @ [digit_char (n mod 10)])"

declare nat_str.simps [simp del]

definition int_str :: "int \<Rightarrow> string" where
  "int_str i = (if i < 0 then CHR ''-'' # nat_str (nat (- i)) else nat_str (nat i))"

definition dec :: "string \<Rightarrow> nat" where
  "dec s = foldl (\<lambda>a c. a * 10 + digit_val c) 0 s"

text \<open>\<open>isspace\<close> in the C locale: space, \<open>\t\<close>, \<open>\n\<close>, \<open>\v\<close>, \<open>\f\<close>, \<open>\r\<close>.\<close>

definition is_space :: "char \<Rightarrow> bool" where
  "is_space c \<longleftrightarrow> of_char c = (32::nat) \<or> (9::nat) \<le> of_char c \<and> of_char c \<le> (13::nat)"

text \<open>The range of a 32-bit \<open>int\<close>.\<close>

definition int32 :: "int \<Rightarrow> bool" where
  "int32 i \<longleftrightarrow> - 2147483648 \<le> i \<and> i \<le> 2147483647"

text \<open>
  \<open>std::stoi\<close> in base 10: leading white space, an optional sign, then the longest run of
  digits; what follows is ignored. No digit raises \<open>invalid_argument\<close>, a value that is not
  an \<open>int\<close> raises \<open>out_of_range\<close>.
\<close>

definition stoi :: "string \<Rightarrow> cxx_exn + int" where
  "stoi s =
     (let s1 = dropWhile is_space s;
          neg = (s1 \<noteq> [] \<and> hd s1 = CHR ''-'');
          s2 = (if s1 \<noteq> [] \<and> (hd s1 = CHR ''-'' \<or> hd s1 = CHR ''+'') then tl s1 else s1);
          ds = takeWhile is_digit s2;
          v = (if neg then - int (dec ds) else int (dec ds))
      in if ds = [] then Inl Invalid_argument
         else if int32 v then Inr v else Inl Out_of_range)"

lemma digit_char_simps [text_simps]:
  assumes "d < 10"
  shows "is_digit (digit_char d)" and "digit_val (digit_char d) = d"
    and "of_char (digit_char d) = 48 + d"
  using assms by (auto simp: is_digit_def digit_char_def digit_val_def)

lemma nat_str_nonempty [text_simps]: "nat_str n \<noteq> []"
  by (subst nat_str.simps) simp

lemma nat_str_digits: "c \<in> set (nat_str n) \<Longrightarrow> is_digit c"
proof (induction n rule: nat_str.induct)
  case (1 n)
  then show ?case
    by (subst (asm) nat_str.simps) (auto split: if_splits simp: text_simps)
qed

lemma nat_str_no_char [text_simps]:
  "\<not> is_digit c \<Longrightarrow> c \<notin> set (nat_str n)"
  using nat_str_digits by blast

lemma takeWhile_nat_str [text_simps]:
  "takeWhile is_digit (nat_str n) = nat_str n"
  using nat_str_digits by (simp add: takeWhile_eq_all_conv)

lemma dec_snoc [text_simps]: "dec (s @ [c]) = dec s * 10 + digit_val c"
  by (simp add: dec_def)

lemma dec_nat_str [text_simps]: "dec (nat_str n) = n"
proof (induction n rule: nat_str.induct)
  case (1 n)
  then show ?case
    by (subst nat_str.simps) (auto simp: text_simps dec_def[of "[_]"])
qed

lemma nat_str_inject [text_simps]: "nat_str m = nat_str n \<longleftrightarrow> m = n"
  by (metis dec_nat_str)

lemma is_digit_not_space: "is_digit c \<Longrightarrow> \<not> is_space c"
  by (auto simp: is_digit_def is_space_def)

lemma is_digit_not_sign: "is_digit c \<Longrightarrow> c \<noteq> CHR ''-'' \<and> c \<noteq> CHR ''+''"
  by (auto simp: is_digit_def)

lemma hd_nat_str: "is_digit (hd (nat_str n))"
  by (rule nat_str_digits[of _ n]) (simp add: text_simps)

lemma dropWhile_nat_str [text_simps]: "dropWhile is_space (nat_str n) = nat_str n"
  using hd_nat_str[of n] is_digit_not_space
  by (cases "nat_str n") (auto simp: text_simps)

lemma stoi_nat_str: "int32 (int n) \<Longrightarrow> stoi (nat_str n) = Inr (int n)"
  using hd_nat_str[of n] is_digit_not_sign[of "hd (nat_str n)"]
  by (simp add: stoi_def text_simps Let_def)

lemma stoi_int_str: "int32 i \<Longrightarrow> stoi (int_str i) = Inr i"
proof (cases "i < 0")
  case True
  assume "int32 i"
  with True show ?thesis
    by (simp add: stoi_def int_str_def text_simps Let_def is_space_def)
next
  case False
  assume "int32 i"
  with False show ?thesis
    using stoi_nat_str[of "nat i"] by (simp add: int_str_def)
qed

lemma int_str_no_char [text_simps]:
  "\<not> is_digit c \<Longrightarrow> c \<noteq> CHR ''-'' \<Longrightarrow> c \<notin> set (int_str i)"
  by (simp add: int_str_def text_simps)

section \<open>Reading lines and key=value pairs\<close>

abbreviation newline :: char where "newline \<equiv> CHR 0x0A"
abbreviation carriage_return :: char where "carriage_return \<equiv> CHR 0x0D"

definition crlf :: string where
  "crlf = [carriage_return, newline]"

text \<open>The lines that successive calls of \<open>std::getline\<close> deliver.\<close>

function getlines :: "string \<Rightarrow> string list" where
  "getlines s =
     (if s = [] then []
      else case find_char newline s of
             None \<Rightarrow> [s]
           | Some i \<Rightarrow> take i s # getlines (drop (Suc i) s))"
  by pat_completeness auto
termination
  by (relation "measure length") (auto dest: find_char_Some)

declare getlines.simps [simp del]

definition strip_cr :: "string \<Rightarrow> string" where
  "strip_cr l = (if l \<noteq> [] \<and> last l = carriage_return then butlast l else l)"

lemma getlines_Nil [text_simps]: "getlines [] = []"
  by (simp add: getlines.simps)

lemma getlines_line [text_simps]:
  "newline \<notin> set l \<Longrightarrow> getlines (l @ newline # rest) = l # getlines rest"
  by (subst getlines.simps) (simp add: find_char_append)

lemma getlines_concat:
  "\<forall>l\<in>set ls. newline \<notin> set l \<Longrightarrow> getlines (concat (map (\<lambda>l. l @ [newline]) ls)) = ls"
  by (induction ls) (simp_all add: text_simps)

lemma strip_cr_id [text_simps]: "carriage_return \<notin> set l \<Longrightarrow> strip_cr l = l"
  by (auto simp: strip_cr_def dest: last_in_set)

end
