(* ===== verification/Sha256.thy ===== *)
theory Sha256
  imports Prelude
begin

unbundle bit_operations_syntax

text \<open>
  SHA-256 as \<open>src/common/sha256.h\<close> computes it: 32-bit words, padding to 64-byte blocks,
  the message schedule, 64 rounds of compression, hexadecimal output.
\<close>

type_synonym u32 = "32 word"

definition rotr32 :: "u32 \<Rightarrow> nat \<Rightarrow> u32" where
  "rotr32 x n = drop_bit n x OR push_bit (32 - n) x"

text \<open>The table in the rows of the source.\<close>

definition K256 :: "u32 list" where
  "K256 = concat
     [[0x428a2f98, 0x71374491, 0xb5c0fbcf, 0xe9b5dba5],
      [0x3956c25b, 0x59f111f1, 0x923f82a4, 0xab1c5ed5],
      [0xd807aa98, 0x12835b01, 0x243185be, 0x550c7dc3],
      [0x72be5d74, 0x80deb1fe, 0x9bdc06a7, 0xc19bf174],
      [0xe49b69c1, 0xefbe4786, 0x0fc19dc6, 0x240ca1cc],
      [0x2de92c6f, 0x4a7484aa, 0x5cb0a9dc, 0x76f988da],
      [0x983e5152, 0xa831c66d, 0xb00327c8, 0xbf597fc7],
      [0xc6e00bf3, 0xd5a79147, 0x06ca6351, 0x14292967],
      [0x27b70a85, 0x2e1b2138, 0x4d2c6dfc, 0x53380d13],
      [0x650a7354, 0x766a0abb, 0x81c2c92e, 0x92722c85],
      [0xa2bfe8a1, 0xa81a664b, 0xc24b8b70, 0xc76c51a3],
      [0xd192e819, 0xd6990624, 0xf40e3585, 0x106aa070],
      [0x19a4c116, 0x1e376c08, 0x2748774c, 0x34b0bcb5],
      [0x391c0cb3, 0x4ed8aa4a, 0x5b9cca4f, 0x682e6ff3],
      [0x748f82ee, 0x78a5636f, 0x84c87814, 0x8cc70208],
      [0x90befffa, 0xa4506ceb, 0xbef9a3f7, 0xc67178f2]]"

text \<open>\<open>msg += '\x80'\<close>, zeros up to 56 modulo 64, the bit length as 64 bits big-endian.\<close>

definition zero_fill :: "nat \<Rightarrow> nat" where
  "zero_fill n = (56 + 64 - n mod 64) mod 64"

definition length_bytes :: "nat \<Rightarrow> string" where
  "length_bytes n =
     (let bitLen = word_of_nat n * 8 :: 64 word
      in map (\<lambda>i. char_of (unat (drop_bit (i * 8) bitLen AND 255))) (rev [0..<8]))"

definition pad_message :: "string \<Rightarrow> string" where
  "pad_message s =
     (let m = s @ [CHR 0x80]
      in m @ replicate (zero_fill (length m)) (CHR 0x00) @ length_bytes (length s))"

definition byte :: "char \<Rightarrow> u32" where
  "byte c = word_of_nat (of_char c)"

text \<open>The first sixteen schedule words, big-endian.\<close>

definition be_word :: "string \<Rightarrow> nat \<Rightarrow> u32" where
  "be_word blk i =
     push_bit 24 (byte (blk ! (i * 4))) OR push_bit 16 (byte (blk ! (i * 4 + 1))) OR
     push_bit 8 (byte (blk ! (i * 4 + 2))) OR byte (blk ! (i * 4 + 3))"

definition schedule_next :: "u32 list \<Rightarrow> u32" where
  "schedule_next w =
     (let i = length w;
          w15 = w ! (i - 15); w2 = w ! (i - 2);
          s0 = rotr32 w15 7 XOR rotr32 w15 18 XOR drop_bit 3 w15;
          s1 = rotr32 w2 17 XOR rotr32 w2 19 XOR drop_bit 10 w2
      in w ! (i - 16) + s0 + w ! (i - 7) + s1)"

primrec extend_schedule :: "nat \<Rightarrow> u32 list \<Rightarrow> u32 list" where
  "extend_schedule 0 w = w"
| "extend_schedule (Suc n) w = extend_schedule n (w @ [schedule_next w])"

definition schedule :: "string \<Rightarrow> u32 list" where
  "schedule blk = extend_schedule 48 (map (be_word blk) [0..<16])"

type_synonym state8 = "u32 \<times> u32 \<times> u32 \<times> u32 \<times> u32 \<times> u32 \<times> u32 \<times> u32"

definition ch :: "u32 \<Rightarrow> u32 \<Rightarrow> u32 \<Rightarrow> u32" where
  "ch e f g = (e AND f) XOR (NOT e AND g)"

definition maj :: "u32 \<Rightarrow> u32 \<Rightarrow> u32 \<Rightarrow> u32" where
  "maj a b c = (a AND b) XOR (a AND c) XOR (b AND c)"

fun sha_round :: "state8 \<Rightarrow> u32 \<times> u32 \<Rightarrow> state8" where
  "sha_round (a, b, c, d, e, f, g, hh) (k, w) =
     (let S1 = rotr32 e 6 XOR rotr32 e 11 XOR rotr32 e 25;
          temp1 = hh + S1 + ch e f g + k + w;
          S0 = rotr32 a 2 XOR rotr32 a 13 XOR rotr32 a 22;
          temp2 = S0 + maj a b c
      in (temp1 + temp2, a, b, c, d + temp1, e, f, g))"

fun add_state :: "state8 \<Rightarrow> state8 \<Rightarrow> state8" where
  "add_state (h0, h1, h2, h3, h4, h5, h6, h7) (a, b, c, d, e, f, g, hh) =
     (h0 + a, h1 + b, h2 + c, h3 + d, h4 + e, h5 + f, h6 + g, h7 + hh)"

definition compress :: "state8 \<Rightarrow> string \<Rightarrow> state8" where
  "compress st blk = add_state st (foldl sha_round st (zip K256 (schedule blk)))"

function process_blocks :: "state8 \<Rightarrow> string \<Rightarrow> state8" where
  "process_blocks st msg =
     (if msg = [] then st else process_blocks (compress st (take 64 msg)) (drop 64 msg))"
  by pat_completeness auto
termination
  by (relation "measure (\<lambda>(st, msg). length msg)") auto

declare process_blocks.simps [simp del]

definition initial_hash :: state8 where
  "initial_hash = (0x6a09e667, 0xbb67ae85, 0x3c6ef372, 0xa54ff53a,
                   0x510e527f, 0x9b05688c, 0x1f83d9ab, 0x5be0cd19)"

definition hex_digit :: "nat \<Rightarrow> char" where
  "hex_digit d = (if d < 10 then char_of (48 + d) else char_of (87 + d))"

text \<open>\<open>std::hex << std::setfill('0') << std::setw(8)\<close>\<close>

definition hex8 :: "u32 \<Rightarrow> string" where
  "hex8 x = map (\<lambda>i. hex_digit (unat (drop_bit (i * 4) x AND 15))) (rev [0..<8])"

fun hex_state :: "state8 \<Rightarrow> string" where
  "hex_state (h0, h1, h2, h3, h4, h5, h6, h7) =
     hex8 h0 @ hex8 h1 @ hex8 h2 @ hex8 h3 @ hex8 h4 @ hex8 h5 @ hex8 h6 @ hex8 h7"

definition sha256 :: "string \<Rightarrow> string" where
  "sha256 input = hex_state (process_blocks initial_hash (pad_message input))"

definition sha256Salted :: "string \<Rightarrow> string \<Rightarrow> string" where
  "sha256Salted salt password = sha256 (salt @ '':'' @ password)"

section \<open>The bit functions against their specification\<close>

lemma rotr32_rotates: "0 < n \<Longrightarrow> n < 32 \<Longrightarrow> rotr32 x n = word_rotr n x"
proof (rule bit_word_eqI)
  fix i assume n: "0 < n" "n < 32" and "i < LENGTH(32)"
  then have i: "i < 32" by simp
  have high: "\<not> bit x k" if "32 \<le> k" for k
    using that bit_imp_le_length[of x k] by auto
  have "(i + n) mod 32 = (if i + n < 32 then i + n else i + n - 32)"
    using n i by (auto simp: mod_if)
  then show "bit (rotr32 x n) i = bit (word_rotr n x) i"
    using n i high[of "i + n"] by (auto simp: rotr32_def bit_simps add.commute)
qed

lemma bit_ch: "i < 32 \<Longrightarrow> bit (ch e f g) i = (if bit e i then bit f i else bit g i)"
  by (auto simp: ch_def bit_simps)

lemma bit_maj:
  "i < 32 \<Longrightarrow> bit (maj a b c) i \<longleftrightarrow>
     2 \<le> of_bool (bit a i) + of_bool (bit b i) + (of_bool (bit c i) :: nat)"
  by (auto simp: maj_def bit_simps)

section \<open>Padding\<close>

lemma length_length_bytes [simp]: "length (length_bytes n) = 8"
  by (simp add: length_bytes_def Let_def)

lemma zero_fill_eq:
  "zero_fill n = (if n mod 64 \<le> 56 then 56 - n mod 64 else 120 - n mod 64)"
proof -
  have r: "(120 - r) mod 64 = (if r \<le> 56 then 56 - r else 120 - r)" if "r < 64" for r :: nat
  proof (cases "r \<le> 56")
    case True
    then have "120 - r = 64 + (56 - r)" by simp
    then have "(120 - r) mod 64 = (56 - r) mod 64" by (metis mod_add_self1)
    with True show ?thesis by simp
  qed simp
  show ?thesis
    unfolding zero_fill_def using r[of "n mod 64"] by simp
qed

lemma pad_message_blocks: "length (pad_message s) mod 64 = 0"
proof -
  define n where "n = length s + 1"
  have lt: "n mod 64 < 64" by simp
  have "(n + (zero_fill n + 8)) mod 64 = (n mod 64 + (zero_fill n + 8)) mod 64"
    by (simp only: mod_add_left_eq)
  also have "n mod 64 + (zero_fill n + 8) = (if n mod 64 \<le> 56 then 64 else 128)"
    unfolding zero_fill_eq using lt by auto
  finally have "(n + (zero_fill n + 8)) mod 64 = 0" by simp
  moreover have "length (pad_message s) = n + (zero_fill n + 8)"
    by (simp add: pad_message_def Let_def n_def)
  ultimately show ?thesis by simp
qed

lemma prefix_pad_message: "prefix s (pad_message s)"
  by (simp add: pad_message_def Let_def)

lemma length_pad_message_bounds:
  "length s + 9 \<le> length (pad_message s)" and "length (pad_message s) \<le> length s + 72"
proof -
  have "zero_fill n < 64" for n by (simp add: zero_fill_def)
  then show "length s + 9 \<le> length (pad_message s)" "length (pad_message s) \<le> length s + 72"
    by (simp_all add: pad_message_def Let_def less_Suc_eq_le[symmetric])
qed

text \<open>The last eight bytes determine the length of messages below \<open>2 ^ 61\<close> bytes.\<close>

lemma word64_eq_bytes:
  fixes v w :: "64 word"
  assumes "\<And>i. i < 8 \<Longrightarrow> drop_bit (i * 8) v AND 255 = drop_bit (i * 8) w AND 255"
  shows "v = w"
proof (rule bit_word_eqI)
  fix n assume "n < LENGTH(64)"
  then have n: "n div 8 < 8" by simp
  have m: "bit (255 :: 64 word) (n mod 8)"
  proof -
    have "bit (mask 8 :: 64 word) (n mod 8)" by (simp add: bit_mask_iff)
    then show ?thesis by (simp add: mask_numeral)
  qed
  have "bit u n = bit (drop_bit (n div 8 * 8) u AND 255) (n mod 8)" for u :: "64 word"
    using m by (simp add: bit_simps)
  then show "bit v n = bit w n"
    using assms[OF n] by simp
qed

lemma length_bytes_inject:
  assumes "length_bytes m = length_bytes n" and "m < 2 ^ 61" and "n < 2 ^ 61"
  shows "m = n"
proof -
  let ?v = "\<lambda>k. word_of_nat k * 8 :: 64 word"
  have "?v m = ?v n"
  proof (rule word64_eq_bytes)
    fix i :: nat assume i: "i < 8"
    let ?b = "\<lambda>k. unat (drop_bit (i * 8) (?v k) AND 255)"
    have lt: "?b k < 256" for k
    proof -
      have "?b k \<le> unat (255 :: 64 word)"
        by (rule word_and_le1[THEN word_le_nat_alt[THEN iffD1]])
      then show ?thesis by simp
    qed
    from i have "i \<in> set [0..<8]" by simp
    with assms(1) have "(char_of (?b m) :: char) = char_of (?b n)"
      by (auto simp: length_bytes_def Let_def rev_map[symmetric])
    then have "?b m mod 256 = ?b n mod 256" by simp
    then show "drop_bit (i * 8) (?v m) AND 255 = drop_bit (i * 8) (?v n) AND 255"
      using lt by (simp add: word_unat_eq_iff)
  qed
  then have "unat (?v m) = unat (?v n)" by simp
  with assms(2,3) show ?thesis
    by (simp add: unat_word_ariths unat_of_nat take_bit_eq_mod)
qed

lemma pad_message_inject:
  assumes eq: "pad_message s = pad_message t" and s: "length s < 2 ^ 61" and t: "length t < 2 ^ 61"
  shows "s = t"
proof -
  have tail: "drop (length (pad_message u) - 8) (pad_message u) = length_bytes (length u)" for u
    by (simp add: pad_message_def Let_def)
  have "length_bytes (length s) = length_bytes (length t)"
    using tail[of s] tail[of t] eq by simp
  then have "length s = length t"
    using s t by (rule length_bytes_inject)
  with eq show ?thesis by (simp add: pad_message_def Let_def)
qed

section \<open>Blocks and rounds\<close>

lemma length_K256 [simp]: "length K256 = 64"
  by (simp add: K256_def)

lemma length_extend_schedule [simp]: "length (extend_schedule n w) = n + length w"
  by (induction n arbitrary: w) simp_all

lemma length_schedule [simp]: "length (schedule blk) = 64"
  by (simp add: schedule_def)

lemma nth_extend_schedule_old:
  "i < length w \<Longrightarrow> extend_schedule n w ! i = w ! i"
  by (induction n arbitrary: w) (simp_all add: nth_append)

lemma schedule_head: "i < 16 \<Longrightarrow> schedule blk ! i = be_word blk i"
  by (simp add: schedule_def nth_extend_schedule_old)

lemma process_blocks_Nil [simp]: "process_blocks st [] = st"
  by (simp add: process_blocks.simps)

lemma process_blocks_block:
  "length b = 64 \<Longrightarrow> process_blocks st (b @ rest) = process_blocks (compress st b) rest"
  by (subst process_blocks.simps) auto

section \<open>The output\<close>

definition is_hex :: "char \<Rightarrow> bool" where
  "is_hex c \<longleftrightarrow> is_digit c \<or> (97::nat) \<le> of_char c \<and> of_char c \<le> (102::nat)"

lemma is_hex_hex_digit: "d < 16 \<Longrightarrow> is_hex (hex_digit d)"
  by (auto simp: is_hex_def hex_digit_def is_digit_def)

lemma nibble_less: "unat (x AND 15 :: u32) < 16"
proof -
  have "unat (x AND 15) \<le> unat (15 :: u32)"
    by (rule word_and_le1[THEN word_le_nat_alt[THEN iffD1]])
  then show ?thesis by simp
qed

lemma hex8_shape: "length (hex8 x) = 8" "\<forall>c\<in>set (hex8 x). is_hex c"
  using nibble_less by (auto simp: hex8_def intro: is_hex_hex_digit)

lemma hex_state_shape: "length (hex_state st) = 64 \<and> (\<forall>c\<in>set (hex_state st). is_hex c)"
  by (cases st) (auto simp: hex8_shape)

lemma sha256_shape: "length (sha256 s) = 64 \<and> (\<forall>c\<in>set (sha256 s). is_hex c)"
  unfolding sha256_def by (rule hex_state_shape)

lemma sha256Salted_shape:
  "length (sha256Salted salt pw) = 64" "\<forall>c\<in>set (sha256Salted salt pw). is_hex c"
  using sha256_shape by (simp_all add: sha256Salted_def)

section \<open>What the login code needs of a digest\<close>

locale password_digest =
  fixes digest :: "string \<Rightarrow> string \<Rightarrow> string"
    and width :: nat
  assumes width_pos: "0 < width"
    and digest_width: "length (digest salt pw) = width"
    and digest_hex: "c \<in> set (digest salt pw) \<Longrightarrow> is_hex c"
begin

text \<open>A digest survives being written into a line of \<open>user=sha256:salt:digest\<close>.\<close>

lemma digest_plain:
  assumes "\<not> is_hex c"
  shows "c \<notin> set (digest salt pw)"
  using assms digest_hex by blast

lemma digest_separators:
  "CHR '':'' \<notin> set (digest salt pw)" "newline \<notin> set (digest salt pw)"
  "carriage_return \<notin> set (digest salt pw)"
  by (rule digest_plain, simp add: is_hex_def is_digit_def)+

lemma digest_nonempty: "digest salt pw \<noteq> []"
  using width_pos digest_width[of salt pw] by auto

lemma no_digest_with_colon: "digest salt pw \<noteq> xs @ CHR '':'' # ys"
  using digest_separators(1)[of salt pw] by auto

end

interpretation pwd: password_digest sha256Salted 64
  by unfold_locales (use sha256Salted_shape in auto)

end
