(* ===== verification/Auth.thy ===== *)
theory Auth
  imports Sha256
begin

text \<open>
  \<open>src/server/auth.h\<close> and \<open>src/server/auth.cpp\<close>: the credentials read from \<open>users.conf\<close>,
  the password check, the salted hash, and the limit on failed logins per client address.
  The clock and \<open>rand()\<close> are arguments.
\<close>

section \<open>State\<close>

record UserRecord =
  ur_hashed :: bool
  ur_salt :: string
  ur_stored :: string

record RateInfo =
  failedAttempts :: int
  blockedUntilSec :: int

record AuthManager =
  users :: "string \<rightharpoonup> UserRecord"
  rateMap :: "string \<rightharpoonup> RateInfo"
  totalFailed :: "64 word"

definition kMaxAttempts :: int where "kMaxAttempts = 5"
definition kBlockSecs :: int where "kBlockSecs = 60"

definition new_auth :: AuthManager where
  "new_auth = \<lparr>users = Map.empty, rateMap = Map.empty, totalFailed = 0\<rparr>"

definition userCount :: "AuthManager \<Rightarrow> nat" where
  "userCount am = card (dom (users am))"

definition failedLoginCount :: "AuthManager \<Rightarrow> 64 word" where
  "failedLoginCount am = totalFailed am"

section \<open>Hashing\<close>

definition hex_digit_upper :: "nat \<Rightarrow> char" where
  "hex_digit_upper d = (if d < 10 then char_of (48 + d) else char_of (55 + d))"

text \<open>\<open>std::hex << std::uppercase\<close>: no width, hence no leading zeros.\<close>

fun hex_upper :: "nat \<Rightarrow> string" where
  "hex_upper n =
     (if n < 16 then [hex_digit_upper n] else hex_upper (n div 16) @ [hex_digit_upper (n mod 16)])"

declare hex_upper.simps [simp del]

text \<open>Four results of \<open>rand()\<close>, each cut to 16 bits.\<close>

definition generateSalt :: "nat \<times> nat \<times> nat \<times> nat \<Rightarrow> string" where
  "generateSalt r =
     (case r of (r0, r1, r2, r3) \<Rightarrow>
        hex_upper (r0 mod 65536) @ hex_upper (r1 mod 65536) @
        hex_upper (r2 mod 65536) @ hex_upper (r3 mod 65536))"

definition hashPassword :: "nat \<times> nat \<times> nat \<times> nat \<Rightarrow> string \<Rightarrow> string \<Rightarrow> string" where
  "hashPassword r password saltIn =
     (let salt = (if saltIn = [] then generateSalt r else saltIn);
          h = sha256Salted salt password
      in ''sha256:'' @ salt @ '':'' @ h)"

section \<open>Loading users\<close>

text \<open>One iteration of the loop over lines; the second component is \<open>count\<close>.\<close>

definition load_line :: "(string \<rightharpoonup> UserRecord) \<times> nat \<Rightarrow> string \<Rightarrow> (string \<rightharpoonup> UserRecord) \<times> nat" where
  "load_line acc raw =
     (let (us, count) = acc; line = strip_cr raw
      in if line = [] \<or> hd line = CHR ''#'' then (us, count)
         else case find_char CHR ''='' line of
                None \<Rightarrow> (us, count)
              | Some eq \<Rightarrow>
                  (let user = take eq line; val = drop (Suc eq) line
                   in if user = [] \<or> val = [] then (us, count)
                      else if take 7 val = ''sha256:'' then
                        (case find_char_from CHR '':'' 7 val of
                           None \<Rightarrow> (us, count)
                         | Some p1 \<Rightarrow>
                             (us(user \<mapsto> \<lparr>ur_hashed = True, ur_salt = substr 7 (p1 - 7) val,
                                         ur_stored = drop (Suc p1) val\<rparr>), Suc count))
                      else (us(user \<mapsto> \<lparr>ur_hashed = False, ur_salt = [], ur_stored = val\<rparr>),
                            Suc count)))"

text \<open>\<open>None\<close> is a file that cannot be opened.\<close>

definition loadUsers :: "string option \<Rightarrow> AuthManager \<Rightarrow> bool \<times> AuthManager" where
  "loadUsers file am =
     (case file of
        None \<Rightarrow> (False, am)
      | Some content \<Rightarrow>
          (let (us, count) = foldl load_line (Map.empty, 0) (getlines content)
           in (0 < count, am\<lparr>users := us\<rparr>)))"

definition authenticate :: "string \<Rightarrow> string \<Rightarrow> AuthManager \<Rightarrow> bool" where
  "authenticate user pass am =
     (case users am user of
        None \<Rightarrow> False
      | Some rec \<Rightarrow>
          if ur_hashed rec then sha256Salted (ur_salt rec) pass = ur_stored rec
          else ur_stored rec = pass)"

section \<open>Rate limiting\<close>

definition isRateLimited :: "int \<Rightarrow> string \<Rightarrow> AuthManager \<Rightarrow> bool \<times> AuthManager" where
  "isRateLimited now ip am =
     (case rateMap am ip of
        None \<Rightarrow> (False, am)
      | Some info \<Rightarrow>
          if kMaxAttempts \<le> failedAttempts info then
            (if now < blockedUntilSec info then (True, am)
             else (False, am\<lparr>rateMap := (rateMap am)(ip \<mapsto>
                                info\<lparr>failedAttempts := 0, blockedUntilSec := 0\<rparr>)\<rparr>))
          else (False, am))"

definition recordFailedAttempt :: "int \<Rightarrow> string \<Rightarrow> AuthManager \<Rightarrow> AuthManager" where
  "recordFailedAttempt now ip am =
     (let info = (case rateMap am ip of Some i \<Rightarrow> i
                  | None \<Rightarrow> \<lparr>failedAttempts = 0, blockedUntilSec = 0\<rparr>);
          info1 = info\<lparr>failedAttempts := failedAttempts info + 1\<rparr>;
          info2 = (if kMaxAttempts \<le> failedAttempts info1
                   then info1\<lparr>blockedUntilSec := now + kBlockSecs\<rparr> else info1)
      in am\<lparr>rateMap := (rateMap am)(ip \<mapsto> info2), totalFailed := totalFailed am + 1\<rparr>)"

definition clearAttempts :: "string \<Rightarrow> AuthManager \<Rightarrow> AuthManager" where
  "clearAttempts ip am = am\<lparr>rateMap := (rateMap am)(ip := None)\<rparr>"

section \<open>The contract of a login limiter\<close>

text \<open>
  What a session relies on: a check that refuses an address with too many failures until
  its block ends and forgets them afterwards, a failure counter, a reset.
\<close>

locale attempt_limiter =
  fixes check :: "int \<Rightarrow> 'ip \<Rightarrow> 'a \<Rightarrow> bool \<times> 'a"
    and fail :: "int \<Rightarrow> 'ip \<Rightarrow> 'a \<Rightarrow> 'a"
    and clear :: "'ip \<Rightarrow> 'a \<Rightarrow> 'a"
    and attempts :: "'a \<Rightarrow> 'ip \<Rightarrow> int"
    and blocked :: "'a \<Rightarrow> 'ip \<Rightarrow> int"
    and limit :: int
    and window :: int
  assumes limit_pos: "0 < limit"
    and check_refuses: "fst (check t ip a) \<longleftrightarrow> limit \<le> attempts a ip \<and> t < blocked a ip"
    and check_attempts: "attempts (snd (check t ip a)) ip' =
           (if ip' = ip \<and> limit \<le> attempts a ip \<and> blocked a ip \<le> t then 0 else attempts a ip')"
    and check_blocked: "fst (check t ip a) \<or> ip' \<noteq> ip \<Longrightarrow> blocked (snd (check t ip a)) ip' = blocked a ip'"
    and fail_attempts: "attempts (fail t ip a) ip' = attempts a ip' + (if ip' = ip then 1 else 0)"
    and fail_blocked: "blocked (fail t ip a) ip' =
           (if ip' = ip \<and> limit \<le> attempts a ip + 1 then t + window else blocked a ip')"
    and clear_attempts: "attempts (clear ip a) ip' = (if ip' = ip then 0 else attempts a ip')"
    and clear_blocked: "ip' \<noteq> ip \<Longrightarrow> blocked (clear ip a) ip' = blocked a ip'"
begin

lemma not_refused_below_limit: "attempts a ip < limit \<Longrightarrow> \<not> fst (check t ip a)"
  by (simp add: check_refuses)

lemma cleared_not_refused: "\<not> fst (check t ip (clear ip a))"
  using limit_pos by (simp add: check_refuses clear_attempts)

lemma block_expires: "blocked a ip \<le> t \<Longrightarrow> \<not> fst (check t ip a)"
  by (simp add: check_refuses)

text \<open>
  How many more failures of \<open>ip\<close> the limiter lets through while the clock stays within one
  window that starts at \<open>T\<close>.
\<close>

definition budget :: "int \<Rightarrow> 'a \<Rightarrow> 'ip \<Rightarrow> int" where
  "budget T a ip =
     (if attempts a ip < limit then limit - attempts a ip
      else if T + window \<le> blocked a ip then 0 else limit)"

lemma budget_refused: "fst (check t ip a) \<Longrightarrow> budget T (snd (check t ip a)) ip = budget T a ip"
  by (simp add: budget_def check_attempts check_blocked check_refuses)

lemma budget_failed:
  assumes "\<not> fst (check t ip a)" and "T \<le> t" and "t < T + window"
  shows "budget T (fail t ip (snd (check t ip a))) ip = budget T a ip - 1"
  using assms limit_pos
  by (auto simp: budget_def check_attempts check_refuses fail_attempts fail_blocked)

lemma budget_other:
  assumes "ip' \<noteq> ip"
  shows "budget T (snd (check t ip a)) ip' = budget T a ip'"
    and "budget T (fail t ip a) ip' = budget T a ip'"
    and "budget T (clear ip a) ip' = budget T a ip'"
  using assms
  by (simp_all add: budget_def check_attempts check_blocked fail_attempts fail_blocked
        clear_attempts clear_blocked)

lemma budget_bounds: "0 \<le> attempts a ip \<Longrightarrow> 0 \<le> budget T a ip \<and> budget T a ip \<le> limit"
  using limit_pos by (auto simp: budget_def)

end

section \<open>The limiter of the server\<close>

definition attemptsOf :: "AuthManager \<Rightarrow> string \<Rightarrow> int" where
  "attemptsOf am ip = (case rateMap am ip of None \<Rightarrow> 0 | Some i \<Rightarrow> failedAttempts i)"

definition blockedOf :: "AuthManager \<Rightarrow> string \<Rightarrow> int" where
  "blockedOf am ip = (case rateMap am ip of None \<Rightarrow> 0 | Some i \<Rightarrow> blockedUntilSec i)"

interpretation lim: attempt_limiter isRateLimited recordFailedAttempt clearAttempts attemptsOf
    blockedOf kMaxAttempts kBlockSecs
proof (unfold_locales, goal_cases)
  case 1 show ?case by (simp add: kMaxAttempts_def)
next
  case (2 t ip a) show ?case
    by (simp add: isRateLimited_def attemptsOf_def blockedOf_def kMaxAttempts_def split: option.split)
next
  case (3 t ip a ip') show ?case
    by (auto simp: isRateLimited_def attemptsOf_def blockedOf_def kMaxAttempts_def split: option.split)
next
  case (4 t ip a ip') then show ?case
    by (auto simp: isRateLimited_def blockedOf_def split: option.splits if_splits)
next
  case (5 t ip a ip') show ?case
    by (auto simp: recordFailedAttempt_def attemptsOf_def Let_def split: option.split)
next
  case (6 t ip a ip') show ?case
    by (auto simp: recordFailedAttempt_def attemptsOf_def blockedOf_def Let_def split: option.split)
next
  case (7 ip a ip') show ?case
    by (simp add: clearAttempts_def attemptsOf_def)
next
  case (8 ip' ip a) then show ?case
    by (simp add: clearAttempts_def blockedOf_def)
qed

section \<open>Loading what the hash tool writes\<close>

type_synonym credential = "string \<times> string \<times> string"   \<comment> \<open>user, salt, password\<close>

definition user_line :: "credential \<Rightarrow> string" where
  "user_line cr = (case cr of (u, s, p) \<Rightarrow> u @ ''='' @ hashPassword (0, 0, 0, 0) p s)"

definition valid_credential :: "credential \<Rightarrow> bool" where
  "valid_credential cr =
     (case cr of (u, s, p) \<Rightarrow>
        u \<noteq> [] \<and> hd u \<noteq> CHR ''#'' \<and> CHR ''='' \<notin> set u \<and> newline \<notin> set u \<and>
        s \<noteq> [] \<and> CHR '':'' \<notin> set s \<and> newline \<notin> set s)"

definition hashed_record :: "credential \<Rightarrow> string \<times> UserRecord" where
  "hashed_record cr =
     (case cr of (u, s, p) \<Rightarrow>
        (u, \<lparr>ur_hashed = True, ur_salt = s, ur_stored = sha256Salted s p\<rparr>))"

lemma load_line_hashed:
  assumes u: "u \<noteq> []" "hd u \<noteq> CHR ''#''" "CHR ''='' \<notin> set u"
    and d: "d \<noteq> []" "carriage_return \<notin> set d"
  shows "load_line (us, c) (u @ CHR ''='' # ''sha256:'' @ s @ CHR '':'' # d) =
     (case find_char CHR '':'' (s @ CHR '':'' # d) of
        None \<Rightarrow> (us, c)
      | Some i \<Rightarrow> (us(u \<mapsto> \<lparr>ur_hashed = True, ur_salt = take i (s @ CHR '':'' # d),
                              ur_stored = drop (Suc i) (s @ CHR '':'' # d)\<rparr>), Suc c))"
proof -
  let ?line = "u @ CHR ''='' # ''sha256:'' @ s @ CHR '':'' # d"
  have "last ?line = last d" using d by simp
  then have "strip_cr ?line = ?line"
    using d by (auto simp: strip_cr_def dest: last_in_set)
  moreover have "find_char CHR ''='' ?line = Some (length u)"
    using u by (simp add: find_char_append)
  moreover have "drop (8 + i) (''sha256:'' @ zs) = drop (Suc i) zs" for i and zs :: string
    by (simp add: eval_nat_numeral)
  ultimately show ?thesis
    using u by (simp add: load_line_def find_char_from_def substr_def hd_append split: option.split)
qed

lemma load_line_credential:
  assumes "valid_credential (u, s, p)"
  shows "load_line (us, c) (user_line (u, s, p)) =
     (us(u \<mapsto> snd (hashed_record (u, s, p))), Suc c)"
  using assms load_line_hashed[of u "sha256Salted s p" us c s]
    pwd.digest_separators(3)[of s p] pwd.digest_nonempty[of s p]
  by (auto simp: user_line_def hashPassword_def valid_credential_def hashed_record_def
      find_char_append)

lemma foldl_load_credentials:
  assumes "\<forall>cr\<in>set crs. valid_credential cr"
  shows "foldl load_line (us, c) (map user_line crs) =
     (us ++ map_of (rev (map hashed_record crs)), c + length crs)"
  using assms
proof (induction crs arbitrary: us c)
  case Nil
  then show ?case by simp
next
  case (Cons cr crs)
  obtain u s p where cr: "cr = (u, s, p)" by (cases cr)
  have "us(u \<mapsto> snd (hashed_record cr)) ++ map_of (rev (map hashed_record crs)) =
      us ++ map_of (rev (map hashed_record (cr # crs)))"
    by (simp add: map_add_def fun_eq_iff map_of_append hashed_record_def cr split: option.split)
  with Cons cr show ?case
    by (simp add: load_line_credential)
qed

lemma newline_free_user_line: "valid_credential cr \<Longrightarrow> newline \<notin> set (user_line cr)"
  by (cases cr) (auto simp: user_line_def valid_credential_def hashPassword_def
      pwd.digest_separators)

lemma loadUsers_credentials:
  assumes "\<forall>cr\<in>set crs. valid_credential cr"
  shows "loadUsers (Some (concat (map (\<lambda>cr. user_line cr @ [newline]) crs))) am =
     (crs \<noteq> [], am\<lparr>users := map_of (rev (map hashed_record crs))\<rparr>)"
proof -
  have "getlines (concat (map (\<lambda>l. l @ [newline]) (map user_line crs))) = map user_line crs"
    using assms newline_free_user_line by (intro getlines_concat) auto
  then have "getlines (concat (map (\<lambda>cr. user_line cr @ [newline]) crs)) = map user_line crs"
    by (simp add: comp_def)
  then show ?thesis
    using assms by (auto simp: loadUsers_def foldl_load_credentials)
qed

lemma map_of_rev_hashed:
  assumes "distinct (map fst crs)" and "(u, s, p) \<in> set crs"
  shows "map_of (rev (map hashed_record crs)) u = Some (snd (hashed_record (u, s, p)))"
proof -
  have "map fst (map hashed_record crs) = map fst crs"
    by (auto simp: hashed_record_def)
  with assms(1) have "distinct (map fst (rev (map hashed_record crs)))"
    by (simp only: rev_map[symmetric] distinct_rev)
  moreover from assms(2) have "hashed_record (u, s, p) \<in> set (rev (map hashed_record crs))"
    by simp
  then have "(u, snd (hashed_record (u, s, p))) \<in> set (rev (map hashed_record crs))"
    by (simp add: hashed_record_def)
  ultimately show ?thesis
    by (rule map_of_is_SomeI)
qed

text \<open>C27. Every account that \<open>hashPassword\<close> writes into \<open>users.conf\<close> can log in after
  \<open>loadUsers\<close>, whatever the other lines are, and exactly with the passwords whose salted
  digest is the stored one.\<close>

theorem users_file_roundtrip:
  assumes "\<forall>cr\<in>set crs. valid_credential cr" and "distinct (map fst crs)"
    and "(u, s, p) \<in> set crs"
    and "am' = snd (loadUsers (Some (concat (map (\<lambda>cr. user_line cr @ [newline]) crs))) am)"
  shows "(authenticate u q am' \<longleftrightarrow> sha256Salted s q = sha256Salted s p) \<and> authenticate u p am'"
  using map_of_rev_hashed[OF assms(2,3)] loadUsers_credentials[OF assms(1)] assms(4)
  by (simp_all add: authenticate_def hashed_record_def)

theorem users_file_roundtrip_witness:
  "authenticate ''guest'' ''guest''
     (snd (loadUsers (Some (concat (map (\<lambda>cr. user_line cr @ [newline])
        [(''admin'', ''FTP2024'', ''1234''), (''guest'', ''FTP2024'', ''guest'')]))) new_auth))"
  by (rule users_file_roundtrip[where s = "''FTP2024''" and u = "''guest''" and am = new_auth and
        q = "[]" and crs = "[(''admin'', ''FTP2024'', ''1234''), (''guest'', ''FTP2024'', ''guest'')]",
        THEN conjunct2])
     (simp_all add: valid_credential_def)

text \<open>A custom salt with a colon makes the account unusable: the line is split at the first
  colon after the tag, and no password matches what is stored.\<close>

theorem salt_with_colon_locks_out:
  assumes "u \<noteq> []" and "hd u \<noteq> CHR ''#''" and "CHR ''='' \<notin> set u"
    and "CHR '':'' \<in> set s"
    and "us = fst (load_line (us0, c) (u @ ''='' @ hashPassword r p s))"
  shows "\<not> authenticate u q (am\<lparr>users := us\<rparr>)"
proof -
  let ?rest = "s @ CHR '':'' # sha256Salted s p"
  from assms(4) obtain i where i: "find_char CHR '':'' s = Some i"
    by (cases "find_char CHR '':'' s") (auto simp: find_char_None)
  then have split: "s = take i s @ CHR '':'' # drop (Suc i) s" by (rule find_char_split)
  have no: "CHR '':'' \<notin> set (take i s)" using find_char_Some[OF i] by blast
  have rest: "?rest = take i s @ CHR '':'' # (drop (Suc i) s @ CHR '':'' # sha256Salted s p)"
    using split by (metis append.assoc append_Cons)
  have "find_char CHR '':'' ?rest = Some (length (take i s))"
    unfolding rest using no by (rule find_char_append)
  then have found: "find_char CHR '':'' ?rest = Some i"
    using find_char_Some[OF i] by simp
  have stored: "drop (Suc i) ?rest = drop (Suc i) s @ CHR '':'' # sha256Salted s p"
    using find_char_Some[OF i] by simp
  have "s \<noteq> []" using assms(4) by auto
  then have "us u = Some \<lparr>ur_hashed = True, ur_salt = take i ?rest, ur_stored = drop (Suc i) ?rest\<rparr>"
    using assms(5) load_line_hashed[OF assms(1-3), of "sha256Salted s p" us0 c s] found
      pwd.digest_separators(3)[of s p] pwd.digest_nonempty[of s p]
    by (auto simp: hashPassword_def)
  then show ?thesis
    using stored pwd.no_digest_with_colon by (simp add: authenticate_def)
qed

theorem salt_with_colon_locks_out_witness:
  "\<not> authenticate ''bob'' ''pw'' (new_auth\<lparr>users := fst (load_line (Map.empty, 0)
      (''bob'' @ ''='' @ hashPassword (0, 0, 0, 0) ''pw'' ''a:b''))\<rparr>)"
  by (rule salt_with_colon_locks_out[where s = "''a:b''" and p = "''pw''" and r = "(0, 0, 0, 0)"
        and c = 0 and ?us0.0 = Map.empty]) simp_all

section \<open>Guessing passwords\<close>

text \<open>
  One password attempt as the session's \<open>handlePass\<close> makes it: the limiter first, then the
  password check (its result is \<open>ok\<close>), then the reset or the failure counter. The first
  component of the result tells whether a wrong password was looked at.
\<close>

definition login_attempt :: "int \<Rightarrow> string \<Rightarrow> bool \<Rightarrow> AuthManager \<Rightarrow> bool \<times> AuthManager" where
  "login_attempt now ip ok am =
     (let (refused, am1) = isRateLimited now ip am
      in if refused then (False, am1)
         else if ok then (False, clearAttempts ip am1)
         else (True, recordFailedAttempt now ip am1))"

fun wrong_guesses :: "string \<Rightarrow> (int \<times> string \<times> bool) list \<Rightarrow> AuthManager \<Rightarrow> int" where
  "wrong_guesses ip [] am = 0"
| "wrong_guesses ip ((now, who, ok) # es) am =
     (let (wrong, am') = login_attempt now who ok am
      in (if wrong \<and> who = ip then 1 else 0) + wrong_guesses ip es am')"

lemma login_attempt_attempts_nonneg:
  assumes "0 \<le> attemptsOf am ip"
  shows "0 \<le> attemptsOf (snd (login_attempt now who ok am)) ip"
  using assms lim.check_attempts[of now who am ip]
  by (auto simp: login_attempt_def split_beta lim.clear_attempts lim.fail_attempts)

lemma login_attempt_budget:
  assumes t: "T \<le> now" "now < T + kBlockSecs" and ok: "who = ip \<Longrightarrow> \<not> ok"
  shows "lim.budget T (snd (login_attempt now who ok am)) ip =
     lim.budget T am ip - (if fst (login_attempt now who ok am) \<and> who = ip then 1 else 0)"
proof (cases "who = ip")
  case True
  with ok t lim.budget_refused[of now ip am T] lim.budget_failed[of now ip am T] show ?thesis
    by (auto simp: login_attempt_def split_beta)
next
  case False
  then have "ip \<noteq> who" by simp
  with False lim.budget_other[of ip who] show ?thesis
    by (auto simp: login_attempt_def split_beta)
qed

lemma wrong_guesses_budget:
  assumes "\<forall>(now, who, ok)\<in>set es. T \<le> now \<and> now < T + kBlockSecs \<and> (who = ip \<longrightarrow> \<not> ok)"
    and "0 \<le> attemptsOf am ip"
  shows "wrong_guesses ip es am \<le> lim.budget T am ip"
  using assms
proof (induction es arbitrary: am)
  case Nil
  with lim.budget_bounds show ?case by simp
next
  case (Cons e es)
  obtain now who ok where e: "e = (now, who, ok)" by (cases e)
  let ?am' = "snd (login_attempt now who ok am)"
  have "wrong_guesses ip es ?am' \<le> lim.budget T ?am' ip"
    using Cons e login_attempt_attempts_nonneg by auto
  moreover have "lim.budget T ?am' ip =
      lim.budget T am ip - (if fst (login_attempt now who ok am) \<and> who = ip then 1 else 0)"
    using Cons.prems(1) e by (intro login_attempt_budget) auto
  ultimately show ?case
    by (simp add: e split_beta Let_def)
qed

text \<open>Within any 60 seconds, whatever other clients do and whatever the limiter remembers from
  before, at most five wrong passwords from one address are checked; further attempts are
  refused before the password is looked at. The attempts are made one after another: sessions
  that overlap between the check of the limiter and the record of the failure are not covered.\<close>

theorem at_most_five_guesses_per_minute:
  assumes "\<forall>(now, who, ok)\<in>set es. T \<le> now \<and> now < T + 60 \<and> (who = ip \<longrightarrow> \<not> ok)"
    and "0 \<le> attemptsOf am ip"
  shows "wrong_guesses ip es am \<le> 5"
proof -
  have "wrong_guesses ip es am \<le> lim.budget T am ip"
    using assms by (intro wrong_guesses_budget) (simp_all add: kBlockSecs_def)
  also have "\<dots> \<le> kMaxAttempts" using lim.budget_bounds[OF assms(2)] by simp
  finally show ?thesis by (simp add: kMaxAttempts_def)
qed

theorem at_most_five_guesses_per_minute_witness:
  "wrong_guesses ''10.0.0.7'' (replicate 7 (1000, ''10.0.0.7'', False)) new_auth \<le> 5"
  by (rule at_most_five_guesses_per_minute[where T = 1000])
     (simp_all add: attemptsOf_def new_auth_def)

text \<open>Five failures in a row block the address and nobody else: until the last failure is
  60 seconds old the address is refused, from then on it is not, and a successful login
  (\<open>clearAttempts\<close>) lifts the block at once.\<close>

theorem five_failures_block:
  assumes "attemptsOf am ip = 0"
    and "am' = foldl (\<lambda>a now. recordFailedAttempt now ip a) am [t1, t2, t3, t4, t5]"
  shows "(fst (isRateLimited now ip am') \<longleftrightarrow> now < t5 + 60) \<and>
         \<not> fst (isRateLimited now ip (clearAttempts ip am')) \<and>
         (ip' \<noteq> ip \<longrightarrow> fst (isRateLimited now ip' am') = fst (isRateLimited now ip' am))"
  using assms lim.cleared_not_refused
  by (auto simp: lim.check_refuses lim.fail_attempts lim.fail_blocked kMaxAttempts_def kBlockSecs_def)

theorem five_failures_block_witness:
  "(fst (isRateLimited 200 ''a'' (foldl (\<lambda>a now. recordFailedAttempt now ''a'' a) new_auth
        [100, 110, 120, 130, 140])) \<longleftrightarrow> (200::int) < 140 + 60) \<and>
   \<not> fst (isRateLimited 200 ''a'' (clearAttempts ''a'' (foldl (\<lambda>a now. recordFailedAttempt now ''a'' a)
        new_auth [100, 110, 120, 130, 140]))) \<and>
   fst (isRateLimited 200 ''b'' (foldl (\<lambda>a now. recordFailedAttempt now ''a'' a)
        new_auth [100, 110, 120, 130, 140])) = fst (isRateLimited 200 ''b'' new_auth)"
  using five_failures_block[of new_auth "''a''" "foldl (\<lambda>a now. recordFailedAttempt now ''a'' a)
      new_auth [100, 110, 120, 130, 140]" 100 110 120 130 140 200 "''b''"]
  by (simp add: attemptsOf_def new_auth_def)

lemma hex_upper_chars: "c \<in> set (hex_upper n) \<Longrightarrow> is_digit c \<or> (65::nat) \<le> of_char c \<and> of_char c \<le> (70::nat)"
proof (induction n rule: hex_upper.induct)
  case (1 n)
  then show ?case
    by (subst (asm) hex_upper.simps)
       (auto split: if_splits simp: hex_digit_upper_def is_digit_def)
qed

lemma length_hex_upper:
  assumes "n < 65536"
  shows "1 \<le> length (hex_upper n) \<and> length (hex_upper n) \<le> 4"
proof -
  have "length (hex_upper n) \<le> Suc k" if "n < 16 ^ Suc k" for n k
    using that
  proof (induction k arbitrary: n)
    case 0
    then show ?case by (subst hex_upper.simps) simp
  next
    case (Suc k)
    then have "n div 16 < 16 ^ Suc k" by (simp add: less_mult_imp_div_less)
    from Suc.IH[OF this] show ?case by (subst hex_upper.simps) simp
  qed
  from this[of n 3] assms show ?thesis
    by (subst hex_upper.simps) (simp add: hex_upper.simps[of n])
qed

text \<open>A salt drawn by \<open>generateSalt\<close> never contains a colon or a line break, so generated salts
  survive the users file; but its length is anything from 4 to 16, not always 16.\<close>

theorem generated_salt_shape:
  "4 \<le> length (generateSalt r) \<and> length (generateSalt r) \<le> 16 \<and>
   CHR '':'' \<notin> set (generateSalt r) \<and> newline \<notin> set (generateSalt r) \<and>
   length (generateSalt (0, 0, 0, 0)) = 4"
proof -
  obtain r0 r1 r2 r3 where r: "r = (r0, r1, r2, r3)" by (cases r)
  have len: "1 \<le> length (hex_upper (k mod 65536)) \<and> length (hex_upper (k mod 65536)) \<le> 4" for k
    by (rule length_hex_upper) simp
  have plain: "c \<notin> set (hex_upper k)"
    if "\<not> (is_digit c \<or> (65::nat) \<le> of_char c \<and> of_char c \<le> (70::nat))" for c k
    using that hex_upper_chars by blast
  have "CHR '':'' \<notin> set (hex_upper k) \<and> newline \<notin> set (hex_upper k)" for k
    by (intro conjI plain) (simp_all add: is_digit_def)
  then show ?thesis
    using len[of r0] len[of r1] len[of r2] len[of r3]
    by (auto simp: generateSalt_def r hex_upper.simps[of 0])
qed

end
