(* ===== verification/Platform.thy ===== *)
theory Platform
  imports Prelude
begin

text \<open>
  The platform layer (\<open>src/common/platform.h\<close>, POSIX branch of \<open>src/common/platform.cpp\<close>).
  The operating system is not part of the repository, so it is a parameter: a record of
  oracles that answer a system call from the calls made so far and its arguments. The calls
  themselves are recorded in a trace, which is what safety properties of the server speak
  about. Socket handles are the integers of \<open>intptr_t\<close>. A path is recorded as the
  \<open>std::string\<close> passed; the system sees it up to its first NUL. Buffer sizes are taken as
  in range: \<open>sendBufKB * 1024\<close> is \<open>int\<close> arithmetic in the source.
\<close>

section \<open>System calls and the operating system\<close>

type_synonym handle = int

definition kInvalidSocket :: handle where
  "kInvalidSocket = - 1"

datatype sock_option = Opt_reuseaddr | Opt_keepalive | Opt_rcvtimeo int | Opt_sndbuf int | Opt_rcvbuf int

datatype event =
    Ev_socket int                       \<comment> \<open>\<open>socket()\<close> returned this descriptor\<close>
  | Ev_bind int "16 word"
  | Ev_listen int int
  | Ev_accept int int                   \<comment> \<open>\<open>accept(l)\<close> returned this descriptor\<close>
  | Ev_accept_wait int                  \<comment> \<open>\<open>accept(l)\<close> blocks for ever\<close>
  | Ev_connect int string "16 word" int \<comment> \<open>descriptor, address, port, result\<close>
  | Ev_close int
  | Ev_send int string
  | Ev_setsockopt int sock_option
  | Ev_getsockname int
  | Ev_getpeername int
  | Ev_stat string
  | Ev_readdir string
  | Ev_remove string
  | Ev_mkdir string
  | Ev_rmdir string
  | Ev_rename string string
  | Ev_fopen string string              \<comment> \<open>path and mode\<close>
  | Ev_fseek string int
  | Ev_fwrite string string
  | Ev_fread string nat
  | Ev_fclose string
  | Ev_open string
  | Ev_sendfile int string "64 word" "64 word"
  | Ev_sleep nat

type_synonym hist = "event list"

record file_stat =
  st_dir :: bool
  st_size :: "64 word"
  st_mtime :: int

datatype accept_result = Accepted int | Accept_blocks

text \<open>
  What a connection delivers: the segments \<open>recv\<close> sees in turn (a segment longer than the
  caller's buffer is delivered in pieces) and what happens after the last one: the peer
  closes, or it stays silent.
\<close>

datatype peer_end = Peer_closes | Peer_silent

type_synonym net_in = "string list \<times> peer_end"

record os =
  os_socket :: "hist \<Rightarrow> int"
  os_bind :: "hist \<Rightarrow> int \<Rightarrow> 16 word \<Rightarrow> int"
  os_listen :: "hist \<Rightarrow> int \<Rightarrow> int \<Rightarrow> int"
  os_accept :: "hist \<Rightarrow> int \<Rightarrow> accept_result"
  os_connect :: "hist \<Rightarrow> int \<Rightarrow> string \<Rightarrow> 16 word \<Rightarrow> int"
  os_incoming :: "hist \<Rightarrow> int \<Rightarrow> net_in"
  os_send :: "hist \<Rightarrow> int \<Rightarrow> string \<Rightarrow> int"
  os_getsockname :: "hist \<Rightarrow> int \<Rightarrow> 16 word"
  os_getpeername :: "hist \<Rightarrow> int \<Rightarrow> string"
  os_stat :: "hist \<Rightarrow> string \<Rightarrow> file_stat option"
  os_readdir :: "hist \<Rightarrow> string \<Rightarrow> string list option"
  os_remove :: "hist \<Rightarrow> string \<Rightarrow> bool"
  os_mkdir :: "hist \<Rightarrow> string \<Rightarrow> bool"
  os_rmdir :: "hist \<Rightarrow> string \<Rightarrow> bool"
  os_rename :: "hist \<Rightarrow> string \<Rightarrow> string \<Rightarrow> bool"
  os_fopen :: "hist \<Rightarrow> string \<Rightarrow> string \<Rightarrow> bool"
  os_content :: "hist \<Rightarrow> string \<Rightarrow> string"
  os_open :: "hist \<Rightarrow> string \<Rightarrow> bool"
  os_fstat_size :: "hist \<Rightarrow> string \<Rightarrow> 64 word"
  os_sendfile :: "hist \<Rightarrow> int \<Rightarrow> string \<Rightarrow> 64 word \<Rightarrow> 64 word \<Rightarrow> int"
  os_time :: "hist \<Rightarrow> int"
  os_clock :: "hist \<Rightarrow> int"

section \<open>Sockets\<close>

definition toPosix :: "handle \<Rightarrow> int" where
  "toPosix h = h"

definition fromPosix :: "int \<Rightarrow> handle" where
  "fromPosix fd = (if fd < 0 then kInvalidSocket else fd)"

definition closeSocket :: "os \<Rightarrow> handle \<Rightarrow> hist \<Rightarrow> hist" where
  "closeSocket os sock h = h @ [Ev_close (toPosix sock)]"

definition createTcpSocket :: "os \<Rightarrow> hist \<Rightarrow> handle \<times> hist" where
  "createTcpSocket os h = (let fd = os_socket os h in (fromPosix fd, h @ [Ev_socket fd]))"

definition bindSocket :: "os \<Rightarrow> handle \<Rightarrow> int \<Rightarrow> hist \<Rightarrow> int \<times> hist" where
  "bindSocket os sock port h =
     (let p = (word_of_int port :: 16 word)
      in (os_bind os h (toPosix sock) p, h @ [Ev_bind (toPosix sock) p]))"

definition listenSocket :: "os \<Rightarrow> handle \<Rightarrow> int \<Rightarrow> hist \<Rightarrow> int \<times> hist" where
  "listenSocket os sock backlog h =
     (os_listen os h (toPosix sock) backlog, h @ [Ev_listen (toPosix sock) backlog])"

text \<open>\<open>None\<close>: the call waits for a client that never comes.\<close>

definition acceptConnection :: "os \<Rightarrow> handle \<Rightarrow> hist \<Rightarrow> handle option \<times> hist" where
  "acceptConnection os server h =
     (case os_accept os h (toPosix server) of
        Accepted fd \<Rightarrow> (Some (fromPosix fd), h @ [Ev_accept (toPosix server) fd])
      | Accept_blocks \<Rightarrow> (None, h @ [Ev_accept_wait (toPosix server)]))"

definition connectSocket :: "os \<Rightarrow> string \<Rightarrow> int \<Rightarrow> hist \<Rightarrow> handle \<times> hist" where
  "connectSocket os ip port h =
     (let p = (word_of_int port :: 16 word);
          fd = os_socket os h;
          h1 = h @ [Ev_socket fd];
          r = os_connect os h1 fd ip p;
          h2 = h1 @ [Ev_connect fd ip p r]
      in if r \<noteq> 0 then (kInvalidSocket, h2 @ [Ev_close fd]) else (fromPosix fd, h2))"

definition sendData :: "os \<Rightarrow> handle \<Rightarrow> string \<Rightarrow> hist \<Rightarrow> int \<times> hist" where
  "sendData os sock buf h = (os_send os h (toPosix sock) buf, h @ [Ev_send (toPosix sock) buf])"

text \<open>
  \<open>recv\<close> with a buffer of \<open>len\<close> bytes: data, or zero/minus one at the end of the connection,
  or it blocks for ever.
\<close>

datatype recv_result = R_data string | R_end | R_blocks

fun recvData :: "nat \<Rightarrow> net_in \<Rightarrow> recv_result \<times> net_in" where
  "recvData len ([], Peer_closes) = (R_end, ([], Peer_closes))"
| "recvData len ([], Peer_silent) = (R_blocks, ([], Peer_silent))"
| "recvData len (seg # segs, e) =
     (if seg = [] then (R_end, (segs, e))
      else (R_data (take len seg),
            (if length seg \<le> len then segs else drop len seg # segs, e)))"

definition setReuseAddr :: "os \<Rightarrow> handle \<Rightarrow> hist \<Rightarrow> hist" where
  "setReuseAddr os sock h = h @ [Ev_setsockopt (toPosix sock) Opt_reuseaddr]"

definition setRecvTimeout :: "os \<Rightarrow> handle \<Rightarrow> int \<Rightarrow> hist \<Rightarrow> hist" where
  "setRecvTimeout os sock seconds h =
     (if seconds \<le> 0 then h else h @ [Ev_setsockopt (toPosix sock) (Opt_rcvtimeo seconds)])"

definition setKeepAlive :: "os \<Rightarrow> handle \<Rightarrow> hist \<Rightarrow> hist" where
  "setKeepAlive os sock h = h @ [Ev_setsockopt (toPosix sock) Opt_keepalive]"

definition setSocketBuffers :: "os \<Rightarrow> handle \<Rightarrow> int \<Rightarrow> int \<Rightarrow> hist \<Rightarrow> hist" where
  "setSocketBuffers os sock sendBufKB recvBufKB h =
     h @ [Ev_setsockopt (toPosix sock) (Opt_sndbuf (sendBufKB * 1024)),
          Ev_setsockopt (toPosix sock) (Opt_rcvbuf (recvBufKB * 1024))]"

definition getLocalPort :: "os \<Rightarrow> handle \<Rightarrow> hist \<Rightarrow> int \<times> hist" where
  "getLocalPort os sock h =
     (uint (os_getsockname os h (toPosix sock)), h @ [Ev_getsockname (toPosix sock)])"

definition getPeerIp :: "os \<Rightarrow> handle \<Rightarrow> hist \<Rightarrow> string \<times> hist" where
  "getPeerIp os sock h =
     (os_getpeername os h (toPosix sock), h @ [Ev_getpeername (toPosix sock)])"

section \<open>The RAII socket wrapper\<close>

text \<open>A \<open>ManagedSocket\<close> is its handle; \<open>close\<close> releases it at most once.\<close>

definition ms_valid :: "handle \<Rightarrow> bool" where
  "ms_valid fd \<longleftrightarrow> fd \<noteq> kInvalidSocket"

definition ms_close :: "os \<Rightarrow> handle \<Rightarrow> hist \<Rightarrow> handle \<times> hist" where
  "ms_close os fd h = (if ms_valid fd then (kInvalidSocket, closeSocket os fd h) else (fd, h))"

section \<open>The file system\<close>

record FileInfo =
  fi_name :: string
  fi_isDirectory :: bool
  fi_size :: "64 word"

text \<open>The loop over \<open>readdir\<close>: one \<open>stat\<close> per entry other than \<open>.\<close> and \<open>..\<close>.\<close>

primrec list_entries :: "os \<Rightarrow> string \<Rightarrow> string list \<Rightarrow> hist \<Rightarrow> FileInfo list \<times> hist" where
  "list_entries os path [] h = ([], h)"
| "list_entries os path (name # names) h =
     (if name = ''.'' \<or> name = ''..'' then list_entries os path names h
      else let full = path @ ''/'' @ name;
               fi = (case os_stat os h full of
                       Some st \<Rightarrow> \<lparr>fi_name = name, fi_isDirectory = st_dir st, fi_size = st_size st\<rparr>
                     | None \<Rightarrow> \<lparr>fi_name = name, fi_isDirectory = False, fi_size = 0\<rparr>);
               (rest, h') = list_entries os path names (h @ [Ev_stat full])
           in (fi # rest, h'))"

definition listDirectory :: "os \<Rightarrow> string \<Rightarrow> hist \<Rightarrow> FileInfo list \<times> hist" where
  "listDirectory os path h =
     (case os_readdir os h path of
        None \<Rightarrow> ([], h @ [Ev_readdir path])
      | Some names \<Rightarrow> list_entries os path names (h @ [Ev_readdir path]))"

definition isDirectory :: "os \<Rightarrow> string \<Rightarrow> hist \<Rightarrow> bool \<times> hist" where
  "isDirectory os path h =
     (case os_stat os h path of None \<Rightarrow> False | Some st \<Rightarrow> st_dir st, h @ [Ev_stat path])"

definition pathExists :: "os \<Rightarrow> string \<Rightarrow> hist \<Rightarrow> bool \<times> hist" where
  "pathExists os path h = (os_stat os h path \<noteq> None, h @ [Ev_stat path])"

definition deleteFile :: "os \<Rightarrow> string \<Rightarrow> hist \<Rightarrow> bool \<times> hist" where
  "deleteFile os path h = (os_remove os h path, h @ [Ev_remove path])"

definition createDir :: "os \<Rightarrow> string \<Rightarrow> hist \<Rightarrow> bool \<times> hist" where
  "createDir os path h = (os_mkdir os h path, h @ [Ev_mkdir path])"

definition removeDir :: "os \<Rightarrow> string \<Rightarrow> hist \<Rightarrow> bool \<times> hist" where
  "removeDir os path h = (os_rmdir os h path, h @ [Ev_rmdir path])"

definition renameFile :: "os \<Rightarrow> string \<Rightarrow> string \<Rightarrow> hist \<Rightarrow> bool \<times> hist" where
  "renameFile os from to h = (os_rename os h from to, h @ [Ev_rename from to])"

text \<open>\<open>gmtime\<close>: the civil date of a Unix time (days counted from 0000-03-01, in eras of 400 years).\<close>

record tm =
  tm_year :: int   \<comment> \<open>years since 1900\<close>
  tm_mon :: int    \<comment> \<open>0 to 11\<close>
  tm_mday :: int
  tm_hour :: int
  tm_min :: int
  tm_sec :: int

definition civil_date :: "int \<Rightarrow> int \<times> int \<times> int" where
  "civil_date days =
     (let z = days + 719468;
          era = z div 146097;
          doe = z mod 146097;
          yoe = (doe - doe div 1460 + doe div 36524 - doe div 146096) div 365;
          doy = doe - (365 * yoe + yoe div 4 - yoe div 100);
          mp = (5 * doy + 2) div 153;
          d = doy - (153 * mp + 2) div 5 + 1;
          m = (if mp < 10 then mp + 3 else mp - 9)
      in (yoe + era * 400 + (if m \<le> 2 then 1 else 0), m, d))"

definition gmtime :: "int \<Rightarrow> tm option" where
  "gmtime t =
     (let (y, m, d) = civil_date (t div 86400); r = t mod 86400
      in if int32 (y - 1900)
         then Some \<lparr>tm_year = y - 1900, tm_mon = m - 1, tm_mday = d,
                    tm_hour = r div 3600, tm_min = r mod 3600 div 60, tm_sec = r mod 60\<rparr>
         else None)"

text \<open>\<open>printf\<close>'s \<open>%0wd\<close>.\<close>

definition pad0 :: "nat \<Rightarrow> int \<Rightarrow> string" where
  "pad0 w i =
     (let sgn = (if i < 0 then ''-'' else []); ds = nat_str (nat \<bar>i\<bar>)
      in sgn @ replicate (w - length sgn - length ds) (CHR ''0'') @ ds)"

definition format_modtime :: "tm \<Rightarrow> string" where
  "format_modtime t =
     pad0 4 (tm_year t + 1900) @ pad0 2 (tm_mon t + 1) @ pad0 2 (tm_mday t) @
     pad0 2 (tm_hour t) @ pad0 2 (tm_min t) @ pad0 2 (tm_sec t)"

definition getFileModTime :: "os \<Rightarrow> string \<Rightarrow> hist \<Rightarrow> string \<times> hist" where
  "getFileModTime os path h =
     (case os_stat os h path of
        None \<Rightarrow> []
      | Some st \<Rightarrow> (case gmtime (st_mtime st) of None \<Rightarrow> [] | Some t \<Rightarrow> take 31 (format_modtime t)),
      h @ [Ev_stat path])"

section \<open>Zero-copy transmission\<close>

text \<open>
  The Linux branch of \<open>transmitFile\<close>: the size minus the offset is computed on \<open>uint64_t\<close>
  and handed to one \<open>sendfile\<close> call. The second component of the result is \<open>bytesSent\<close>.
\<close>

definition transmitFile :: "os \<Rightarrow> handle \<Rightarrow> string \<Rightarrow> 64 word \<Rightarrow> hist \<Rightarrow> (bool \<times> 64 word) \<times> hist" where
  "transmitFile os sock path offset h =
     (let h1 = h @ [Ev_open path]
      in if \<not> os_open os h path then ((False, 0), h1)
         else let toSend = os_fstat_size os h1 path - offset;
                  sent = os_sendfile os h1 (toPosix sock) path offset toSend;
                  h2 = h1 @ [Ev_sendfile (toPosix sock) path offset toSend]
              in if 0 \<le> sent then ((True, word_of_int sent), h2) else ((False, 0), h2))"

section \<open>What a trace shows\<close>

text \<open>
  Three readings of a trace: the paths the file system was asked about, the balance of
  socket descriptors opened and closed, and the strings sent on one descriptor.
\<close>

primrec ev_paths :: "event \<Rightarrow> string list" where
  "ev_paths (Ev_socket y) = []"
| "ev_paths (Ev_bind y p) = []"
| "ev_paths (Ev_listen y n) = []"
| "ev_paths (Ev_accept l y) = []"
| "ev_paths (Ev_accept_wait l) = []"
| "ev_paths (Ev_connect y a p r) = []"
| "ev_paths (Ev_close y) = []"
| "ev_paths (Ev_send y d) = []"
| "ev_paths (Ev_setsockopt y opt) = []"
| "ev_paths (Ev_getsockname y) = []"
| "ev_paths (Ev_getpeername y) = []"
| "ev_paths (Ev_stat p) = [p]"
| "ev_paths (Ev_readdir p) = [p]"
| "ev_paths (Ev_remove p) = [p]"
| "ev_paths (Ev_mkdir p) = [p]"
| "ev_paths (Ev_rmdir p) = [p]"
| "ev_paths (Ev_rename p q) = [p, q]"
| "ev_paths (Ev_fopen p m) = [p]"
| "ev_paths (Ev_fseek p n) = [p]"
| "ev_paths (Ev_fwrite p d) = [p]"
| "ev_paths (Ev_fread p n) = [p]"
| "ev_paths (Ev_fclose p) = [p]"
| "ev_paths (Ev_open p) = [p]"
| "ev_paths (Ev_sendfile y p a b) = [p]"
| "ev_paths (Ev_sleep n) = []"

definition paths_ok :: "(string \<Rightarrow> bool) \<Rightarrow> hist \<Rightarrow> bool" where
  "paths_ok P h = (\<forall>e\<in>set h. \<forall>p\<in>set (ev_paths e). P p)"

primrec sock_delta :: "int \<Rightarrow> event \<Rightarrow> int" where
  "sock_delta x (Ev_socket y) = (if y = x then 1 else 0)"
| "sock_delta x (Ev_bind y p) = 0"
| "sock_delta x (Ev_listen y n) = 0"
| "sock_delta x (Ev_accept l y) = (if y = x then 1 else 0)"
| "sock_delta x (Ev_accept_wait l) = 0"
| "sock_delta x (Ev_connect y a p r) = 0"
| "sock_delta x (Ev_close y) = (if y = x then - 1 else 0)"
| "sock_delta x (Ev_send y d) = 0"
| "sock_delta x (Ev_setsockopt y opt) = 0"
| "sock_delta x (Ev_getsockname y) = 0"
| "sock_delta x (Ev_getpeername y) = 0"
| "sock_delta x (Ev_stat p) = 0"
| "sock_delta x (Ev_readdir p) = 0"
| "sock_delta x (Ev_remove p) = 0"
| "sock_delta x (Ev_mkdir p) = 0"
| "sock_delta x (Ev_rmdir p) = 0"
| "sock_delta x (Ev_rename p q) = 0"
| "sock_delta x (Ev_fopen p m) = 0"
| "sock_delta x (Ev_fseek p n) = 0"
| "sock_delta x (Ev_fwrite p d) = 0"
| "sock_delta x (Ev_fread p n) = 0"
| "sock_delta x (Ev_fclose p) = 0"
| "sock_delta x (Ev_open p) = 0"
| "sock_delta x (Ev_sendfile y p a b) = 0"
| "sock_delta x (Ev_sleep n) = 0"

definition held :: "int \<Rightarrow> hist \<Rightarrow> int" where
  "held x h = sum_list (map (sock_delta x) h)"

primrec ev_sent :: "int \<Rightarrow> event \<Rightarrow> string list" where
  "ev_sent s (Ev_socket y) = []"
| "ev_sent s (Ev_bind y p) = []"
| "ev_sent s (Ev_listen y n) = []"
| "ev_sent s (Ev_accept l y) = []"
| "ev_sent s (Ev_accept_wait l) = []"
| "ev_sent s (Ev_connect y a p r) = []"
| "ev_sent s (Ev_close y) = []"
| "ev_sent s (Ev_send y d) = (if y = s then [d] else [])"
| "ev_sent s (Ev_setsockopt y opt) = []"
| "ev_sent s (Ev_getsockname y) = []"
| "ev_sent s (Ev_getpeername y) = []"
| "ev_sent s (Ev_stat p) = []"
| "ev_sent s (Ev_readdir p) = []"
| "ev_sent s (Ev_remove p) = []"
| "ev_sent s (Ev_mkdir p) = []"
| "ev_sent s (Ev_rmdir p) = []"
| "ev_sent s (Ev_rename p q) = []"
| "ev_sent s (Ev_fopen p m) = []"
| "ev_sent s (Ev_fseek p n) = []"
| "ev_sent s (Ev_fwrite p d) = []"
| "ev_sent s (Ev_fread p n) = []"
| "ev_sent s (Ev_fclose p) = []"
| "ev_sent s (Ev_open p) = []"
| "ev_sent s (Ev_sendfile y p a b) = []"
| "ev_sent s (Ev_sleep n) = []"

definition sent_on :: "int \<Rightarrow> hist \<Rightarrow> string list" where
  "sent_on s h = concat (map (ev_sent s) h)"

lemma paths_ok_simps [simp]:
  "paths_ok P []"
  "paths_ok P (h @ h') \<longleftrightarrow> paths_ok P h \<and> paths_ok P h'"
  "paths_ok P (e # h) \<longleftrightarrow> (\<forall>p\<in>set (ev_paths e). P p) \<and> paths_ok P h"
  by (auto simp: paths_ok_def)

lemma paths_ok_mono: "paths_ok P h \<Longrightarrow> (\<And>p. P p \<Longrightarrow> Q p) \<Longrightarrow> paths_ok Q h"
  by (auto simp: paths_ok_def)

lemma held_simps [simp]:
  "held x [] = 0"
  "held x (h @ h') = held x h + held x h'"
  "held x (e # h) = sock_delta x e + held x h"
  by (simp_all add: held_def)

lemma sent_on_simps [simp]:
  "sent_on s [] = []"
  "sent_on s (h @ h') = sent_on s h @ sent_on s h'"
  "sent_on s (e # h) = ev_sent s e @ sent_on s h"
  by (simp_all add: sent_on_def)

lemmas platform_defs =
  toPosix_def closeSocket_def createTcpSocket_def bindSocket_def listenSocket_def
  sendData_def setReuseAddr_def setRecvTimeout_def setKeepAlive_def setSocketBuffers_def
  getLocalPort_def getPeerIp_def isDirectory_def pathExists_def deleteFile_def
  createDir_def removeDir_def renameFile_def getFileModTime_def

text \<open>A directory listing reads the directory and queries entries below it, nothing else.\<close>

definition listing_event :: "string \<Rightarrow> event \<Rightarrow> bool" where
  "listing_event path e \<longleftrightarrow> e = Ev_readdir path \<or> (\<exists>n. e = Ev_stat (path @ ''/'' @ n))"

lemma list_entries_trace:
  "\<exists>es. snd (list_entries os path names h) = h @ es \<and> (\<forall>e\<in>set es. listing_event path e)"
proof (induction names arbitrary: h)
  case Nil
  then show ?case by simp
next
  case (Cons n names)
  show ?case
  proof (cases "n = ''.'' \<or> n = ''..''")
    case True
    with Cons.IH[of h] show ?thesis by auto
  next
    case False
    obtain es where "snd (list_entries os path names (h @ [Ev_stat (path @ ''/'' @ n)])) =
        (h @ [Ev_stat (path @ ''/'' @ n)]) @ es" and "\<forall>e\<in>set es. listing_event path e"
      using Cons.IH by blast
    with False show ?thesis
      by (intro exI[of _ "Ev_stat (path @ ''/'' @ n) # es"])
         (auto simp: Let_def split_beta listing_event_def)
  qed
qed

lemma listDirectory_trace:
  "\<exists>es. snd (listDirectory os path h) = h @ es \<and> (\<forall>e\<in>set es. listing_event path e)"
proof (cases "os_readdir os h path")
  case None
  then show ?thesis by (auto simp: listDirectory_def listing_event_def)
next
  case (Some names)
  with list_entries_trace[of os path names "h @ [Ev_readdir path]"] show ?thesis
    by (auto simp: listDirectory_def listing_event_def)
qed

lemma listing_event_reads:
  assumes "listing_event path e"
  shows "sock_delta x e = 0" and "ev_sent s e = []"
    and "\<exists>n. ev_paths e = [path @ n]"
  using assms by (auto simp: listing_event_def intro: exI[of _ "[]"])

lemma listing_events_quiet:
  assumes "\<forall>e\<in>set es. listing_event path e"
  shows "held x es = 0" and "sent_on s es = []"
    and "(\<And>n. P (path @ n)) \<Longrightarrow> paths_ok P es"
  using assms
proof (induction es)
  case Nil
  { case 1 show ?case by simp }
  { case 2 show ?case by simp }
  { case 3 show ?case by simp }
next
  case (Cons e es)
  { case 1 with Cons.IH(1) listing_event_reads(1)[of path e x] show ?case by simp }
  { case 2 with Cons.IH(2) listing_event_reads(2)[of path e s] show ?case by simp }
  { case 3
    then obtain n where "ev_paths e = [path @ n]"
      using listing_event_reads(3)[of path e] by auto
    with 3 Cons.IH(3) show ?case by simp }
qed

lemma listDirectory_quiet [trace_simps]:
  "held x (snd (listDirectory os path h)) = held x h"
  "sent_on s (snd (listDirectory os path h)) = sent_on s h"
  using listDirectory_trace[of os path h] listing_events_quiet(1,2) by auto

lemma listDirectory_paths_ok:
  "paths_ok P h \<Longrightarrow> (\<And>n. P (path @ n)) \<Longrightarrow> paths_ok P (snd (listDirectory os path h))"
  using listDirectory_trace[of os path h] listing_events_quiet(3)[of _ path P] by auto

lemma list_entries_names:
  "f \<in> set (fst (list_entries os path names h)) \<Longrightarrow> fi_name f \<noteq> ''.'' \<and> fi_name f \<noteq> ''..''"
proof (induction names arbitrary: h)
  case Nil
  then show ?case by simp
next
  case (Cons n names)
  show ?case
  proof (cases "n = ''.'' \<or> n = ''..''")
    case True
    with Cons.prems have "f \<in> set (fst (list_entries os path names h))"
      by (simp only: list_entries.simps if_True)
    then show ?thesis by (rule Cons.IH)
  next
    case False
    define h' where "h' = h @ [Ev_stat (path @ ''/'' @ n)]"
    from Cons.prems False have "f \<in> set (fst (list_entries os path names h')) \<or> fi_name f = n"
      by (simp add: Let_def split_beta h'_def split: option.splits) auto
    with Cons.IH[of h'] False show ?thesis by auto
  qed
qed

lemma listDirectory_names:
  "f \<in> set (fst (listDirectory os path h)) \<Longrightarrow> fi_name f \<noteq> ''.'' \<and> fi_name f \<noteq> ''..''"
  by (auto simp: listDirectory_def dest: list_entries_names split: option.splits)

text \<open>Closing a managed socket twice closes the descriptor once.\<close>

lemma ms_close_idem:
  "ms_close os (fst (ms_close os fd h)) (snd (ms_close os fd h)) = ms_close os fd h"
  by (simp add: ms_close_def ms_valid_def)

lemma ms_close_simps [trace_simps]:
  "fst (ms_close os fd h) = kInvalidSocket"
  "held x (snd (ms_close os fd h)) = held x h - (if ms_valid fd \<and> fd = x then 1 else 0)"
  "paths_ok P (snd (ms_close os fd h)) = paths_ok P h"
  "sent_on s (snd (ms_close os fd h)) = sent_on s h"
  by (auto simp: ms_close_def ms_valid_def closeSocket_def toPosix_def)

section \<open>An example system\<close>

text \<open>
  A system on which every call succeeds, for concrete runs: descriptors 7 and 8, one
  regular file content, a peer that sends five bytes and closes. What a path names is
  told by its last character: a path that ends in a lower case letter is a directory.
\<close>

definition demo_stat :: "string \<Rightarrow> file_stat" where
  "demo_stat p = \<lparr>st_dir = (p \<noteq> [] \<and> toupper (last p) \<noteq> last p),
                  st_size = 11, st_mtime = 86400\<rparr>"

definition demo_os :: os where
  "demo_os = \<lparr>os_socket = \<lambda>h. 7, os_bind = \<lambda>h s p. 0, os_listen = \<lambda>h s n. 0,
     os_accept = \<lambda>h s. Accepted 8, os_connect = \<lambda>h s ip p. 0,
     os_incoming = \<lambda>h s. ([''abc'', ''de''], Peer_closes), os_send = \<lambda>h s d. int (length d),
     os_getsockname = \<lambda>h s. 50000, os_getpeername = \<lambda>h s. ''10.0.0.1'',
     os_stat = \<lambda>h p. Some (demo_stat p), os_readdir = \<lambda>h p. Some [''.'', ''..'', ''A.TXT'', ''sub''],
     os_remove = \<lambda>h p. True, os_mkdir = \<lambda>h p. True, os_rmdir = \<lambda>h p. True,
     os_rename = \<lambda>h p q. True, os_fopen = \<lambda>h p m. True, os_content = \<lambda>h p. ''hello world'',
     os_open = \<lambda>h p. False, os_fstat_size = \<lambda>h p. 11, os_sendfile = \<lambda>h s p off n. uint n,
     os_time = \<lambda>h. 0, os_clock = \<lambda>h. 0\<rparr>"

end
