(* ===== verification/Data_Channel.thy ===== *)
theory Data_Channel
  imports Platform
begin

text \<open>
  \<open>src/server/data_channel.h\<close>: the passive and active modes of the data connection, the
  parser of the \<open>PORT\<close> argument and the \<open>PASV\<close> reply.
\<close>

section \<open>State and modes\<close>

record DataChannel =
  passiveSocket :: handle
  usePassive :: bool
  passivePort :: int
  activeIp :: string
  activePort :: int

definition new_channel :: DataChannel where
  "new_channel = \<lparr>passiveSocket = kInvalidSocket, usePassive = False, passivePort = 0,
                  activeIp = [], activePort = 0\<rparr>"

definition closePassive :: "os \<Rightarrow> DataChannel \<Rightarrow> hist \<Rightarrow> DataChannel \<times> hist" where
  "closePassive os dc h =
     (let (fd, h') = ms_close os (passiveSocket dc) h in (dc\<lparr>passiveSocket := fd\<rparr>, h'))"

text \<open>The first component is the returned port, or \<open>-1\<close>.\<close>

definition enterPassive :: "os \<Rightarrow> DataChannel \<Rightarrow> hist \<Rightarrow> int \<times> DataChannel \<times> hist" where
  "enterPassive os dc h =
     (let (dc0, h0) = closePassive os dc h;
          (sock, h1) = createTcpSocket os h0
      in if sock = kInvalidSocket then (- 1, dc0, h1)
         else let h2 = setReuseAddr os sock h1;
                  (b, h3) = bindSocket os sock 0 h2
              in if b < 0 then (- 1, dc0, closeSocket os sock h3)
                 else let (l, h4) = listenSocket os sock 1 h3
                      in if l < 0 then (- 1, dc0, closeSocket os sock h4)
                         else let (port, h5) = getLocalPort os sock h4
                              in (port, dc0\<lparr>passivePort := port, passiveSocket := sock,
                                            usePassive := True\<rparr>, h5))"

definition enterActive :: "os \<Rightarrow> string \<Rightarrow> int \<Rightarrow> DataChannel \<Rightarrow> hist \<Rightarrow> DataChannel \<times> hist" where
  "enterActive os ip port dc h =
     (let (dc0, h0) = closePassive os dc h
      in (dc0\<lparr>activeIp := ip, activePort := port, usePassive := False\<rparr>, h0))"

text \<open>\<open>open\<close>: \<open>None\<close> when \<open>accept\<close> never returns, otherwise a managed socket, possibly invalid.\<close>

definition open_data :: "os \<Rightarrow> DataChannel \<Rightarrow> hist \<Rightarrow> handle option \<times> DataChannel \<times> hist" where
  "open_data os dc h =
     (if usePassive dc then
        (case acceptConnection os (passiveSocket dc) h of
           (None, h1) \<Rightarrow> (None, dc, h1)
         | (Some ds, h1) \<Rightarrow> (let (dc', h2) = closePassive os dc h1 in (Some ds, dc', h2)))
      else let (ds, h1) = connectSocket os (activeIp dc) (activePort dc) h
           in (Some ds, dc, h1))"

section \<open>The PORT argument and the PASV reply\<close>

text \<open>
  \<open>int nums[6]\<close> with its write index: a seventh number is written past the end of the
  array. \<open>stoi\<close> is evaluated before the write.
\<close>

definition store_num :: "int list \<Rightarrow> nat \<Rightarrow> string \<Rightarrow> cxx_exn + int list" where
  "store_num nums idx temp =
     (case stoi temp of
        Inl e \<Rightarrow> Inl e
      | Inr v \<Rightarrow> if idx < 6 then Inr (nums[idx := v]) else Inl Undefined_behaviour)"

fun parse_numbers :: "string \<Rightarrow> int list \<Rightarrow> nat \<Rightarrow> string \<Rightarrow> cxx_exn + int list" where
  "parse_numbers [] nums idx temp = store_num nums idx temp"
| "parse_numbers (c # cs) nums idx temp =
     (if c = CHR '','' then
        (case store_num nums idx temp of
           Inl e \<Rightarrow> Inl e
         | Inr nums' \<Rightarrow> parse_numbers cs nums' (Suc idx) [])
      else parse_numbers cs nums idx (temp @ [c]))"

text \<open>The address and port of six parsed numbers; \<open>nums[4] * 256 + nums[5]\<close> is \<open>int\<close> arithmetic.\<close>

definition host_port :: "int list \<Rightarrow> cxx_exn + string \<times> int" where
  "host_port nums =
     (let ip = int_str (nums ! 0) @ ''.'' @ int_str (nums ! 1) @ ''.'' @
               int_str (nums ! 2) @ ''.'' @ int_str (nums ! 3)
      in if int32 (nums ! 4 * 256) \<and> int32 (nums ! 4 * 256 + nums ! 5)
         then Inr (ip, nums ! 4 * 256 + nums ! 5) else Inl Undefined_behaviour)"

definition parsePortCommand :: "string \<Rightarrow> cxx_exn + string \<times> int" where
  "parsePortCommand arg =
     (case parse_numbers arg (replicate 6 0) 0 [] of
        Inl e \<Rightarrow> Inl e
      | Inr nums \<Rightarrow> host_port nums)"

definition pasvResponse :: "DataChannel \<Rightarrow> string" where
  "pasvResponse dc =
     ''227 Entering Passive Mode (127,0,0,1,'' @ int_str (passivePort dc div 256) @ '','' @
     int_str (passivePort dc mod 256) @ '')''"

section \<open>Socket accounting\<close>

text \<open>
  Descriptors of the trace that the channel does not own. Every operation keeps this
  balance, except \<open>open_data\<close>, which hands the data socket to its caller.
\<close>

definition unowned :: "int \<Rightarrow> DataChannel \<Rightarrow> hist \<Rightarrow> int" where
  "unowned x dc h = held x h - (if passiveSocket dc = x then 1 else 0)"

lemma closePassive_simps [trace_simps]:
  "passiveSocket (fst (closePassive os dc h)) = kInvalidSocket"
  "usePassive (fst (closePassive os dc h)) = usePassive dc"
  "sent_on s (snd (closePassive os dc h)) = sent_on s h"
  "paths_ok P (snd (closePassive os dc h)) = paths_ok P h"
  by (simp_all add: closePassive_def split_beta trace_simps)

lemma closePassive_unowned:
  "0 \<le> x \<Longrightarrow> held x (snd (closePassive os dc h)) = unowned x dc h"
  by (auto simp: closePassive_def unowned_def split_beta trace_simps ms_valid_def kInvalidSocket_def)

lemma fromPosix_eq_iff: "0 \<le> x \<Longrightarrow> fromPosix fd = x \<longleftrightarrow> fd = x"
  by (auto simp: fromPosix_def kInvalidSocket_def)

lemma enterPassive_unowned:
  assumes "0 \<le> x"
  shows "unowned x (fst (snd (enterPassive os dc h))) (snd (snd (enterPassive os dc h))) = unowned x dc h"
proof -
  obtain dc0 h0 where c: "closePassive os dc h = (dc0, h0)" by fastforce
  with closePassive_unowned[OF assms, of os dc h] have h0: "held x h0 = unowned x dc h" by simp
  from c closePassive_simps(1)[of os dc h] have p: "passiveSocket dc0 = - 1"
    by (simp add: kInvalidSocket_def)
  show ?thesis
  proof (cases "os_socket os h0 < 0")
    case True
    with assms h0 p show ?thesis
      by (auto simp: enterPassive_def c unowned_def platform_defs Let_def fromPosix_def)
  next
    case False
    with assms h0 p show ?thesis
      by (auto simp: enterPassive_def c unowned_def platform_defs Let_def fromPosix_def kInvalidSocket_def)
  qed
qed

lemma enterPassive_quiet [trace_simps]:
  "sent_on s (snd (snd (enterPassive os dc h))) = sent_on s h"
  "paths_ok P (snd (snd (enterPassive os dc h))) = paths_ok P h"
  by (simp_all add: enterPassive_def platform_defs Let_def split_beta trace_simps)

lemma enterActive_unowned:
  "0 \<le> x \<Longrightarrow> unowned x (fst (enterActive os ip port dc h)) (snd (enterActive os ip port dc h)) = unowned x dc h"
  using closePassive_unowned[of x os dc h] closePassive_simps(1)[of os dc h]
  by (auto simp: enterActive_def unowned_def split_beta kInvalidSocket_def)

lemma enterActive_quiet [trace_simps]:
  "sent_on s (snd (enterActive os ip port dc h)) = sent_on s h"
  "paths_ok P (snd (enterActive os ip port dc h)) = paths_ok P h"
  by (simp_all add: enterActive_def split_beta trace_simps)

lemma connectSocket_held:
  "0 \<le> x \<Longrightarrow> held x (snd (connectSocket os ip port h)) =
     held x h + (if fst (connectSocket os ip port h) = x then 1 else 0)"
  by (auto simp: connectSocket_def Let_def fromPosix_eq_iff kInvalidSocket_def)

lemma open_data_unowned:
  assumes "0 \<le> x"
  shows "unowned x (fst (snd (open_data os dc h))) (snd (snd (open_data os dc h))) =
     unowned x dc h + (if fst (open_data os dc h) = Some x then 1 else 0)"
proof (cases "usePassive dc")
  case True
  show ?thesis
  proof (cases "os_accept os h (toPosix (passiveSocket dc))")
    case Accept_blocks
    with True show ?thesis
      by (simp add: open_data_def acceptConnection_def unowned_def)
  next
    case (Accepted fd)
    obtain dc' h2 where c: "closePassive os dc (h @ [Ev_accept (toPosix (passiveSocket dc)) fd]) = (dc', h2)"
      by fastforce
    with closePassive_unowned[OF assms, of os dc "h @ [Ev_accept (toPosix (passiveSocket dc)) fd]"]
    have "held x h2 = unowned x dc h + (if fd = x then 1 else 0)" by (simp add: unowned_def)
    moreover from c closePassive_simps(1)[of os dc "h @ [Ev_accept (toPosix (passiveSocket dc)) fd]"]
    have "passiveSocket dc' = - 1" by (simp add: kInvalidSocket_def)
    ultimately show ?thesis
      using True Accepted c assms
      by (auto simp: open_data_def acceptConnection_def unowned_def fromPosix_eq_iff)
  qed
next
  case False
  with connectSocket_held[OF assms, of os "activeIp dc" "activePort dc" h] show ?thesis
    by (auto simp: open_data_def unowned_def split_beta kInvalidSocket_def)
qed

lemma connectSocket_quiet [trace_simps]:
  "sent_on s (snd (connectSocket os ip port h)) = sent_on s h"
  "paths_ok P (snd (connectSocket os ip port h)) = paths_ok P h"
  by (simp_all add: connectSocket_def Let_def)

lemma open_data_quiet [trace_simps]:
  "sent_on s (snd (snd (open_data os dc h))) = sent_on s h"
  "paths_ok P (snd (snd (open_data os dc h))) = paths_ok P h"
  by (auto simp: open_data_def acceptConnection_def split_beta trace_simps split: accept_result.split)

section \<open>Parsing six numbers\<close>

lemma parse_numbers_chunk [text_simps]:
  "CHR '','' \<notin> set t \<Longrightarrow> parse_numbers (t @ cs) nums idx temp = parse_numbers cs nums idx (temp @ t)"
  by (induction t arbitrary: temp) auto

lemma parse_numbers_number:
  assumes "int32 v" and "idx < 6"
  shows "parse_numbers (int_str v @ '','' @ cs) nums idx [] = parse_numbers cs (nums[idx := v]) (Suc idx) []"
    and "parse_numbers (int_str v) nums idx [] = Inr (nums[idx := v])"
proof -
  have comma: "CHR '','' \<notin> set (int_str v)"
    by (rule int_str_no_char) (simp_all add: is_digit_def)
  have store: "store_num nums idx (int_str v) = Inr (nums[idx := v])"
    using assms by (simp add: store_num_def stoi_int_str)
  show "parse_numbers (int_str v @ '','' @ cs) nums idx [] = parse_numbers cs (nums[idx := v]) (Suc idx) []"
    using comma store by (simp add: parse_numbers_chunk)
  show "parse_numbers (int_str v) nums idx [] = Inr (nums[idx := v])"
    using parse_numbers_chunk[OF comma, of "[]" nums idx "[]"] store by simp
qed

text \<open>The argument \<open>h1,h2,h3,h4,p1,p2\<close>.\<close>

definition six_numbers :: "int \<Rightarrow> int \<Rightarrow> int \<Rightarrow> int \<Rightarrow> int \<Rightarrow> int \<Rightarrow> string" where
  "six_numbers a b c d e f =
     int_str a @ '','' @ int_str b @ '','' @ int_str c @ '','' @ int_str d @ '','' @
     int_str e @ '','' @ int_str f"

lemma parse_six_numbers:
  assumes "int32 a" "int32 b" "int32 c" "int32 d" "int32 e" "int32 f"
  shows "parse_numbers (six_numbers a b c d e f) (replicate 6 0) 0 [] = Inr [a, b, c, d, e, f]"
  using assms
  by (simp add: six_numbers_def parse_numbers_number numeral_eq_Suc del: append_Cons append_Nil)

lemma parse_seven_numbers:
  assumes "int32 a" "int32 b" "int32 c" "int32 d" "int32 e" "int32 f" "int32 g"
  shows "parse_numbers (six_numbers a b c d e f @ '','' @ int_str g) (replicate 6 0) 0 [] =
     Inl Undefined_behaviour"
proof -
  have comma: "CHR '','' \<notin> set (int_str g)"
    by (rule int_str_no_char) (simp_all add: is_digit_def)
  have "parse_numbers (int_str g) nums 6 [] = Inl Undefined_behaviour" for nums
    using parse_numbers_chunk[OF comma, of "[]" nums 6 "[]"] assms(7)
    by (simp add: store_num_def stoi_int_str)
  with assms show ?thesis
    by (simp add: six_numbers_def parse_numbers_number numeral_eq_Suc del: append_Cons append_Nil)
qed

text \<open>A well-formed \<open>PORT\<close> argument is parsed to the dotted address and the port
  \<open>256 * p1 + p2\<close>.\<close>

theorem parsePortCommand_six:
  assumes "\<forall>v\<in>{a, b, c, d, e, f}. 0 \<le> v \<and> v \<le> 255"
  shows "parsePortCommand (six_numbers a b c d e f) =
     Inr (int_str a @ ''.'' @ int_str b @ ''.'' @ int_str c @ ''.'' @ int_str d, e * 256 + f)"
  using assms
  by (simp add: parsePortCommand_def parse_six_numbers host_port_def int32_def)

theorem parsePortCommand_six_witness:
  "parsePortCommand (six_numbers 192 168 0 10 195 80) =
     Inr (int_str 192 @ ''.'' @ int_str 168 @ ''.'' @ int_str 0 @ ''.'' @ int_str 10, 195 * 256 + 80)"
  by (rule parsePortCommand_six) simp

text \<open>A \<open>PORT\<close> argument with a seventh number writes past the six-element array: undefined
  behaviour, whatever the numbers are.\<close>

theorem parsePortCommand_seven:
  assumes "\<forall>v\<in>{a, b, c, d, e, f, g}. int32 v"
  shows "parsePortCommand (six_numbers a b c d e f @ '','' @ int_str g) = Inl Undefined_behaviour"
  using assms parse_seven_numbers[of a b c d e f g] by (simp add: parsePortCommand_def)

theorem parsePortCommand_seven_witness:
  "parsePortCommand (six_numbers 127 0 0 1 4 1 @ '','' @ int_str 9) = Inl Undefined_behaviour"
  by (rule parsePortCommand_seven) (simp add: int32_def)

end
