(* ===== verification/Transfer_Engine.thy ===== *)
theory Transfer_Engine
  imports Platform
begin

text \<open>
  \<open>src/server/transfer.h\<close>: the bandwidth limiter, the download path (zero copy with a
  buffered fallback) and the upload path with its size limit. Byte counts are \<open>uint64_t\<close>.
  The limiter computes with exact rationals where the code has \<open>double\<close>: rounding is not
  modelled, nor are conversions of a \<open>double\<close> beyond the range of its target type.
\<close>

section \<open>The rate limiter\<close>

record RateLimiter =
  rl_limit :: "64 word"
  rl_windowStart :: int
  rl_windowBytes :: "64 word"

definition new_limiter :: "os \<Rightarrow> hist \<Rightarrow> RateLimiter" where
  "new_limiter os h = \<lparr>rl_limit = 0, rl_windowStart = os_clock os h, rl_windowBytes = 0\<rparr>"

definition setLimit :: "64 word \<Rightarrow> RateLimiter \<Rightarrow> RateLimiter" where
  "setLimit bps rl = rl\<lparr>rl_limit := bps\<rparr>"

definition rat_of_u64 :: "64 word \<Rightarrow> rat" where
  "rat_of_u64 w = of_nat (unat w)"

lemma rat_of_u64_simps [simp]: "0 \<le> rat_of_u64 w" "rat_of_u64 0 = 0"
  unfolding rat_of_u64_def by (simp_all only: of_nat_0_le_iff unat_0 of_nat_0)

text \<open>\<open>CLOCKS_PER_SEC\<close> is 1000000 on POSIX systems.\<close>

definition clock_seconds :: "int \<Rightarrow> rat" where
  "clock_seconds ticks = of_int ticks / 1000000"

definition throttle :: "os \<Rightarrow> 64 word \<Rightarrow> RateLimiter \<Rightarrow> hist \<Rightarrow> RateLimiter \<times> hist" where
  "throttle os n rl h =
     (if rl_limit rl = 0 then (rl, h)
      else let wb = rl_windowBytes rl + n;
               e0 = clock_seconds (os_clock os h - rl_windowStart rl);
               elapsed = (if e0 < 1 / 1000 then 1 / 1000 else e0);
               limit = rat_of_u64 (rl_limit rl);
               bdg = limit * elapsed;
               sleepMs = (if bdg < rat_of_u64 wb
                          then nat \<lfloor>(rat_of_u64 wb - bdg) / limit * 1000\<rfloor> else 0);
               h1 = (if 0 < sleepMs then h @ [Ev_sleep sleepMs] else h);
               rl1 = (if 0 < sleepMs
                      then rl\<lparr>rl_windowStart := os_clock os h1, rl_windowBytes := 0\<rparr>
                      else rl\<lparr>rl_windowBytes := wb\<rparr>)
           in (if 1 \<le> elapsed
               then rl1\<lparr>rl_windowStart := os_clock os h1, rl_windowBytes := 0\<rparr> else rl1, h1))"

section \<open>Transfer results\<close>

record TransferResult =
  tr_bytes :: "64 word"
  tr_seconds :: rat
  tr_ok :: bool
  tr_rateLimitHit :: bool

definition new_result :: TransferResult where
  "new_result = \<lparr>tr_bytes = 0, tr_seconds = 0, tr_ok = False, tr_rateLimitHit = False\<rparr>"

definition speedKBps :: "TransferResult \<Rightarrow> rat" where
  "speedKBps r =
     (if tr_seconds r < 1 / 10000 then 0 else rat_of_u64 (tr_bytes r) / 1024 / tr_seconds r)"

definition CHUNK_SIZE :: nat where "CHUNK_SIZE = 65536"

section \<open>Download\<close>

text \<open>
  The loop of \<open>sendFileBuffered\<close> over what is left of the file.
\<close>

function send_chunks :: "os \<Rightarrow> handle \<Rightarrow> string \<Rightarrow> string \<Rightarrow> 64 word \<Rightarrow> RateLimiter \<Rightarrow> hist \<Rightarrow>
    64 word \<times> RateLimiter \<times> hist" where
  "send_chunks os sock path left n rl h =
     (let buf = take CHUNK_SIZE left; h0 = h @ [Ev_fread path (length buf)]
      in if buf = [] then (n, rl, h0)
         else let (r, h1) = sendData os sock buf h0
              in if r < 0 then (n, rl, h1)
                 else let (rl', h2) = throttle os (word_of_nat (length buf)) rl h1
                      in send_chunks os sock path (drop CHUNK_SIZE left)
                           (n + word_of_nat (length buf)) rl' h2)"
  by pat_completeness auto
termination
  by (relation "measure (\<lambda>(os, sock, path, left, n, rl, h). length left)") (auto simp: CHUNK_SIZE_def)

declare send_chunks.simps [simp del]

text \<open>A \<open>long\<close> offset below zero makes \<open>fseek\<close> fail, and its result is not looked at.\<close>

definition seek_from :: "64 word \<Rightarrow> string \<Rightarrow> string" where
  "seek_from offset content =
     (if 0 \<le> sint offset then drop (nat (sint offset)) content else content)"

definition sendFileBuffered :: "os \<Rightarrow> handle \<Rightarrow> string \<Rightarrow> 64 word \<Rightarrow> 64 word \<Rightarrow> RateLimiter \<Rightarrow> hist \<Rightarrow>
    64 word \<times> RateLimiter \<times> hist" where
  "sendFileBuffered os sock path offset n rl h =
     (let h1 = h @ [Ev_fopen path ''rb'']
      in if \<not> os_fopen os h path ''rb'' then (n, rl, h1)
         else let content = os_content os h1 path;
                  h2 = (if 0 < offset then h1 @ [Ev_fseek path (sint offset)] else h1);
                  left = (if 0 < offset then seek_from offset content else content);
                  (n', rl', h3) = send_chunks os sock path left n rl h2
              in (n', rl', h3 @ [Ev_fclose path]))"

text \<open>\<open>TransferEngine::sendFile\<close>.\<close>

definition sendFile :: "os \<Rightarrow> handle \<Rightarrow> string \<Rightarrow> 64 word \<Rightarrow> RateLimiter \<Rightarrow> hist \<Rightarrow>
    TransferResult \<times> RateLimiter \<times> hist" where
  "sendFile os sock path offset rl h =
     (let start = os_clock os h;
          ((zeroCopyOk, sent), h1) = transmitFile os sock path offset h;
          (n, rl', h2) = (if zeroCopyOk then (sent, rl, h1)
                          else sendFileBuffered os sock path offset sent rl h1)
      in (new_result\<lparr>tr_bytes := n, tr_seconds := clock_seconds (os_clock os h2 - start),
                    tr_ok := (0 < n \<or> offset = 0)\<rparr>, rl', h2))"

section \<open>Upload\<close>

datatype recv_end = RE_eof | RE_overflow | RE_hangs

lemma recvData_decreases:
  "recvData len inp = (R_data buf, inp') \<Longrightarrow> 0 < len \<Longrightarrow>
     sum_list (map length (fst inp')) < sum_list (map length (fst inp))"
  by (induction len inp rule: recvData.induct) (auto split: if_splits)

lemma CHUNK_SIZE_pos [simp]: "0 < CHUNK_SIZE" "CHUNK_SIZE \<noteq> 0"
  by (simp_all add: CHUNK_SIZE_def)

text \<open>The receive loop of \<open>recvFile\<close>; \<open>fsize\<close> is \<open>result.bytes\<close>.\<close>

function recv_chunks :: "os \<Rightarrow> string \<Rightarrow> 64 word \<Rightarrow> net_in \<Rightarrow> 64 word \<Rightarrow> RateLimiter \<Rightarrow> hist \<Rightarrow>
    recv_end \<times> 64 word \<times> RateLimiter \<times> hist" where
  "recv_chunks os path maxFileSize inp fsize rl h =
     (case recvData CHUNK_SIZE inp of
        (R_end, _) \<Rightarrow> (RE_eof, fsize, rl, h)
      | (R_blocks, _) \<Rightarrow> (RE_hangs, fsize, rl, h)
      | (R_data buf, inp') \<Rightarrow>
          (let n = word_of_nat (length buf)
           in if 0 < maxFileSize \<and> maxFileSize < fsize + n then (RE_overflow, fsize, rl, h)
              else let (rl', h1) = throttle os n rl (h @ [Ev_fwrite path buf])
                   in recv_chunks os path maxFileSize inp' (fsize + n) rl' h1))"
  by pat_completeness auto
termination
  by (relation "measure (\<lambda>(os, path, m, inp, n, rl, h). sum_list (map length (fst inp)))")
     (auto dest!: recvData_decreases[OF sym])

declare recv_chunks.simps [simp del]

text \<open>\<open>TransferEngine::recvFile\<close>; \<open>None\<close> when the loop waits for ever.\<close>

definition recvFile :: "os \<Rightarrow> handle \<Rightarrow> string \<Rightarrow> 64 word \<Rightarrow> RateLimiter \<Rightarrow> 64 word \<Rightarrow> hist \<Rightarrow>
    TransferResult option \<times> RateLimiter \<times> hist" where
  "recvFile os sock path appendOffset rl maxFileSize h =
     (let start = os_clock os h;
          mode = (if 0 < appendOffset then ''ab'' else ''wb'');
          h1 = h @ [Ev_fopen path mode]
      in if \<not> os_fopen os h path mode then (Some new_result, rl, h1)
         else let h2 = (if 0 < appendOffset \<and> hd mode = CHR ''w''
                        then h1 @ [Ev_fseek path (sint appendOffset)] else h1);
                  (e, n, rl', h3) =
                     recv_chunks os path maxFileSize (os_incoming os h2 (toPosix sock)) 0 rl h2
              in case e of
                   RE_hangs \<Rightarrow> (None, rl', h3)
                 | RE_overflow \<Rightarrow>
                     (let (d, h4) = deleteFile os path (h3 @ [Ev_fclose path])
                      in (Some (new_result\<lparr>tr_bytes := n, tr_rateLimitHit := True\<rparr>), rl', h4))
                 | RE_eof \<Rightarrow>
                     (let h4 = h3 @ [Ev_fclose path]
                      in (Some (new_result\<lparr>tr_bytes := n,
                            tr_seconds := clock_seconds (os_clock os h4 - start), tr_ok := True\<rparr>),
                          rl', h4)))"

section \<open>What the loops read and write\<close>

definition ev_written :: "string \<Rightarrow> event \<Rightarrow> string" where
  "ev_written path e = (case e of Ev_fwrite p d \<Rightarrow> if p = path then d else [] | _ \<Rightarrow> [])"

definition written_to :: "string \<Rightarrow> hist \<Rightarrow> string" where
  "written_to path h = concat (map (ev_written path) h)"

lemma written_to_simps [simp]:
  "written_to path [] = []"
  "written_to path (h @ h') = written_to path h @ written_to path h'"
  "written_to path (e # h) = ev_written path e @ written_to path h"
  by (simp_all add: written_to_def)

text \<open>The bytes a connection delivers before it ends.\<close>

definition delivered :: "net_in \<Rightarrow> string" where
  "delivered inp = concat (takeWhile (\<lambda>s. s \<noteq> []) (fst inp))"

text \<open>A connection on which \<open>recv\<close> never reports an end.\<close>

definition never_ends :: "net_in \<Rightarrow> bool" where
  "never_ends inp \<longleftrightarrow> snd inp = Peer_silent \<and> [] \<notin> set (fst inp)"

lemma recvData_delivered:
  "0 < len \<Longrightarrow>
   (case recvData len inp of
      (R_data buf, inp') \<Rightarrow> buf \<noteq> [] \<and> length buf \<le> len \<and> delivered inp = buf @ delivered inp' \<and>
        never_ends inp' = never_ends inp
    | (R_end, _) \<Rightarrow> delivered inp = [] \<and> \<not> never_ends inp
    | (R_blocks, _) \<Rightarrow> delivered inp = [] \<and> never_ends inp)"
  by (induction len inp rule: recvData.induct)
     (auto simp: delivered_def never_ends_def not_le)

lemma throttle_trace:
  "snd (throttle os n rl h) = h \<or> (\<exists>ms. snd (throttle os n rl h) = h @ [Ev_sleep ms])"
  by (simp add: throttle_def Let_def)

lemma throttle_quiet [trace_simps]:
  "held x (snd (throttle os n rl h)) = held x h"
  "sent_on s (snd (throttle os n rl h)) = sent_on s h"
  "paths_ok P (snd (throttle os n rl h)) = paths_ok P h"
  "written_to path (snd (throttle os n rl h)) = written_to path h"
  using throttle_trace[of os n rl h] by (auto simp: ev_written_def)

lemma throttle_unlimited: "rl_limit rl = 0 \<Longrightarrow> throttle os n rl h = (rl, h)"
  by (simp add: throttle_def)

text \<open>Induction over the receive loop: how it stops, and one more chunk.\<close>

lemma recv_chunks_induct [case_names stop blocks full more]:
  assumes stop: "\<And>inp f rl h. fst (recvData CHUNK_SIZE inp) = R_end \<Longrightarrow> Q inp f rl h (RE_eof, f, rl, h)"
    and blocks: "\<And>inp f rl h. fst (recvData CHUNK_SIZE inp) = R_blocks \<Longrightarrow> Q inp f rl h (RE_hangs, f, rl, h)"
    and full: "\<And>inp f rl h buf inp'. recvData CHUNK_SIZE inp = (R_data buf, inp') \<Longrightarrow>
        0 < m \<Longrightarrow> m < f + word_of_nat (length buf) \<Longrightarrow> Q inp f rl h (RE_overflow, f, rl, h)"
    and more: "\<And>inp f rl h buf inp' rl' h1 res. recvData CHUNK_SIZE inp = (R_data buf, inp') \<Longrightarrow>
        \<not> (0 < m \<and> m < f + word_of_nat (length buf)) \<Longrightarrow>
        throttle os (word_of_nat (length buf)) rl (h @ [Ev_fwrite path buf]) = (rl', h1) \<Longrightarrow>
        Q inp' (f + word_of_nat (length buf)) rl' h1 res \<Longrightarrow> Q inp f rl h res"
  shows "Q inp f rl h (recv_chunks os path m inp f rl h)"
proof (induction "sum_list (map length (fst inp))" arbitrary: inp f rl h rule: less_induct)
  case less
  obtain r inp' where r: "recvData CHUNK_SIZE inp = (r, inp')" by (cases "recvData CHUNK_SIZE inp")
  show ?case
  proof (cases r)
    case R_end
    with r stop[of inp f rl h] show ?thesis by (subst recv_chunks.simps) simp
  next
    case R_blocks
    with r blocks[of inp f rl h] show ?thesis by (subst recv_chunks.simps) simp
  next
    case (R_data buf)
    obtain rl' h1 where t: "throttle os (word_of_nat (length buf)) rl (h @ [Ev_fwrite path buf]) = (rl', h1)"
      by (cases "throttle os (word_of_nat (length buf)) rl (h @ [Ev_fwrite path buf])")
    show ?thesis
    proof (cases "0 < m \<and> m < f + word_of_nat (length buf)")
      case True
      with r R_data full[of inp buf inp' f rl h] show ?thesis by (subst recv_chunks.simps) simp
    next
      case False
      have "Q inp' (f + word_of_nat (length buf)) rl' h1
          (recv_chunks os path m inp' (f + word_of_nat (length buf)) rl' h1)"
        using r R_data recvData_decreases[of CHUNK_SIZE inp buf inp'] by (intro less) auto
      with False r R_data t more[of inp buf inp' f rl h rl' h1] show ?thesis
        by (subst recv_chunks.simps) (auto simp: Let_def)
    qed
  qed
qed

definition upload_event :: "string \<Rightarrow> event \<Rightarrow> bool" where
  "upload_event path e =
     (case e of Ev_fwrite p d \<Rightarrow> p = path | Ev_sleep ms \<Rightarrow> True | _ \<Rightarrow> False)"

lemma upload_event_quiet:
  "upload_event path e \<Longrightarrow> sock_delta x e = 0 \<and> ev_sent s e = [] \<and> set (ev_paths e) \<subseteq> {path}"
  by (cases e) (simp_all add: upload_event_def)

text \<open>The loop only writes the file and sleeps.\<close>

lemma recv_chunks_trace:
  "\<exists>es. snd (snd (snd (recv_chunks os path m inp f rl h))) = h @ es \<and>
     (\<forall>e\<in>set es. upload_event path e)"
proof (induction rule: recv_chunks_induct)
  case (more inp f rl h buf inp' rl' h1 res)
  from more(3) throttle_trace[of os "word_of_nat (length buf)" rl "h @ [Ev_fwrite path buf]"]
  have "\<exists>es. h1 = h @ es \<and> (\<forall>e\<in>set es. upload_event path e)"
    by (auto simp: upload_event_def)
  then obtain es1 where es1: "h1 = h @ es1"
      "\<forall>e\<in>set es1. upload_event path e" by blast
  from more(4) obtain es2 where es2: "snd (snd (snd res)) = h1 @ es2"
      "\<forall>e\<in>set es2. upload_event path e" by blast
  from es1 es2 show ?case by (intro exI[of _ "es1 @ es2"]) auto
qed simp_all

lemma transfer_events_quiet:
  assumes "\<forall>e\<in>set es. upload_event path e"
  shows "held x es = 0" and "sent_on s es = []" and "P path \<Longrightarrow> paths_ok P es"
proof -
  show "held x es = 0" using assms upload_event_quiet[of path] by (induction es) simp_all
  show "sent_on s es = []" using assms upload_event_quiet[of path] by (induction es) simp_all
  show "P path \<Longrightarrow> paths_ok P es"
    using assms upload_event_quiet[of path] by (fastforce simp: paths_ok_def)
qed

lemma recv_chunks_quiet [trace_simps]:
  "held x (snd (snd (snd (recv_chunks os path m inp f rl h)))) = held x h"
  "sent_on s (snd (snd (snd (recv_chunks os path m inp f rl h)))) = sent_on s h"
  using recv_chunks_trace[of os path m inp f rl h] transfer_events_quiet(1,2) by auto

lemma recv_chunks_paths_ok:
  "P path \<Longrightarrow> paths_ok P h \<Longrightarrow> paths_ok P (snd (snd (snd (recv_chunks os path m inp f rl h))))"
  using recv_chunks_trace[of os path m inp f rl h] transfer_events_quiet(3)[of _ path P] by auto

section \<open>Uploads\<close>

lemma unat_add_small:
  fixes a b :: "64 word"
  shows "unat a + unat b < 2 ^ 64 \<Longrightarrow> unat (a + b) = unat a + unat b"
  by (simp add: unat_word_ariths)

text \<open>
  What the loop has written when it stops: a prefix of what the peer delivers, all of it
  unless the size limit stopped the loop, never more than the limit.
\<close>

lemma recv_chunks_written:
  "case recv_chunks os path m inp f rl h of (e, n, rl', h') \<Rightarrow>
     \<exists>d. written_to path h' = written_to path h @ d \<and> n = f + word_of_nat (length d) \<and>
         prefix d (delivered inp) \<and> (e \<noteq> RE_overflow \<longrightarrow> d = delivered inp) \<and>
         (e = RE_hangs \<longrightarrow> never_ends inp) \<and> (e = RE_eof \<longrightarrow> \<not> never_ends inp)"
proof (induction rule: recv_chunks_induct)
  case (stop inp f rl h)
  then show ?case
    using recvData_delivered[of CHUNK_SIZE inp] by (auto split: prod.splits)
next
  case (blocks inp f rl h)
  then show ?case
    using recvData_delivered[of CHUNK_SIZE inp] by (auto split: prod.splits)
next
  case (full inp f rl h buf inp')
  show ?case by (auto intro: exI[of _ "[]"])
next
  case (more inp f rl h buf inp' rl' h1 res)
  obtain e n rl2 h2 where res: "res = (e, n, rl2, h2)" by (cases res)
  have h1: "written_to path h1 = written_to path h @ buf"
    using more(3) throttle_quiet(4)[of path os "word_of_nat (length buf)" rl "h @ [Ev_fwrite path buf]"]
    by (simp add: ev_written_def)
  have inp: "delivered inp = buf @ delivered inp'" "never_ends inp' = never_ends inp"
    using more(1) recvData_delivered[of CHUNK_SIZE inp] by simp_all
  from more(4) res obtain d where "written_to path h2 = written_to path h1 @ d"
      "n = f + word_of_nat (length buf) + word_of_nat (length d)" "prefix d (delivered inp')"
      "e \<noteq> RE_overflow \<longrightarrow> d = delivered inp'"
      "e = RE_hangs \<longrightarrow> never_ends inp'" "e = RE_eof \<longrightarrow> \<not> never_ends inp'"
    by auto
  with h1 inp res show ?case by (auto intro: exI[of _ "buf @ d"])
qed

lemma recv_chunks_bound:
  assumes "0 < m" and "unat m + CHUNK_SIZE < 2 ^ 64"
  shows "f \<le> m \<longrightarrow> (case recv_chunks os path m inp f rl h of (e, n, rl', h') \<Rightarrow>
     n \<le> m \<and> (\<exists>d. written_to path h' = written_to path h @ d \<and> unat f + length d = unat n))"
proof (induction rule: recv_chunks_induct)
  case (more inp f rl h buf inp' rl' h1 res)
  show ?case
  proof
    assume f: "f \<le> m"
    have len: "length buf \<le> CHUNK_SIZE"
      using more(1) recvData_delivered[of CHUNK_SIZE inp] by simp
    then have nb: "unat (word_of_nat (length buf) :: 64 word) = length buf"
      by (simp add: CHUNK_SIZE_def unat_of_nat take_bit_nat_eq_self)
    have sum: "unat (f + word_of_nat (length buf)) = unat f + length buf"
      using f len assms(2) nb by (subst unat_add_small) (auto simp: word_le_nat_alt)
    have le: "f + word_of_nat (length buf) \<le> m" using more(2) assms(1) by (simp add: not_less)
    have h1: "written_to path h1 = written_to path h @ buf"
      using more(3) throttle_quiet(4)[of path os "word_of_nat (length buf)" rl "h @ [Ev_fwrite path buf]"]
      by (simp add: ev_written_def)
    obtain e n rl2 h2 where res: "res = (e, n, rl2, h2)" by (cases res)
    with more(4) le obtain d where "n \<le> m" "written_to path h2 = written_to path h1 @ d"
        "unat (f + word_of_nat (length buf)) + length d = unat n" by auto
    with sum h1 res show "case res of (e, n, rl', h') \<Rightarrow>
        n \<le> m \<and> (\<exists>d. written_to path h' = written_to path h @ d \<and> unat f + length d = unat n)"
      by (auto intro: exI[of _ "buf @ d"])
  qed
qed auto

lemma recvFile_quiet [trace_simps]:
  "held x (snd (snd (recvFile os sock path off rl m h))) = held x h"
  "sent_on s (snd (snd (recvFile os sock path off rl m h))) = sent_on s h"
  by (auto simp: recvFile_def Let_def split_beta deleteFile_def trace_simps split: recv_end.split)

lemma recvFile_paths_ok:
  "P path \<Longrightarrow> paths_ok P h \<Longrightarrow> paths_ok P (snd (snd (recvFile os sock path off rl m h)))"
  by (auto simp: recvFile_def Let_def split_beta deleteFile_def
      intro!: recv_chunks_paths_ok split: recv_end.split)

section \<open>Downloads\<close>

definition download_event :: "handle \<Rightarrow> string \<Rightarrow> event \<Rightarrow> bool" where
  "download_event sock path e =
     (case e of Ev_fread p n \<Rightarrow> p = path | Ev_send s d \<Rightarrow> s = sock | Ev_sleep ms \<Rightarrow> True
      | Ev_fopen p m \<Rightarrow> p = path | Ev_fclose p \<Rightarrow> p = path | Ev_fseek p n \<Rightarrow> p = path
      | Ev_open p \<Rightarrow> p = path | Ev_sendfile s p a b \<Rightarrow> s = sock \<and> p = path | _ \<Rightarrow> False)"

lemma download_event_quiet:
  "download_event sock path e \<Longrightarrow> sock_delta x e = 0 \<and> (s \<noteq> sock \<longrightarrow> ev_sent s e = []) \<and>
     set (ev_paths e) \<subseteq> {path}"
  by (cases e) (auto simp: download_event_def)

lemma send_chunks_trace:
  "\<exists>es. snd (snd (send_chunks os sock path left n rl h)) = h @ es \<and> (\<forall>e\<in>set es. download_event sock path e)"
proof (induction "length left" arbitrary: left n rl h rule: less_induct)
  case less
  let ?buf = "take CHUNK_SIZE left" and ?h0 = "h @ [Ev_fread path (length (take CHUNK_SIZE left))]"
  let ?h1 = "?h0 @ [Ev_send sock ?buf]"
  obtain rl' h2 where t: "throttle os (word_of_nat (length ?buf)) rl ?h1 = (rl', h2)"
    by (cases "throttle os (word_of_nat (length ?buf)) rl ?h1")
  show ?case
  proof (cases "?buf = [] \<or> os_send os ?h0 sock ?buf < 0")
    case True
    then show ?thesis
      by (subst send_chunks.simps) (auto simp: sendData_def toPosix_def download_event_def Let_def)
  next
    case False
    then have dec: "length (drop CHUNK_SIZE left) < length left"
      by (auto simp: CHUNK_SIZE_def)
    from less[OF dec] obtain es where
      es: "snd (snd (send_chunks os sock path (drop CHUNK_SIZE left) (n + word_of_nat (length ?buf)) rl' h2)) = h2 @ es"
        "\<forall>e\<in>set es. download_event sock path e" by blast
    from t throttle_trace[of os "word_of_nat (length ?buf)" rl ?h1]
    obtain es0 where "h2 = ?h1 @ es0" "\<forall>e\<in>set es0. download_event sock path e"
      by (auto simp: download_event_def)
    with False t es show ?thesis
      by (subst send_chunks.simps)
         (auto simp: sendData_def toPosix_def Let_def download_event_def
           intro!: exI[of _ "Ev_fread path (length ?buf) # Ev_send sock ?buf # es0 @ es"])
  qed
qed

lemma transmitFile_trace:
  "\<exists>es. snd (transmitFile os sock path off h) = h @ es \<and> (\<forall>e\<in>set es. download_event sock path e)"
  by (auto simp: transmitFile_def Let_def toPosix_def download_event_def)

lemma sendFileBuffered_trace:
  "\<exists>es. snd (snd (sendFileBuffered os sock path off n rl h)) = h @ es \<and> (\<forall>e\<in>set es. download_event sock path e)"
proof -
  have "\<exists>es. snd (snd (send_chunks os sock path l n rl (h @ es0))) @ [Ev_fclose path] = h @ es \<and>
      (\<forall>e\<in>set es. download_event sock path e)" if "\<forall>e\<in>set es0. download_event sock path e" for es0 l
    using send_chunks_trace[of os sock path l n rl "h @ es0"] that
    by (auto simp: download_event_def)
  from this[of "[Ev_fopen path ''rb'']"] this[of "[Ev_fopen path ''rb'', Ev_fseek path (sint off)]"]
  show ?thesis
    by (auto simp: sendFileBuffered_def Let_def split_beta download_event_def)
qed

lemma sendFile_trace:
  "\<exists>es. snd (snd (sendFile os sock path off rl h)) = h @ es \<and> (\<forall>e\<in>set es. download_event sock path e)"
proof -
  obtain ok sent h1 where t: "transmitFile os sock path off h = ((ok, sent), h1)"
    by (cases "transmitFile os sock path off h") auto
  with transmitFile_trace[of os sock path off h]
  obtain es where es: "h1 = h @ es" "\<forall>e\<in>set es. download_event sock path e" by auto
  show ?thesis
    using t es sendFileBuffered_trace[of os sock path off sent rl h1]
    by (auto simp: sendFile_def Let_def split_beta)
qed

lemma sendFile_quiet [trace_simps]:
  "held x (snd (snd (sendFile os sock path off rl h))) = held x h"
  "s \<noteq> sock \<Longrightarrow> sent_on s (snd (snd (sendFile os sock path off rl h))) = sent_on s h"
proof -
  from sendFile_trace[of os sock path off rl h] obtain es where
    es: "snd (snd (sendFile os sock path off rl h)) = h @ es" "\<forall>e\<in>set es. download_event sock path e" by blast
  have "held x es = 0" using es(2) download_event_quiet[of sock path _ x s] by (induction es) simp_all
  with es(1) show "held x (snd (snd (sendFile os sock path off rl h))) = held x h" by simp
  assume "s \<noteq> sock"
  then have "sent_on s es = []"
    using es(2) download_event_quiet[of sock path _ x s] by (induction es) simp_all
  with es(1) show "sent_on s (snd (snd (sendFile os sock path off rl h))) = sent_on s h" by simp
qed

lemma sendFile_paths_ok:
  assumes "P path" and "paths_ok P h"
  shows "paths_ok P (snd (snd (sendFile os sock path off rl h)))"
proof -
  from sendFile_trace[of os sock path off rl h] obtain es where
    es: "snd (snd (sendFile os sock path off rl h)) = h @ es" "\<forall>e\<in>set es. download_event sock path e" by blast
  then have "paths_ok P es"
    using assms(1) download_event_quiet[of sock path] by (fastforce simp: paths_ok_def)
  with assms(2) es(1) show ?thesis by simp
qed

section \<open>Uploads, as a whole\<close>

definition upload_mode :: "64 word \<Rightarrow> string" where
  "upload_mode off = (if 0 < off then ''ab'' else ''wb'')"

text \<open>What the peer sends on the data connection of an upload.\<close>

definition upload_stream :: "os \<Rightarrow> handle \<Rightarrow> string \<Rightarrow> 64 word \<Rightarrow> hist \<Rightarrow> net_in" where
  "upload_stream os sock path off h = os_incoming os (h @ [Ev_fopen path (upload_mode off)]) sock"

lemma recvFile_eq:
  "recvFile os sock path off rl m h =
     (let h1 = h @ [Ev_fopen path (upload_mode off)]
      in if \<not> os_fopen os h path (upload_mode off) then (Some new_result, rl, h1)
         else case recv_chunks os path m (upload_stream os sock path off h) 0 rl h1 of
                (e, n, rl', h3) \<Rightarrow>
                  (case e of
                     RE_hangs \<Rightarrow> (None, rl', h3)
                   | RE_overflow \<Rightarrow> (Some (new_result\<lparr>tr_bytes := n, tr_rateLimitHit := True\<rparr>), rl',
                                   h3 @ [Ev_fclose path, Ev_remove path])
                   | RE_eof \<Rightarrow> (Some (new_result\<lparr>tr_bytes := n, tr_ok := True,
                        tr_seconds := clock_seconds (os_clock os (h3 @ [Ev_fclose path]) - os_clock os h)\<rparr>),
                        rl', h3 @ [Ev_fclose path])))"
  by (auto simp: recvFile_def upload_mode_def upload_stream_def Let_def deleteFile_def toPosix_def
      split: prod.split recv_end.split)

lemma recv_chunks_no_overflow: "fst (recv_chunks os path 0 inp f rl h) \<noteq> RE_overflow"
proof -
  have "0 = (0::64 word) \<longrightarrow> fst (recv_chunks os path 0 inp f rl h) \<noteq> RE_overflow"
    by (induction rule: recv_chunks_induct) simp_all
  then show ?thesis by simp
qed

lemma recv_chunks_removes_nothing:
  "snd (snd (snd (recv_chunks os path m inp f rl h))) = h @ es \<Longrightarrow> Ev_remove p \<notin> set es"
  using recv_chunks_trace[of os path m inp f rl h] by (auto simp: upload_event_def)

lemma recv_chunks_overflow_means:
  assumes "0 < m" and "unat m + CHUNK_SIZE < 2 ^ 64"
  shows "f \<le> m \<longrightarrow> fst (recv_chunks os path m inp f rl h) = RE_overflow \<longrightarrow>
     unat m < unat f + length (delivered inp)"
proof (induction rule: recv_chunks_induct)
  case (full inp f rl h buf inp')
  show ?case
  proof (intro impI)
    assume f: "f \<le> m"
    have buf: "length buf \<le> CHUNK_SIZE" "length buf \<le> length (delivered inp)"
      using full(1) recvData_delivered[of CHUNK_SIZE inp] by simp_all
    then have "unat (word_of_nat (length buf) :: 64 word) = length buf"
      by (simp add: CHUNK_SIZE_def unat_of_nat take_bit_nat_eq_self)
    moreover from this have "unat (f + word_of_nat (length buf)) = unat f + length buf"
      using f buf(1) assms(2) by (subst unat_add_small) (auto simp: word_le_nat_alt)
    ultimately show "unat m < unat f + length (delivered inp)"
      using full(3) buf(2) by (simp add: word_less_nat_alt)
  qed
next
  case (more inp f rl h buf inp' rl' h1 res)
  show ?case
  proof (intro impI)
    assume f: "f \<le> m" and o: "fst res = RE_overflow"
    have buf: "length buf \<le> CHUNK_SIZE" "delivered inp = buf @ delivered inp'"
      using more(1) recvData_delivered[of CHUNK_SIZE inp] by simp_all
    then have "unat (word_of_nat (length buf) :: 64 word) = length buf"
      by (simp add: CHUNK_SIZE_def unat_of_nat take_bit_nat_eq_self)
    then have "unat (f + word_of_nat (length buf)) = unat f + length buf"
      using f buf(1) assms(2) by (subst unat_add_small) (auto simp: word_le_nat_alt)
    with more(2,4) o assms(1) buf(2) show "unat m < unat f + length (delivered inp)"
      by (auto simp: not_less)
  qed
qed auto

lemma recvFile_written:
  assumes "os_fopen os h path (upload_mode off)"
    and "\<not> never_ends (upload_stream os sock path off h)"
  shows "\<exists>res rl' es. recvFile os sock path off rl 0 h = (Some res, rl', h @ es) \<and> tr_ok res \<and>
     written_to path es = delivered (upload_stream os sock path off h) \<and>
     tr_bytes res = word_of_nat (length (delivered (upload_stream os sock path off h))) \<and>
     Ev_remove path \<notin> set es"
proof -
  let ?in = "upload_stream os sock path off h" and ?h1 = "h @ [Ev_fopen path (upload_mode off)]"
  obtain e n rl' h3 where r: "recv_chunks os path 0 ?in 0 rl ?h1 = (e, n, rl', h3)"
    by (cases "recv_chunks os path 0 ?in 0 rl ?h1")
  with recv_chunks_trace[of os path 0 ?in 0 rl ?h1] obtain es where es: "h3 = ?h1 @ es" by auto
  from recv_chunks_written[where f=0 and m=0 and os=os and path=path and inp="?in" and rl=rl and h="?h1"] r obtain d where
    d: "written_to path h3 = written_to path ?h1 @ d" "n = word_of_nat (length d)"
       "e \<noteq> RE_overflow \<longrightarrow> d = delivered ?in" "e = RE_hangs \<longrightarrow> never_ends ?in" by auto
  have "e \<noteq> RE_overflow" using recv_chunks_no_overflow[of os path ?in 0 rl ?h1] r by simp
  with d(4) assms(2) have e: "e = RE_eof" by (cases e) auto
  have "Ev_remove path \<notin> set es"
    using recv_chunks_removes_nothing[of os path 0 ?in 0 rl ?h1 es] r es by simp
  with r e es d assms(1) show ?thesis
    by (simp add: recvFile_eq ev_written_def new_result_def)
qed

text \<open>An upload without a size limit whose peer finishes writes exactly the bytes the peer sent,
  in order, reports success and their number, and deletes nothing.\<close>

theorem upload_writes_what_is_sent:
  assumes "os_fopen os h path (upload_mode off)"
    and "\<not> never_ends (upload_stream os sock path off h)"
  shows "\<exists>res rl' es. recvFile os sock path off rl 0 h = (Some res, rl', h @ es) \<and> tr_ok res \<and>
     written_to path es = delivered (upload_stream os sock path off h) \<and>
     tr_bytes res = word_of_nat (length (delivered (upload_stream os sock path off h))) \<and>
     Ev_remove path \<notin> set es"
  using assms by (rule recvFile_written)

theorem upload_writes_what_is_sent_witness:
  "\<exists>res rl' es. recvFile demo_os 8 ''F'' 0 (new_limiter demo_os []) 0 [] = (Some res, rl', [] @ es) \<and>
     tr_ok res \<and> written_to ''F'' es = delivered (upload_stream demo_os 8 ''F'' 0 []) \<and>
     tr_bytes res = word_of_nat (length (delivered (upload_stream demo_os 8 ''F'' 0 []))) \<and>
     Ev_remove ''F'' \<notin> set es"
  by (rule upload_writes_what_is_sent) (simp_all add: demo_os_def never_ends_def upload_stream_def)

lemma recvFile_returns:
  assumes "\<not> never_ends (upload_stream os sock path off h)"
  shows "\<exists>res rl' h'. recvFile os sock path off rl m h = (Some res, rl', h')"
  using recv_chunks_written[where f=0 and m=m and os=os and path=path and rl=rl and
      inp="upload_stream os sock path off h" and h="h @ [Ev_fopen path (upload_mode off)]"] assms
  by (auto simp: recvFile_eq Let_def split: prod.split recv_end.split)

lemma recvFile_limit:
  assumes "os_fopen os h path (upload_mode off)"
    and "0 < m" and "unat m + 65536 < 2 ^ 64"
    and "recvFile os sock path off rl m h = (Some res, rl', h')"
  shows "(tr_rateLimitHit res \<longleftrightarrow> unat m < length (delivered (upload_stream os sock path off h))) \<and>
     (\<exists>es. h' = h @ es \<and> length (written_to path es) \<le> unat m \<and>
       (if tr_rateLimitHit res then \<not> tr_ok res \<and> last es = Ev_remove path
        else tr_ok res \<and> Ev_remove path \<notin> set es \<and>
             written_to path es = delivered (upload_stream os sock path off h)))"
proof -
  let ?in = "upload_stream os sock path off h" and ?h1 = "h @ [Ev_fopen path (upload_mode off)]"
  have m: "unat m + CHUNK_SIZE < 2 ^ 64" using assms(3) by (simp add: CHUNK_SIZE_def)
  obtain e n rl2 h3 where r: "recv_chunks os path m ?in 0 rl ?h1 = (e, n, rl2, h3)"
    by (cases "recv_chunks os path m ?in 0 rl ?h1")
  with recv_chunks_trace[of os path m ?in 0 rl ?h1] obtain es where es: "h3 = ?h1 @ es" by auto
  have d: "e \<noteq> RE_overflow \<longrightarrow> written_to path es = delivered ?in"
    using recv_chunks_written[where f=0 and m=m and os=os and path=path and inp="?in" and rl=rl and h="?h1"] r es by auto
  have b: "length (written_to path es) \<le> unat m"
    using recv_chunks_bound[OF assms(2) m, where f=0 and os=os and path=path and inp="?in" and rl=rl and h="?h1"] r es
    by (auto simp: word_le_nat_alt)
  have o: "e = RE_overflow \<longrightarrow> unat m < length (delivered ?in)"
    using recv_chunks_overflow_means[OF assms(2) m, where f=0 and os=os and path=path and inp="?in" and rl=rl and h="?h1"] r by simp
  have "Ev_remove path \<notin> set es"
    using recv_chunks_removes_nothing[of os path m ?in 0 rl ?h1 es] r es by simp
  with r es d b o assms(1,4) show ?thesis
    by (cases e) (auto simp: recvFile_eq ev_written_def new_result_def)
qed

text \<open>With a size limit, no more than the limit is ever written; the upload is refused exactly when
  the peer sends more than the limit, and then the file is removed and the upload fails.\<close>

theorem upload_size_limit:
  assumes "os_fopen os h path (upload_mode off)"
    and "0 < m" and "unat m + 65536 < 2 ^ 64"
    and "recvFile os sock path off rl m h = (Some res, rl', h')"
  shows "(tr_rateLimitHit res \<longleftrightarrow> unat m < length (delivered (upload_stream os sock path off h))) \<and>
     (\<exists>es. h' = h @ es \<and> length (written_to path es) \<le> unat m \<and>
       (if tr_rateLimitHit res then \<not> tr_ok res \<and> last es = Ev_remove path
        else tr_ok res \<and> Ev_remove path \<notin> set es \<and>
             written_to path es = delivered (upload_stream os sock path off h)))"
  using assms by (rule recvFile_limit)

lemma demo_upload:
  "recvFile demo_os 8 ''F'' 0 (new_limiter demo_os []) 4 [] =
     (Some (new_result\<lparr>tr_bytes := 3, tr_rateLimitHit := True\<rparr>), new_limiter demo_os [],
      [Ev_fopen ''F'' ''wb'', Ev_fwrite ''F'' ''abc'', Ev_fclose ''F'', Ev_remove ''F''])"
proof -
  have t: "throttle demo_os n (new_limiter demo_os []) h = (new_limiter demo_os [], h)" for n h
    by (simp add: throttle_unlimited new_limiter_def)
  show ?thesis
    by (simp add: recvFile_eq upload_mode_def upload_stream_def demo_os_def[THEN arg_cong[of _ _ os_incoming]]
        demo_os_def[THEN arg_cong[of _ _ os_fopen]] recv_chunks.simps CHUNK_SIZE_def t)
qed

theorem upload_size_limit_witness:
  "length (delivered (upload_stream demo_os 8 ''F'' 0 [])) = 5 \<and>
   (\<exists>es. snd (snd (recvFile demo_os 8 ''F'' 0 (new_limiter demo_os []) 4 [])) = [] @ es \<and>
      length (written_to ''F'' es) \<le> 4 \<and> last es = Ev_remove ''F'')"
proof -
  have s: "delivered (upload_stream demo_os 8 ''F'' 0 []) = ''abcde''"
    by (simp add: delivered_def upload_stream_def demo_os_def)
  have "os_fopen demo_os [] ''F'' (upload_mode 0)" by (simp add: demo_os_def)
  from upload_size_limit[OF this _ _ demo_upload] s show ?thesis by (auto simp: demo_upload)
qed

text \<open>The offset of a resumed upload is not used: any two positive offsets give the same upload, the
  file is opened for appending and never sought in.\<close>

theorem resumed_upload_ignores_offset:
  assumes "0 < off" and "0 < off'"
  shows "recvFile os sock path off rl m h = recvFile os sock path off' rl m h \<and>
     (\<exists>es. snd (snd (recvFile os sock path off rl m h)) = h @ Ev_fopen path ''ab'' # es \<and>
       (\<forall>p n. Ev_fseek p n \<notin> set es))"
proof -
  define inp where "inp = upload_stream os sock path off h"
  let ?h1 = "h @ [Ev_fopen path ''ab'']"
  from recv_chunks_trace[of os path m inp 0 rl ?h1] obtain es where
    es: "snd (snd (snd (recv_chunks os path m inp 0 rl ?h1))) = ?h1 @ es"
        "\<forall>e\<in>set es. upload_event path e" by blast
  then have no: "Ev_fseek p n \<notin> set es" for p n by (auto simp: upload_event_def)
  obtain e n rl2 h3 where r: "recv_chunks os path m inp 0 rl ?h1 = (e, n, rl2, h3)"
    by (cases "recv_chunks os path m inp 0 rl ?h1")
  have "recvFile os sock path off rl m h = recvFile os sock path off' rl m h"
    using assms by (simp add: recvFile_eq upload_mode_def upload_stream_def Let_def)
  moreover have "\<exists>es. snd (snd (recvFile os sock path off rl m h)) = h @ Ev_fopen path ''ab'' # es \<and>
       (\<forall>p n. Ev_fseek p n \<notin> set es)"
    using assms(1) es(1) no r inp_def by (cases e) (simp_all add: recvFile_eq upload_mode_def Let_def)
  ultimately show ?thesis ..
qed

theorem resumed_upload_ignores_offset_witness:
  "recvFile demo_os 8 ''F'' 100 (new_limiter demo_os []) 0 [] =
   recvFile demo_os 8 ''F'' 200 (new_limiter demo_os []) 0 []"
  using resumed_upload_ignores_offset[of 100 200 demo_os 8 "''F''" "new_limiter demo_os []" 0 "[]"] by simp

section \<open>Downloads, as a whole\<close>

lemma send_chunks_complete:
  assumes "\<forall>h d. 0 \<le> os_send os h sock d"
  shows "concat (sent_on sock (snd (snd (send_chunks os sock path left n rl h)))) =
       concat (sent_on sock h) @ left \<and>
     fst (send_chunks os sock path left n rl h) = n + word_of_nat (length left)"
proof (induction "length left" arbitrary: left n rl h rule: less_induct)
  case less
  let ?buf = "take CHUNK_SIZE left"
  let ?h1 = "h @ [Ev_fread path (length ?buf), Ev_send sock ?buf]"
  show ?case
  proof (cases "left = []")
    case True
    then show ?thesis by (subst (1 2) send_chunks.simps) simp
  next
    case False
    then have dec: "length (drop CHUNK_SIZE left) < length left" by (simp add: CHUNK_SIZE_def)
    obtain rl' h2 where t: "throttle os (word_of_nat (length ?buf)) rl ?h1 = (rl', h2)"
      by (cases "throttle os (word_of_nat (length ?buf)) rl ?h1")
    then have h2: "sent_on sock h2 = sent_on sock h @ [?buf]"
      using throttle_quiet(2)[of sock os "word_of_nat (length ?buf)" rl ?h1] by simp
    have step: "send_chunks os sock path left n rl h =
        send_chunks os sock path (drop CHUNK_SIZE left) (n + word_of_nat (length ?buf)) rl' h2"
      using False assms t
      by (subst send_chunks.simps) (simp add: sendData_def toPosix_def Let_def not_less[symmetric])
    have len: "length left = length ?buf + length (drop CHUNK_SIZE left)"
      using append_take_drop_id[of CHUNK_SIZE left] length_append by metis
    have "word_of_nat (length left) =
        (word_of_nat (length ?buf) + word_of_nat (length (drop CHUNK_SIZE left)) :: 64 word)"
      by (subst len) (simp only: of_nat_add)
    with step less[OF dec, of "n + word_of_nat (length ?buf)" rl' h2] h2 show ?thesis
      by (simp add: add.assoc del: length_take length_drop)
  qed
qed

lemma sendFile_complete:
  assumes "\<not> os_open os h path" and "os_fopen os (h @ [Ev_open path]) path ''rb''"
    and "\<forall>h d. 0 \<le> os_send os h sock d" and "0 \<le> sint off"
  shows "\<exists>res rl' es. sendFile os sock path off rl h = (res, rl', h @ es) \<and> last es = Ev_fclose path \<and>
     concat (sent_on sock es) =
       drop (nat (sint off)) (os_content os (h @ [Ev_open path, Ev_fopen path ''rb'']) path) \<and>
     tr_bytes res = word_of_nat (length (concat (sent_on sock es)))"
proof -
  let ?c = "os_content os (h @ [Ev_open path, Ev_fopen path ''rb'']) path"
  define h2 where "h2 = h @ [Ev_open path, Ev_fopen path ''rb''] @
    (if 0 < off then [Ev_fseek path (sint off)] else [])"
  have left: "(if 0 < off then seek_from off ?c else ?c) = drop (nat (sint off)) ?c"
    using assms(4) by (auto simp: seek_from_def word_neq_0_conv[symmetric])
  obtain n rl' h3 where r: "send_chunks os sock path (drop (nat (sint off)) ?c) 0 rl h2 = (n, rl', h3)"
    by (cases "send_chunks os sock path (drop (nat (sint off)) ?c) 0 rl h2")
  with send_chunks_complete[OF assms(3), of path "drop (nat (sint off)) ?c" 0 rl h2]
  have c: "concat (sent_on sock h3) = concat (sent_on sock h2) @ drop (nat (sint off)) ?c"
    "n = word_of_nat (length (drop (nat (sint off)) ?c))" by simp_all
  from r send_chunks_trace[of os sock path "drop (nat (sint off)) ?c" 0 rl h2]
  obtain es where es: "h3 = h2 @ es" by auto
  have "sendFile os sock path off rl h = (new_result\<lparr>tr_bytes := n,
      tr_seconds := clock_seconds (os_clock os (h3 @ [Ev_fclose path]) - os_clock os h),
      tr_ok := (0 < n \<or> off = 0)\<rparr>, rl', h3 @ [Ev_fclose path])"
    using assms(1,2) left r
    by (auto simp: sendFile_def transmitFile_def sendFileBuffered_def Let_def h2_def)
  with es c show ?thesis
    by (auto simp: h2_def new_result_def)
qed

text \<open>When zero copy is not available and every \<open>send\<close> succeeds, a download sends exactly the bytes
  of the file from the requested offset on, reports their number and closes the file.\<close>

theorem buffered_download_complete:
  assumes "\<not> os_open os h path" and "os_fopen os (h @ [Ev_open path]) path ''rb''"
    and "\<forall>h d. 0 \<le> os_send os h sock d" and "0 \<le> sint off"
  shows "\<exists>res rl' es. sendFile os sock path off rl h = (res, rl', h @ es) \<and> last es = Ev_fclose path \<and>
     concat (sent_on sock es) =
       drop (nat (sint off)) (os_content os (h @ [Ev_open path, Ev_fopen path ''rb'']) path) \<and>
     tr_bytes res = word_of_nat (length (concat (sent_on sock es)))"
  using assms by (rule sendFile_complete)

theorem buffered_download_complete_witness:
  "\<exists>res rl' es. sendFile demo_os 8 ''F'' 6 (new_limiter demo_os []) [] = (res, rl', [] @ es) \<and>
     last es = Ev_fclose ''F'' \<and>
     concat (sent_on 8 es) =
       drop (nat (sint (6::64 word))) (os_content demo_os ([] @ [Ev_open ''F'', Ev_fopen ''F'' ''rb'']) ''F'') \<and>
     tr_bytes res = word_of_nat (length (concat (sent_on 8 es)))"
  by (rule buffered_download_complete) (simp_all add: demo_os_def)

text \<open>A zero-copy download is one \<open>sendfile\<close> call: it never sleeps, leaves the bandwidth limiter as it
  was whatever the limit, and any positive number of bytes sent counts as complete.\<close>

theorem zero_copy_ignores_the_limit:
  assumes "os_open os h path"
    and "0 \<le> os_sendfile os (h @ [Ev_open path]) sock path off (os_fstat_size os (h @ [Ev_open path]) path - off)"
  shows "\<exists>res n. sendFile os sock path off rl h =
       (res, rl, h @ [Ev_open path, Ev_sendfile sock path off (os_fstat_size os (h @ [Ev_open path]) path - off)]) \<and>
     tr_bytes res = word_of_int n \<and> (tr_ok res \<longleftrightarrow> tr_bytes res \<noteq> 0 \<or> off = 0) \<and>
     n = os_sendfile os (h @ [Ev_open path]) sock path off (os_fstat_size os (h @ [Ev_open path]) path - off)"
  using assms by (auto simp: sendFile_def transmitFile_def Let_def toPosix_def new_result_def word_neq_0_conv)

theorem zero_copy_ignores_the_limit_witness:
  "\<exists>res n. sendFile (demo_os\<lparr>os_open := \<lambda>h p. True\<rparr>) 8 ''F'' 6 (setLimit 1 (new_limiter demo_os [])) [] =
       (res, setLimit 1 (new_limiter demo_os []),
        [] @ [Ev_open ''F'', Ev_sendfile 8 ''F'' 6 (os_fstat_size (demo_os\<lparr>os_open := \<lambda>h p. True\<rparr>) ([] @ [Ev_open ''F'']) ''F'' - 6)]) \<and>
     tr_bytes res = word_of_int n \<and> (tr_ok res \<longleftrightarrow> tr_bytes res \<noteq> 0 \<or> (6::64 word) = 0) \<and>
     n = os_sendfile (demo_os\<lparr>os_open := \<lambda>h p. True\<rparr>) ([] @ [Ev_open ''F'']) 8 ''F'' 6
           (os_fstat_size (demo_os\<lparr>os_open := \<lambda>h p. True\<rparr>) ([] @ [Ev_open ''F'']) ''F'' - 6)"
  by (rule zero_copy_ignores_the_limit) (simp_all add: demo_os_def)

text \<open>A download from the start of a file is reported as successful even when the file could be
  opened neither way and nothing at all was sent.\<close>

theorem failed_download_reports_ok:
  assumes "\<not> os_open os h path" and "\<not> os_fopen os (h @ [Ev_open path]) path ''rb''"
  shows "tr_ok (fst (sendFile os sock path 0 rl h)) \<and> tr_bytes (fst (sendFile os sock path 0 rl h)) = 0 \<and>
     sent_on sock (snd (snd (sendFile os sock path 0 rl h))) = sent_on sock h"
  using assms by (simp add: sendFile_def transmitFile_def sendFileBuffered_def Let_def new_result_def)

theorem failed_download_reports_ok_witness:
  "tr_ok (fst (sendFile (demo_os\<lparr>os_fopen := \<lambda>h p m. False\<rparr>) 8 ''F'' 0 (new_limiter demo_os []) []))"
  using failed_download_reports_ok[of "demo_os\<lparr>os_fopen := \<lambda>h p m. False\<rparr>" "[]" "''F''" 8 "new_limiter demo_os []"]
  by (simp add: demo_os_def)

end
