(* ===== verification/Session.thy ===== *)
theory Session
  imports Auth Data_Channel Transfer_Engine
begin

text \<open>
  \<open>src/server/session.h\<close> and \<open>src/server/session.cpp\<close>: the state of an FTP session, its
  helpers, one definition per command handler, the dispatch of a command and the loop of
  \<open>run\<close>. Log lines are left out. A handler maps the world it finds (the session's members, the
  server context they refer to, the trace of system calls and what the control connection
  still delivers) to an outcome.
\<close>

section \<open>State\<close>

datatype SessionState = CONNECTED | WAIT_USER | WAIT_PASS | READY | TRANSFERRING | CLOSED

record ServerContext =
  auth :: AuthManager
  rootDir :: string
  totalConnections :: "64 word"
  activeConnections :: "64 word"
  totalBytesTransferred :: "64 word"
  timeoutSecs :: int
  maxFileSizeBytes :: "64 word"
  allowAnonymous :: bool
  bandwidthLimitBps :: "64 word"
  sendBufKB :: int
  recvBufKB :: int

record Session =
  socket :: handle
  clientIp :: string
  sstate :: SessionState
  username :: string
  userRootDir :: string
  currentDir :: string
  renameFrom :: string
  dataChannel :: DataChannel
  rateLimiter :: RateLimiter
  bytesTransferred :: "64 word"
  restartOffset :: "64 word"

text \<open>What the member functions of a session work on.\<close>

record world = Session +
  ctx :: ServerContext
  trace :: hist
  ctl_in :: net_in

definition MAX_CMD_LENGTH :: nat where "MAX_CMD_LENGTH = 512"

text \<open>\<open>AtomicU64::inc\<close> and \<open>dec\<close>: the second stops at zero.\<close>

definition atomic_inc :: "64 word \<Rightarrow> 64 word" where
  "atomic_inc v = v + 1"

definition atomic_dec :: "64 word \<Rightarrow> 64 word" where
  "atomic_dec v = (if v \<noteq> 0 then v - 1 else v)"

text \<open>A system call made by the session.\<close>

definition sys :: "(hist \<Rightarrow> 'a \<times> hist) \<Rightarrow> world \<Rightarrow> 'a \<times> world" where
  "sys f w = (let (a, h) = f (trace w) in (a, w\<lparr>trace := h\<rparr>))"

definition new_session :: "os \<Rightarrow> handle \<Rightarrow> string \<Rightarrow> ServerContext \<Rightarrow> hist \<Rightarrow> world" where
  "new_session os clientSocket ip c h =
     (let rl = new_limiter os h;
          h1 = setRecvTimeout os clientSocket (timeoutSecs c) h;
          h2 = setKeepAlive os clientSocket h1;
          h3 = setSocketBuffers os clientSocket (sendBufKB c) (recvBufKB c) h2
      in \<lparr>socket = clientSocket, clientIp = ip, sstate = CONNECTED, username = [],
          userRootDir = [], currentDir = [], renameFrom = [], dataChannel = new_channel,
          rateLimiter = setLimit (bandwidthLimitBps c) rl,
          bytesTransferred = 0, restartOffset = 0,
          ctx = c\<lparr>activeConnections := atomic_inc (activeConnections c),
                  totalConnections := atomic_inc (totalConnections c)\<rparr>,
          trace = h3, ctl_in = os_incoming os h3 (toPosix clientSocket)\<rparr>)"

text \<open>The members that own sockets are destroyed in reverse order of declaration.\<close>

definition destroy_session :: "os \<Rightarrow> world \<Rightarrow> world" where
  "destroy_session os w =
     (let (dc, h1) = closePassive os (dataChannel w) (trace w);
          (s, h2) = ms_close os (socket w) h1
      in w\<lparr>dataChannel := dc, socket := s, trace := h2\<rparr>)"

section \<open>Input and output\<close>

definition sendReply :: "os \<Rightarrow> string \<Rightarrow> world \<Rightarrow> world" where
  "sendReply os reply w =
     snd (sys (sendData os (socket w) (reply @ [carriage_return, newline])) w)"

text \<open>
  The buffer has 514 bytes, one of them kept free. With a receive timeout a silent peer is
  reported like a closed connection (\<open>n <= 0\<close>); without one the call does not return.
\<close>

definition recvCommand :: "world \<Rightarrow> string option \<times> world" where
  "recvCommand w =
     (case recvData (MAX_CMD_LENGTH + 1) (ctl_in w) of
        (R_data s, i) \<Rightarrow> (Some s, w\<lparr>ctl_in := i\<rparr>)
      | (R_end, i) \<Rightarrow> (Some [], w\<lparr>ctl_in := i\<rparr>)
      | (R_blocks, i) \<Rightarrow>
          (if 0 < timeoutSecs (ctx w) then Some [] else None, w\<lparr>ctl_in := i\<rparr>))"

definition cleanCommand :: "string \<Rightarrow> string" where
  "cleanCommand cmd =
     dropWhile (\<lambda>c. c = CHR '' '' \<or> c = CHR 0x09)
       (strip_trailing (\<lambda>c. c = carriage_return \<or> c = newline) cmd)"

definition split_command :: "string \<Rightarrow> string \<times> string" where
  "split_command cmd =
     (let (verb, argument) = (case find_char CHR '' '' cmd of
             Some sp \<Rightarrow> (take sp cmd, drop (Suc sp) cmd)
           | None \<Rightarrow> (cmd, []))
      in (map toupper verb, argument))"

section \<open>Names and paths\<close>

definition isSafeFilename :: "string \<Rightarrow> bool" where
  "isSafeFilename name =
     (name \<noteq> [] \<and> CHR 0x00 \<notin> set name \<and> (\<forall>c\<in>set name. \<not> of_char c < (32::nat)))"

definition normalise :: "string \<Rightarrow> string" where
  "normalise = map (\<lambda>c. if c = CHR ''/'' then CHR 0x5C else c)"

definition resolvePath :: "string \<Rightarrow> world \<Rightarrow> string" where
  "resolvePath arg w =
     (if arg = [] then currentDir w
      else let a = normalise arg
           in if hd a = CHR 0x5C then userRootDir w @ a
              else currentDir w @ [CHR 0x5C] @ a)"

definition isWithinRoot :: "string \<Rightarrow> world \<Rightarrow> bool" where
  "isWithinRoot path w =
     (if length path < length (userRootDir w) then False
      else map tolower (take (length (userRootDir w)) path) = map tolower (userRootDir w))"

section \<open>Logging in\<close>

definition enter_home :: "os \<Rightarrow> world \<Rightarrow> world" where
  "enter_home os w =
     (let root = rootDir (ctx w) @ [CHR 0x5C] @ username w;
          w1 = w\<lparr>userRootDir := root\<rparr>;
          (created, w2) = sys (createDir os root) w1
      in w2\<lparr>currentDir := root, sstate := READY\<rparr>)"

definition handleUser :: "os \<Rightarrow> string \<Rightarrow> world \<Rightarrow> world" where
  "handleUser os arg w =
     (if arg = [] then sendReply os ''501 Username required'' w
      else if (arg = ''anonymous'' \<or> arg = ''ftp'') \<and> allowAnonymous (ctx w) then
        sendReply os ''230 Anonymous login OK.'' (enter_home os (w\<lparr>username := ''anonymous''\<rparr>))
      else sendReply os (''331 Password required for '' @ arg)
             (w\<lparr>username := arg, sstate := WAIT_PASS\<rparr>))"

definition handlePass :: "os \<Rightarrow> string \<Rightarrow> world \<Rightarrow> world" where
  "handlePass os arg w =
     (if sstate w \<noteq> WAIT_PASS then sendReply os ''503 Send USER first'' w
      else let now = os_time os (trace w);
               (limited, am) = isRateLimited now (clientIp w) (auth (ctx w));
               w1 = w\<lparr>ctx := (ctx w)\<lparr>auth := am\<rparr>\<rparr>
           in if limited then
                (sendReply os ''421 Too many failed attempts. Try again later.'' w1)\<lparr>sstate := CLOSED\<rparr>
              else if authenticate (username w1) arg (auth (ctx w1)) then
                (let w2 = enter_home os w1;
                     w3 = w2\<lparr>ctx := (ctx w2)\<lparr>auth := clearAttempts (clientIp w2) (auth (ctx w2))\<rparr>\<rparr>
                 in sendReply os (''230 Welcome, '' @ username w3 @ ''.'') w3)
              else
                (let am' = recordFailedAttempt (os_time os (trace w1)) (clientIp w1) (auth (ctx w1));
                     w2 = w1\<lparr>ctx := (ctx w1)\<lparr>auth := am'\<rparr>, sstate := WAIT_USER\<rparr>
                 in sendReply os ''530 Login incorrect'' w2))"

definition handleQuit :: "os \<Rightarrow> world \<Rightarrow> world" where
  "handleQuit os w = (sendReply os ''221 Goodbye.'' w)\<lparr>sstate := CLOSED\<rparr>"

section \<open>Information and directories\<close>

definition handleSyst :: "os \<Rightarrow> world \<Rightarrow> world" where
  "handleSyst os w = sendReply os ''215 UNIX Type: L8'' w"

definition handleType :: "os \<Rightarrow> string \<Rightarrow> world \<Rightarrow> world" where
  "handleType os a w = sendReply os (''200 Type set to '' @ a) w"

definition virtual_path :: "world \<Rightarrow> string" where
  "virtual_path w =
     map (\<lambda>c. if c = CHR 0x5C then CHR ''/'' else c)
       (if length (userRootDir w) < length (currentDir w)
        then drop (length (userRootDir w)) (currentDir w) else ''/'')"

definition handlePwd :: "os \<Rightarrow> world \<Rightarrow> world" where
  "handlePwd os w =
     sendReply os (''257 '' @ [CHR 0x22] @ virtual_path w @ [CHR 0x22] @ '' is current directory'') w"

definition handleCwd :: "os \<Rightarrow> string \<Rightarrow> world \<Rightarrow> world" where
  "handleCwd os arg w =
     (if arg = [] then sendReply os ''501 Path required'' w
      else let p = resolvePath arg w
           in if \<not> isWithinRoot p w then sendReply os ''550 Permission denied'' w
              else let (d, w1) = sys (isDirectory os p) w
                   in if d then sendReply os ''250 Directory changed.'' (w1\<lparr>currentDir := p\<rparr>)
                      else sendReply os (''550 Directory not found: '' @ arg) w1)"

definition handleCdup :: "os \<Rightarrow> world \<Rightarrow> world" where
  "handleCdup os w =
     (let w1 = (case rfind_char CHR 0x5C (currentDir w) of
                  Some pos \<Rightarrow>
                    if currentDir w \<noteq> userRootDir w \<and> isWithinRoot (take pos (currentDir w)) w
                    then w\<lparr>currentDir := take pos (currentDir w)\<rparr> else w
                | None \<Rightarrow> w)
      in sendReply os ''250 Directory changed to parent.'' w1)"

definition handleSize :: "os \<Rightarrow> string \<Rightarrow> world \<Rightarrow> world" where
  "handleSize os arg w =
     (if \<not> isSafeFilename arg then sendReply os ''501 Invalid filename'' w
      else if \<not> isWithinRoot (resolvePath arg w) w then sendReply os ''550 Permission denied'' w
      else let (entries, w1) = sys (listDirectory os (currentDir w)) w
           in case find (\<lambda>e. fi_name e = arg \<and> \<not> fi_isDirectory e) entries of
                Some e \<Rightarrow> sendReply os (''213 '' @ nat_str (unat (fi_size e))) w1
              | None \<Rightarrow> sendReply os ''550 File not found'' w1)"

text \<open>\<open>!pathExists(p) || isDirectory(p)\<close>: the second call is made only when the first succeeds.\<close>

definition not_a_file :: "os \<Rightarrow> string \<Rightarrow> world \<Rightarrow> bool \<times> world" where
  "not_a_file os p w =
     (let (e, w1) = sys (pathExists os p) w
      in if \<not> e then (True, w1) else sys (isDirectory os p) w1)"

definition handleMdtm :: "os \<Rightarrow> string \<Rightarrow> world \<Rightarrow> world" where
  "handleMdtm os arg w =
     (if \<not> isSafeFilename arg then sendReply os ''501 Invalid filename'' w
      else let p = resolvePath arg w
           in if \<not> isWithinRoot p w then sendReply os ''550 Permission denied'' w
              else let (missing, w1) = not_a_file os p w
                   in if missing then sendReply os (''550 File not found: '' @ arg) w1
                      else let (modTime, w2) = sys (getFileModTime os p) w1
                           in if modTime = []
                              then sendReply os ''550 Could not get modification time'' w2
                              else sendReply os (''213 '' @ modTime) w2)"

definition handleFeat :: "os \<Rightarrow> world \<Rightarrow> world" where
  "handleFeat os w =
     sendReply os (''211-Extensions supported:'' @ [carriage_return, newline] @
                   '' SIZE'' @ [carriage_return, newline] @
                   '' MDTM'' @ [carriage_return, newline] @
                   '' REST STREAM'' @ [carriage_return, newline] @ ''211 End.'') w"

section \<open>The data connection\<close>

definition handlePasv :: "os \<Rightarrow> world \<Rightarrow> world" where
  "handlePasv os w =
     (let (port, dc, h) = enterPassive os (dataChannel w) (trace w);
          w1 = w\<lparr>dataChannel := dc, trace := h\<rparr>
      in if port < 0 then sendReply os ''425 Cannot enter passive mode'' w1
         else sendReply os (pasvResponse (dataChannel w1)) w1)"

definition handlePort :: "os \<Rightarrow> string \<Rightarrow> world \<Rightarrow> world outcome" where
  "handlePort os arg w =
     (case parsePortCommand arg of
        Inl e \<Rightarrow> Throws e w
      | Inr (ip, port) \<Rightarrow>
          if port < 1024 then Done (sendReply os ''504 PORT to privileged port rejected'' w)
          else let (dc, h) = enterActive os ip port (dataChannel w) (trace w)
               in Done (sendReply os ''200 PORT command successful'' (w\<lparr>dataChannel := dc, trace := h\<rparr>)))"

text \<open>
  The frame of the four transfer commands: the preliminary reply, the data connection, which
  a \<open>ManagedSocket\<close> closes when the handler returns, and the handler's own part.
\<close>

definition with_data :: "os \<Rightarrow> string \<Rightarrow> (handle \<Rightarrow> world \<Rightarrow> world outcome) \<Rightarrow> world \<Rightarrow> world outcome" where
  "with_data os msg body w =
     (let w0 = sendReply os msg w;
          (ds, dc, h) = open_data os (dataChannel w0) (trace w0);
          w1 = w0\<lparr>dataChannel := dc, trace := h\<rparr>
      in case ds of
           None \<Rightarrow> Hangs w1
         | Some s \<Rightarrow>
             if \<not> ms_valid s then Done (sendReply os ''425 Cannot open data connection'' w1)
             else bind_outcome (body s w1) (\<lambda>w2. Done (snd (sys (ms_close os s) w2))))"

section \<open>Listings and transfers\<close>

definition c_str :: "string \<Rightarrow> string" where
  "c_str s = takeWhile (\<lambda>c. c \<noteq> CHR 0x00) s"

text \<open>\<open>%10llu\<close> pads with spaces; \<open>snprintf\<close> keeps at most 511 characters of the line.\<close>

definition pad_left :: "nat \<Rightarrow> string \<Rightarrow> string" where
  "pad_left n s = replicate (n - length s) (CHR '' '') @ s"

definition list_line :: "FileInfo \<Rightarrow> string" where
  "list_line e =
     take 511
       ((if fi_isDirectory e then ''drwxr-xr-x 1 owner group '' @ pad_left 10 (nat_str 0)
         else ''-rw-r--r-- 1 owner group '' @ pad_left 10 (nat_str (unat (fi_size e)))) @
        '' Jan  1 00:00 '' @ c_str (fi_name e) @ [carriage_return, newline])"

definition name_line :: "FileInfo \<Rightarrow> string" where
  "name_line e = fi_name e @ [carriage_return, newline]"

definition send_listing :: "os \<Rightarrow> (FileInfo \<Rightarrow> string) \<Rightarrow> string \<Rightarrow> handle \<Rightarrow> world \<Rightarrow> world outcome" where
  "send_listing os line done ds w =
     (let (entries, w1) = sys (listDirectory os (currentDir w)) (w\<lparr>sstate := TRANSFERRING\<rparr>);
          (r, w2) = sys (sendData os ds (concat (map line entries))) w1
      in Done (sendReply os done (w2\<lparr>sstate := READY\<rparr>)))"

definition handleList :: "os \<Rightarrow> world \<Rightarrow> world outcome" where
  "handleList os w =
     with_data os ''150 Opening data connection for LIST''
       (send_listing os list_line ''226 Directory listing complete.'') w"

definition handleNlst :: "os \<Rightarrow> world \<Rightarrow> world outcome" where
  "handleNlst os w =
     with_data os ''150 Opening data connection for NLST''
       (send_listing os name_line ''226 Name listing complete.'') w"

text \<open>The totals after a transfer of \<open>n\<close> bytes, and the final reply with its speed.\<close>

definition count_bytes :: "64 word \<Rightarrow> world \<Rightarrow> world" where
  "count_bytes n w =
     w\<lparr>bytesTransferred := bytesTransferred w + n,
       ctx := (ctx w)\<lparr>totalBytesTransferred := totalBytesTransferred (ctx w) + n\<rparr>\<rparr>"

definition transfer_report :: "string \<Rightarrow> TransferResult \<Rightarrow> string" where
  "transfer_report head res =
     head @ '' ('' @ nat_str (unat (tr_bytes res)) @ '' bytes @ '' @
     int_str \<lfloor>speedKBps res\<rfloor> @ '' KB/s).''"

definition retr_body :: "os \<Rightarrow> string \<Rightarrow> handle \<Rightarrow> world \<Rightarrow> world outcome" where
  "retr_body os path ds w =
     (let w0 = w\<lparr>sstate := TRANSFERRING\<rparr>;
          (res, rl, h) = sendFile os ds path (restartOffset w0) (rateLimiter w0) (trace w0);
          w1 = w0\<lparr>rateLimiter := rl, trace := h, restartOffset := 0\<rparr>;
          w2 = (count_bytes (tr_bytes res) w1)\<lparr>sstate := READY\<rparr>
      in Done (if tr_ok res then sendReply os (transfer_report ''226 Transfer complete'' res) w2
               else sendReply os ''426 Transfer aborted.'' w2))"

definition handleRetr :: "os \<Rightarrow> string \<Rightarrow> world \<Rightarrow> world outcome" where
  "handleRetr os arg w =
     (if \<not> isSafeFilename arg then Done (sendReply os ''501 Invalid filename'' w)
      else let path = resolvePath arg w
           in if \<not> isWithinRoot path w then Done (sendReply os ''550 Permission denied'' w)
              else let (missing, w1) = not_a_file os path w
                   in if missing then Done (sendReply os (''550 File not found: '' @ arg) w1)
                      else with_data os ''150 Opening data connection for RETR'' (retr_body os path) w1)"

definition stor_body :: "os \<Rightarrow> string \<Rightarrow> handle \<Rightarrow> world \<Rightarrow> world outcome" where
  "stor_body os path ds w =
     (let w0 = w\<lparr>sstate := TRANSFERRING\<rparr>;
          (result, rl, h) = recvFile os ds path (restartOffset w0) (rateLimiter w0)
                              (maxFileSizeBytes (ctx w0)) (trace w0);
          w1 = w0\<lparr>rateLimiter := rl, trace := h\<rparr>
      in case result of
           None \<Rightarrow> Hangs w1
         | Some res \<Rightarrow>
             let w2 = w1\<lparr>restartOffset := 0\<rparr>
             in if tr_rateLimitHit res then
                  Done ((sendReply os ''552 Exceeded storage allocation. Upload aborted.'' w2)\<lparr>sstate := READY\<rparr>)
                else let w3 = (count_bytes (tr_bytes res) w2)\<lparr>sstate := READY\<rparr>
                     in Done (if tr_ok res then sendReply os (transfer_report ''226 Upload complete'' res) w3
                              else sendReply os ''426 Upload failed.'' w3))"

definition handleStor :: "os \<Rightarrow> string \<Rightarrow> world \<Rightarrow> world outcome" where
  "handleStor os arg w =
     (if \<not> isSafeFilename arg then Done (sendReply os ''501 Invalid filename'' w)
      else let path = resolvePath arg w
           in if \<not> isWithinRoot path w then Done (sendReply os ''550 Permission denied'' w)
              else with_data os ''150 Opening data connection for STOR'' (stor_body os path) w)"

section \<open>File management\<close>

definition handleDele :: "os \<Rightarrow> string \<Rightarrow> world \<Rightarrow> world" where
  "handleDele os arg w =
     (if \<not> isSafeFilename arg then sendReply os ''501 Invalid filename'' w
      else let p = resolvePath arg w
           in if \<not> isWithinRoot p w then sendReply os ''550 Permission denied'' w
              else let (r, w1) = sys (deleteFile os p) w
                   in if r then sendReply os ''250 File deleted.'' w1
                      else sendReply os ''550 Could not delete file.'' w1)"

definition handleMkd :: "os \<Rightarrow> string \<Rightarrow> world \<Rightarrow> world" where
  "handleMkd os arg w =
     (if \<not> isSafeFilename arg then sendReply os ''501 Invalid filename'' w
      else let p = resolvePath arg w
           in if \<not> isWithinRoot p w then sendReply os ''550 Permission denied'' w
              else let (r, w1) = sys (createDir os p) w
                   in if r then sendReply os (''257 '' @ [CHR 0x22] @ arg @ [CHR 0x22] @ '' directory created.'') w1
                      else sendReply os ''550 Could not create directory.'' w1)"

definition handleRmd :: "os \<Rightarrow> string \<Rightarrow> world \<Rightarrow> world" where
  "handleRmd os arg w =
     (if \<not> isSafeFilename arg then sendReply os ''501 Invalid filename'' w
      else let p = resolvePath arg w
           in if \<not> isWithinRoot p w then sendReply os ''550 Permission denied'' w
              else let (r, w1) = sys (removeDir os p) w
                   in if r then sendReply os ''250 Directory removed.'' w1
                      else sendReply os ''550 Could not remove directory.'' w1)"

definition handleRnfr :: "os \<Rightarrow> string \<Rightarrow> world \<Rightarrow> world" where
  "handleRnfr os arg w =
     (if \<not> isSafeFilename arg then sendReply os ''501 Invalid filename'' w
      else let p = resolvePath arg w
           in if \<not> isWithinRoot p w then sendReply os ''550 Permission denied'' w
              else let (r, w1) = sys (pathExists os p) w
                   in if r then sendReply os ''350 Ready for destination name.'' (w1\<lparr>renameFrom := p\<rparr>)
                      else sendReply os ''550 File not found.'' w1)"

definition handleRnto :: "os \<Rightarrow> string \<Rightarrow> world \<Rightarrow> world" where
  "handleRnto os arg w =
     (if renameFrom w = [] then sendReply os ''503 Send RNFR first'' w
      else if \<not> isSafeFilename arg then sendReply os ''501 Invalid filename'' w
      else let p = resolvePath arg w
           in if \<not> isWithinRoot p w then sendReply os ''550 Permission denied'' w
              else let (r, w1) = sys (renameFile os (renameFrom w) p) w;
                       w2 = (if r then sendReply os ''250 File renamed.'' w1
                             else sendReply os ''550 Could not rename.'' w1)
                   in w2\<lparr>renameFrom := []\<rparr>)"

text \<open>The loop of \<open>handleRest\<close>; the accumulator is a \<open>uint64_t\<close>.\<close>

fun rest_offset :: "string \<Rightarrow> 64 word \<Rightarrow> 64 word option" where
  "rest_offset [] offset = Some offset"
| "rest_offset (c # cs) offset =
     (if \<not> is_digit c then None
      else rest_offset cs (offset * 10 + word_of_nat (digit_val c)))"

definition handleRest :: "os \<Rightarrow> string \<Rightarrow> world \<Rightarrow> world" where
  "handleRest os arg w =
     (if arg = [] then sendReply os ''501 Offset required'' w
      else case rest_offset arg 0 of
             None \<Rightarrow> sendReply os ''501 Invalid offset'' w
           | Some offset \<Rightarrow>
               sendReply os (''350 Restarting at '' @ nat_str (unat offset) @ ''. Send RETR or STOR.'')
                 (w\<lparr>restartOffset := offset\<rparr>))"

section \<open>Dispatch and the loop of a session\<close>

definition dispatch :: "os \<Rightarrow> string \<Rightarrow> string \<Rightarrow> world \<Rightarrow> world outcome" where
  "dispatch os verb argument w =
     (if verb = ''SYST'' then Done (handleSyst os w)
      else if verb = ''TYPE'' then Done (handleType os argument w)
      else if verb = ''PWD'' then Done (handlePwd os w)
      else if verb = ''CWD'' then Done (handleCwd os argument w)
      else if verb = ''CDUP'' then Done (handleCdup os w)
      else if verb = ''PASV'' then Done (handlePasv os w)
      else if verb = ''PORT'' then handlePort os argument w
      else if verb = ''LIST'' then handleList os w
      else if verb = ''NLST'' then handleNlst os w
      else if verb = ''RETR'' then handleRetr os argument w
      else if verb = ''STOR'' then handleStor os argument w
      else if verb = ''REST'' then Done (handleRest os argument w)
      else if verb = ''DELE'' then Done (handleDele os argument w)
      else if verb = ''MKD'' then Done (handleMkd os argument w)
      else if verb = ''RMD'' then Done (handleRmd os argument w)
      else if verb = ''RNFR'' then Done (handleRnfr os argument w)
      else if verb = ''RNTO'' then Done (handleRnto os argument w)
      else if verb = ''SIZE'' then Done (handleSize os argument w)
      else if verb = ''MDTM'' then Done (handleMdtm os argument w)
      else Done (sendReply os (''502 Command not implemented: '' @ verb) w))"

text \<open>The verbs allowed before login, the login guard, and the rest.\<close>

definition handle_command :: "os \<Rightarrow> string \<Rightarrow> string \<Rightarrow> world \<Rightarrow> world outcome" where
  "handle_command os verb argument w =
     (if verb = ''USER'' then Done (handleUser os argument w)
      else if verb = ''PASS'' then Done (handlePass os argument w)
      else if verb = ''QUIT'' then Done (handleQuit os w)
      else if verb = ''OPTS'' \<or> verb = ''NOOP'' then Done (sendReply os ''200 OK'' w)
      else if verb = ''FEAT'' then Done (handleFeat os w)
      else if sstate w \<noteq> READY \<and> sstate w \<noteq> TRANSFERRING then
        Done (sendReply os ''530 Please login first'' w)
      else dispatch os verb argument w)"

text \<open>One iteration of the loop of \<open>run\<close> on the bytes one \<open>recv\<close> returned.\<close>

definition process :: "os \<Rightarrow> string \<Rightarrow> world \<Rightarrow> world outcome" where
  "process os raw w =
     (if MAX_CMD_LENGTH < length raw then Done (sendReply os ''500 Command too long'' w)
      else let cmd = cleanCommand raw
           in if cmd = [] then Done w
              else let (verb, argument) = split_command cmd
                   in handle_command os verb argument w)"

end
