(* ===== verification/Session_Contract.thy ===== *)
theory Session_Contract
  imports Session
begin

text \<open>
  What every command of a session keeps, whatever its argument: the frame (which members a
  command may not touch), the confinement of file system calls to the home directories
  below the server root, and the balance of socket descriptors. The contract is a locale;
  each handler of \<open>Session\<close> is an interpretation of it.
\<close>

section \<open>What is kept\<close>

definition logged_in :: "world \<Rightarrow> bool" where
  "logged_in w \<longleftrightarrow> sstate w = READY \<or> sstate w = TRANSFERRING"

text \<open>The part of the server context no command changes.\<close>

definition config :: "ServerContext \<Rightarrow>
    string \<times> (string \<rightharpoonup> UserRecord) \<times> bool \<times> int \<times> 64 word \<times> 64 word \<times> 64 word" where
  "config c = (rootDir c, users (auth c), allowAnonymous c, timeoutSecs c, maxFileSizeBytes c,
               activeConnections c, totalConnections c)"

definition framed :: "world \<Rightarrow> world \<Rightarrow> bool" where
  "framed w w' \<longleftrightarrow> socket w' = socket w \<and> clientIp w' = clientIp w \<and> ctl_in w' = ctl_in w \<and>
     config (ctx w') = config (ctx w) \<and> prefix (trace w) (trace w') \<and>
     bytesTransferred w' - totalBytesTransferred (ctx w') =
       bytesTransferred w - totalBytesTransferred (ctx w)"

text \<open>The home directories, and the paths that are a home directory or lie below one.\<close>

definition home :: "ServerContext \<Rightarrow> string \<Rightarrow> bool" where
  "home c r \<longleftrightarrow> (\<exists>u. (users (auth c) u \<noteq> None \<or> u = ''anonymous'' \<and> allowAnonymous c) \<and>
     r = rootDir c @ [CHR 0x5C] @ u)"

definition below :: "string \<Rightarrow> string \<Rightarrow> bool" where
  "below r p \<longleftrightarrow> (\<exists>t. p = r @ t \<and> (t = [] \<or> hd t = CHR 0x5C))"

text \<open>The entries of a directory are named with the other separator.\<close>

definition confined :: "ServerContext \<Rightarrow> string \<Rightarrow> bool" where
  "confined c p \<longleftrightarrow> (\<exists>r t. home c r \<and> p = r @ t \<and> (t = [] \<or> hd t = CHR 0x5C \<or> hd t = CHR ''/''))"

definition inside :: "world \<Rightarrow> bool" where
  "inside w \<longleftrightarrow> paths_ok (confined (ctx w)) (trace w) \<and>
     (logged_in w \<longrightarrow> home (ctx w) (userRootDir w) \<and> below (userRootDir w) (currentDir w)) \<and>
     (renameFrom w = [] \<or> confined (ctx w) (renameFrom w))"

text \<open>The descriptors open in the trace that the session's data channel does not own.\<close>

definition balance :: "int \<Rightarrow> world \<Rightarrow> int" where
  "balance x w = unowned x (dataChannel w) (trace w)"

section \<open>Paths\<close>

lemma home_config: "config c = config c' \<Longrightarrow> home c = home c'"
  by (simp add: config_def home_def fun_eq_iff)

lemma confined_config: "config c = config c' \<Longrightarrow> confined c = confined c'"
  using home_config[of c c'] by (simp add: confined_def fun_eq_iff)

lemma below_refl [simp]: "below r r"
  by (simp add: below_def)

lemma below_append: "below r p \<Longrightarrow> hd t = CHR 0x5C \<Longrightarrow> below r (p @ t)"
  by (fastforce simp: below_def hd_append)

lemma confined_home: "home c r \<Longrightarrow> below r p \<Longrightarrow> confined c p"
  by (auto simp: confined_def below_def)

lemma confined_entry: "home c r \<Longrightarrow> below r p \<Longrightarrow> confined c (p @ ''/'' @ n)"
  by (fastforce simp: confined_def below_def hd_append)

lemma normalise_simps [simp]:
  "normalise [] = []" "normalise a = [] \<longleftrightarrow> a = []" "CHR ''/'' \<notin> set (normalise a)"
  "length (normalise a) = length a"
  by (auto simp: normalise_def)

lemma resolvePath_below:
  assumes "below (userRootDir w) (currentDir w)"
  shows "below (userRootDir w) (resolvePath arg w)"
  using assms below_append[of "userRootDir w" "userRootDir w" "normalise arg"]
    below_append[of "userRootDir w" "currentDir w" "CHR 0x5C # normalise arg"]
  by (auto simp: resolvePath_def Let_def)

lemma isWithinRoot_below: "below (userRootDir w) p \<Longrightarrow> isWithinRoot p w"
  by (auto simp: below_def isWithinRoot_def)

text \<open>The last separator of a path below the root is not inside the root.\<close>

lemma below_parent:
  assumes "below r p" and "p \<noteq> r" and "rfind_char CHR 0x5C p = Some pos"
  shows "below r (take pos p)"
proof -
  from assms(1,2) obtain t where t: "p = r @ CHR 0x5C # t"
    unfolding below_def by (metis append_Nil2 list.collapse)
  obtain k where k: "rfind_char CHR 0x5C (CHR 0x5C # t) = Some k"
    by (cases "rfind_char CHR 0x5C t") auto
  with assms(3) t have "pos = length r + k" by (simp add: rfind_char_append)
  then have "take pos p = r @ take k (CHR 0x5C # t)" using t by simp
  then show ?thesis by (cases k) (auto simp: below_def)
qed

lemma inside_resolvePath:
  assumes "inside w" and "logged_in w"
  shows "confined (ctx w) (resolvePath arg w)" and "isWithinRoot (resolvePath arg w) w"
  using assms resolvePath_below[of w arg] isWithinRoot_below[of w "resolvePath arg w"]
  by (auto simp: inside_def intro: confined_home)

section \<open>Traces only grow\<close>

lemma prefix_append_right [trace_simps]: "prefix h0 h \<Longrightarrow> prefix h0 (h @ es)"
  by (rule prefix_prefix)

lemma prefix_ms_close [trace_simps]: "prefix h0 h \<Longrightarrow> prefix h0 (snd (ms_close os fd h))"
  by (simp add: ms_close_def closeSocket_def)

lemma prefix_listDirectory [trace_simps]: "prefix h0 h \<Longrightarrow> prefix h0 (snd (listDirectory os p h))"
  using listDirectory_trace[of os p h] by (auto intro: prefix_prefix)

lemma prefix_closePassive [trace_simps]: "prefix h0 h \<Longrightarrow> prefix h0 (snd (closePassive os dc h))"
  by (simp add: closePassive_def split_beta prefix_ms_close)

lemma prefix_enterPassive [trace_simps]:
  "prefix h0 h \<Longrightarrow> prefix h0 (snd (snd (enterPassive os dc h)))"
  by (simp add: enterPassive_def platform_defs Let_def split_beta trace_simps)

lemma prefix_enterActive [trace_simps]:
  "prefix h0 h \<Longrightarrow> prefix h0 (snd (enterActive os ip port dc h))"
  by (simp add: enterActive_def split_beta trace_simps)

lemma prefix_open_data [trace_simps]:
  "prefix h0 h \<Longrightarrow> prefix h0 (snd (snd (open_data os dc h)))"
  by (auto simp: open_data_def acceptConnection_def connectSocket_def Let_def split_beta trace_simps
      split: accept_result.split)

lemma prefix_sendFile [trace_simps]:
  "prefix h0 h \<Longrightarrow> prefix h0 (snd (snd (sendFile os s p off rl h)))"
  using sendFile_trace[of os s p off rl h] by (auto intro: prefix_prefix)

lemma prefix_recvFile [trace_simps]:
  "prefix h0 h \<Longrightarrow> prefix h0 (snd (snd (recvFile os s p off rl m h)))"
proof -
  assume h0: "prefix h0 h"
  let ?h1 = "h @ [Ev_fopen p (upload_mode off)]"
  from recv_chunks_trace[of os p m "upload_stream os s p off h" 0 rl ?h1] h0
  have "prefix h0 (snd (snd (snd (recv_chunks os p m (upload_stream os s p off h) 0 rl ?h1))))"
    by (auto intro: prefix_prefix)
  with h0 show ?thesis
    by (auto simp: recvFile_eq Let_def split_beta trace_simps split: recv_end.split)
qed

section \<open>The contract\<close>

locale handler =
  fixes guard :: "world \<Rightarrow> bool" and exec :: "world \<Rightarrow> world outcome"
  assumes frame: "framed w (outcome_state (exec w))"
    and confines: "guard w \<Longrightarrow> inside w \<Longrightarrow> inside (outcome_state (exec w))"
    and balances: "0 \<le> x \<Longrightarrow> is_done (exec w) \<Longrightarrow> balance x (outcome_state (exec w)) = balance x w"
begin

lemma extends: "prefix (trace w) (trace (outcome_state (exec w)))"
  using frame[of w] by (simp add: framed_def)

lemma confines_paths:
  "guard w \<Longrightarrow> inside w \<Longrightarrow> paths_ok (confined (ctx w)) (trace (outcome_state (exec w)))"
  using confines[of w] frame[of w] confined_config[of "ctx (outcome_state (exec w))" "ctx w"]
  by (simp add: inside_def framed_def)

end

text \<open>The handler's own part of a transfer command, between opening and closing the data socket.\<close>

locale data_body =
  fixes guard :: "world \<Rightarrow> bool" and body :: "handle \<Rightarrow> world \<Rightarrow> world outcome"
    and os :: os and msg :: string
  assumes body_frame: "framed w (outcome_state (body s w))"
    and body_confines: "guard w \<Longrightarrow> inside w \<Longrightarrow> inside (outcome_state (body s w))"
    and body_held: "is_done (body s w) \<Longrightarrow>
          held x (trace (outcome_state (body s w))) = held x (trace w)"
    and body_channel: "dataChannel (outcome_state (body s w)) = dataChannel w"
    and guard_stable: "guard w \<Longrightarrow> guard (w\<lparr>dataChannel := dc, trace := h\<rparr>)"

lemma sendReply_eq:
  "sendReply os r w = w\<lparr>trace := trace w @ [Ev_send (socket w) (r @ [carriage_return, newline])]\<rparr>"
  by (simp add: sendReply_def sys_def sendData_def toPosix_def Let_def)

lemma framed_refl [simp]: "framed w w"
  by (simp add: framed_def)

lemma framed_trans: "framed w w' \<Longrightarrow> framed w' w'' \<Longrightarrow> framed w w''"
  by (auto simp: framed_def)

lemma inside_trace:
  "inside w \<Longrightarrow> paths_ok (confined (ctx w)) h \<Longrightarrow> inside (w\<lparr>dataChannel := dc, trace := h\<rparr>)"
  "inside w \<Longrightarrow> paths_ok (confined (ctx w)) h \<Longrightarrow> inside (w\<lparr>trace := h\<rparr>)"
  by (simp_all add: inside_def logged_in_def)

sublocale data_body \<subseteq> handler guard "with_data os msg body"
proof
  fix w :: world
  let ?r = "[carriage_return, newline]"
  let ?h0 = "trace w @ [Ev_send (socket w) (msg @ ?r)]"
  obtain ds dc h where o: "open_data os (dataChannel w) ?h0 = (ds, dc, h)"
    by (cases "open_data os (dataChannel w) ?h0")
  let ?w1 = "w\<lparr>dataChannel := dc, trace := h\<rparr>"
  have h: "prefix (trace w) h" "paths_ok P h = paths_ok P (trace w)" for P
    using o prefix_open_data[of "trace w" ?h0 os "dataChannel w"]
      open_data_quiet(2)[of P os "dataChannel w" ?h0] by simp_all
  have unf: "with_data os msg body w = (case ds of None \<Rightarrow> Hangs ?w1 | Some s \<Rightarrow>
      if \<not> ms_valid s then Done (?w1\<lparr>trace := h @ [Ev_send (socket w) (''425 Cannot open data connection'' @ ?r)]\<rparr>)
      else bind_outcome (body s ?w1) (\<lambda>w2. Done (w2\<lparr>trace := snd (ms_close os s (trace w2))\<rparr>)))"
    using o by (simp add: with_data_def sendReply_eq sys_def Let_def split_beta split: option.split)
  have w1: "framed w ?w1" using h(1) by (simp add: framed_def)
  have b1: "framed w (outcome_state (body s ?w1))" for s
    by (rule framed_trans[OF w1 body_frame])
  show "framed w (outcome_state (with_data os msg body w))"
  proof (cases ds)
    case None
    with unf w1 show ?thesis by simp
  next
    case (Some s)
    show ?thesis
    proof (cases "body s ?w1")
      case (Done w2)
      with b1[of s] Some unf h(1) show ?thesis
        by (auto simp: framed_def trace_simps)
    qed (use b1[of s] Some unf h(1) in \<open>auto simp: framed_def\<close>)
  qed
  show "inside (outcome_state (with_data os msg body w))" if g: "guard w" and i: "inside w"
  proof -
    have i1: "inside ?w1"
      using i h(2)[of "confined (ctx w)"] by (intro inside_trace(1)) (simp_all add: inside_def)
    have b: "inside (outcome_state (body s ?w1))" for s
      using body_confines[OF guard_stable[OF g] i1] .
    show ?thesis
    proof (cases ds)
      case None
      with unf i1 show ?thesis by simp
    next
      case (Some s)
      have i2: "inside (w\<lparr>dataChannel := dc, trace := h @ [Ev_send y d]\<rparr>)" for y d
        using i h(2)[of "confined (ctx w)"] by (intro inside_trace(1)) (simp_all add: inside_def)
      show ?thesis
      proof (cases "body s ?w1")
        case (Done w2)
        with b[of s] have "inside w2" by simp
        then have "inside (w2\<lparr>trace := snd (ms_close os s (trace w2))\<rparr>)"
          by (intro inside_trace(2)) (simp_all add: inside_def trace_simps)
        with Done Some unf i2 show ?thesis by simp
      qed (use b[of s] Some unf i2 in auto)
    qed
  qed
  show "balance x (outcome_state (with_data os msg body w)) = balance x w"
    if x: "0 \<le> x" and d: "is_done (with_data os msg body w)" for x
  proof -
    from o open_data_unowned[OF x, of os "dataChannel w" ?h0]
    have u: "unowned x dc h = balance x w + (if ds = Some x then 1 else 0)"
      by (simp add: balance_def unowned_def)
    from d unf obtain s where s: "ds = Some s" by (cases ds) auto
    show ?thesis
    proof (cases "ms_valid s")
      case False
      with s unf u x show ?thesis
        by (auto simp: balance_def unowned_def ms_valid_def kInvalidSocket_def)
    next
      case True
      with d unf s obtain w2 where w2: "body s ?w1 = Done w2" by (cases "body s ?w1") auto
      with body_held[of s ?w1 x] body_channel[of s ?w1] True s unf u show ?thesis
        by (auto simp: balance_def unowned_def ms_close_simps)
    qed
  qed
qed

section \<open>The handlers\<close>

lemma inside_simps [trace_simps]:
  "inside w \<Longrightarrow> paths_ok (confined (ctx w)) (trace w)"
  "inside w \<Longrightarrow> inside (w\<lparr>trace := h\<rparr>) \<longleftrightarrow> paths_ok (confined (ctx w)) h"
  "inside w \<Longrightarrow> inside (w\<lparr>trace := h, dataChannel := dc\<rparr>) \<longleftrightarrow> paths_ok (confined (ctx w)) h"
  "inside w \<Longrightarrow> inside (w\<lparr>dataChannel := dc, trace := h\<rparr>) \<longleftrightarrow> paths_ok (confined (ctx w)) h"
  "inside w \<Longrightarrow> inside (w\<lparr>restartOffset := off, trace := h\<rparr>) \<longleftrightarrow> paths_ok (confined (ctx w)) h"
  by (auto simp: inside_def logged_in_def)

lemma path_frame [simp]:
  "resolvePath arg (w\<lparr>trace := h\<rparr>) = resolvePath arg w"
  "isWithinRoot p (w\<lparr>trace := h\<rparr>) = isWithinRoot p w"
  "resolvePath arg (w\<lparr>renameFrom := q\<rparr>) = resolvePath arg w"
  "isWithinRoot p (w\<lparr>renameFrom := q\<rparr>) = isWithinRoot p w"
  "resolvePath arg (w\<lparr>restartOffset := off\<rparr>) = resolvePath arg w"
  "isWithinRoot p (w\<lparr>restartOffset := off\<rparr>) = isWithinRoot p w"
  by (simp_all add: resolvePath_def isWithinRoot_def Let_def)

lemmas session_steps = sendReply_eq sys_def Let_def split_beta platform_defs not_a_file_def

lemma balance_trace [trace_simps]:
  "balance x (w\<lparr>trace := h\<rparr>) = balance x w + (held x h - held x (trace w))"
  by (simp add: balance_def unowned_def)

lemma unowned_append [trace_simps]: "unowned x dc (h @ es) = unowned x dc h + held x es"
  by (simp add: unowned_def)

interpretation syst: handler "\<lambda>_. True" "\<lambda>w. Done (handleSyst os w)" for os
  by unfold_locales (simp_all add: handleSyst_def session_steps framed_def trace_simps)

interpretation type_cmd: handler "\<lambda>_. True" "\<lambda>w. Done (handleType os a w)" for os a
  by unfold_locales (simp_all add: handleType_def session_steps framed_def trace_simps)

interpretation pwd_cmd: handler "\<lambda>_. True" "\<lambda>w. Done (handlePwd os w)" for os
  by unfold_locales (simp_all add: handlePwd_def session_steps framed_def trace_simps)

interpretation feat: handler "\<lambda>_. True" "\<lambda>w. Done (handleFeat os w)" for os
  by unfold_locales (simp_all add: handleFeat_def session_steps framed_def trace_simps)

interpretation reply: handler "\<lambda>_. True" "\<lambda>w. Done (sendReply os r w)" for os r
  by unfold_locales (simp_all add: session_steps framed_def trace_simps)

interpretation dele: handler logged_in "\<lambda>w. Done (handleDele os arg w)" for os arg
  by unfold_locales
    (auto simp: handleDele_def session_steps framed_def trace_simps intro: inside_resolvePath)

interpretation mkd: handler logged_in "\<lambda>w. Done (handleMkd os arg w)" for os arg
  by unfold_locales
    (auto simp: handleMkd_def session_steps framed_def trace_simps intro: inside_resolvePath)

interpretation rmd: handler logged_in "\<lambda>w. Done (handleRmd os arg w)" for os arg
  by unfold_locales
    (auto simp: handleRmd_def session_steps framed_def trace_simps intro: inside_resolvePath)

interpretation mdtm: handler logged_in "\<lambda>w. Done (handleMdtm os arg w)" for os arg
  by unfold_locales
    (auto simp: handleMdtm_def session_steps framed_def trace_simps intro: inside_resolvePath)

lemma inside_listing:
  assumes "inside w" and "logged_in w"
  shows "paths_ok (confined (ctx w)) h \<Longrightarrow>
     paths_ok (confined (ctx w)) (snd (listDirectory os (currentDir w) h))"
proof -
  assume h: "paths_ok (confined (ctx w)) h"
  obtain es where es: "snd (listDirectory os (currentDir w) h) = h @ es"
    and e: "\<forall>e\<in>set es. listing_event (currentDir w) e"
    using listDirectory_trace[of os "currentDir w" h] by blast
  from assms have "home (ctx w) (userRootDir w)" "below (userRootDir w) (currentDir w)"
    by (simp_all add: inside_def)
  then have c: "confined (ctx w) (currentDir w)" "confined (ctx w) (currentDir w @ ''/'' @ n)" for n
    by (rule confined_home, rule confined_entry)
  have "confined (ctx w) q" if "listing_event (currentDir w) ev" "q \<in> set (ev_paths ev)" for ev q
    using that c by (auto simp: listing_event_def)
  then have "paths_ok (confined (ctx w)) es"
    using e by (auto simp: paths_ok_def)
  with es h show ?thesis by simp
qed

lemma inside_listing_here [trace_simps]:
  "inside w \<Longrightarrow> logged_in w \<Longrightarrow>
     paths_ok (confined (ctx w)) (snd (listDirectory os (currentDir w) (trace w)))"
  by (rule inside_listing) (simp_all add: trace_simps)

interpretation size_cmd: handler logged_in "\<lambda>w. Done (handleSize os arg w)" for os arg
  by unfold_locales
    (auto simp: handleSize_def session_steps framed_def trace_simps split: option.split)

interpretation rest: handler "\<lambda>_. True" "\<lambda>w. Done (handleRest os arg w)" for os arg
  by unfold_locales
    (auto simp: handleRest_def session_steps framed_def trace_simps balance_def unowned_def split: option.split)

interpretation cwd: handler logged_in "\<lambda>w. Done (handleCwd os arg w)" for os arg
proof (unfold_locales, goal_cases)
  case (2 w)
  then show ?case
    using inside_resolvePath[of w arg] resolvePath_below[of w arg]
    by (auto simp: handleCwd_def session_steps inside_def logged_in_def)
qed (auto simp: handleCwd_def session_steps framed_def trace_simps balance_def unowned_def)

interpretation cdup: handler logged_in "\<lambda>w. Done (handleCdup os w)" for os
proof (unfold_locales, goal_cases)
  case (2 w)
  then show ?case
    using below_parent[of "userRootDir w" "currentDir w"]
    by (auto simp: handleCdup_def session_steps inside_def logged_in_def split: option.split)
qed (auto simp: handleCdup_def session_steps framed_def trace_simps balance_def unowned_def
      split: option.split)

interpretation rnfr: handler logged_in "\<lambda>w. Done (handleRnfr os arg w)" for os arg
proof (unfold_locales, goal_cases)
  case (2 w)
  then show ?case
    using inside_resolvePath[of w arg]
    by (auto simp: handleRnfr_def session_steps inside_def logged_in_def)
qed (auto simp: handleRnfr_def session_steps framed_def trace_simps balance_def unowned_def)

interpretation rnto: handler logged_in "\<lambda>w. Done (handleRnto os arg w)" for os arg
proof (unfold_locales, goal_cases)
  case (2 w)
  then show ?case
    using inside_resolvePath[of w arg]
    by (auto simp: handleRnto_def session_steps inside_def logged_in_def)
qed (auto simp: handleRnto_def session_steps framed_def trace_simps balance_def unowned_def)

interpretation pasv: handler "\<lambda>_. True" "\<lambda>w. Done (handlePasv os w)" for os
proof (unfold_locales, goal_cases)
  case (3 x w)
  then show ?case
    using enterPassive_unowned[of x os "dataChannel w" "trace w"]
    by (auto simp: handlePasv_def session_steps balance_def trace_simps)
qed (auto simp: handlePasv_def session_steps framed_def trace_simps)

interpretation port_cmd: handler "\<lambda>_. True" "handlePort os arg" for os arg
proof (unfold_locales, goal_cases)
  case (3 x w)
  then show ?case
    using enterActive_unowned[of x os _ _ "dataChannel w" "trace w"]
    by (auto simp: handlePort_def session_steps balance_def trace_simps split: sum.split)
qed (auto simp: handlePort_def session_steps framed_def trace_simps split: sum.split)

section \<open>Logging in and out\<close>

lemma auth_users [simp]:
  "users (snd (isRateLimited now ip am)) = users am"
  "users (recordFailedAttempt now ip am) = users am"
  "users (clearAttempts ip am) = users am"
  by (auto simp: isRateLimited_def recordFailedAttempt_def clearAttempts_def Let_def split: option.split)

lemma authenticate_known: "authenticate u p am \<Longrightarrow> users am u \<noteq> None"
  by (auto simp: authenticate_def split: option.splits)

lemma auth_update [simp]:
  assumes "users am = users (auth c)"
  shows "home (c\<lparr>auth := am\<rparr>) = home c" and "confined (c\<lparr>auth := am\<rparr>) = confined c"
proof -
  from assms have "config (c\<lparr>auth := am\<rparr>) = config c" by (simp add: config_def)
  then show "home (c\<lparr>auth := am\<rparr>) = home c" and "confined (c\<lparr>auth := am\<rparr>) = confined c"
    by (rule home_config, rule confined_config)
qed

interpretation user_cmd: handler "\<lambda>_. True" "\<lambda>w. Done (handleUser os arg w)" for os arg
proof (unfold_locales, goal_cases)
  case (2 w)
  have h: "home (ctx w) (rootDir (ctx w) @ CHR 0x5C # ''anonymous'')" if "allowAnonymous (ctx w)"
    using that by (auto simp: home_def)
  with 2 show ?case
    by (auto simp: handleUser_def enter_home_def session_steps inside_def logged_in_def
        intro: confined_home[OF h])
qed (auto simp: handleUser_def enter_home_def session_steps framed_def trace_simps balance_def unowned_def)

interpretation pass_cmd: handler "\<lambda>_. True" "\<lambda>w. Done (handlePass os arg w)" for os arg
proof (unfold_locales, goal_cases)
  case (2 w)
  let ?am = "snd (isRateLimited (os_time os (trace w)) (clientIp w) (auth (ctx w)))"
  have h: "home (ctx w) (rootDir (ctx w) @ CHR 0x5C # username w)" if "authenticate (username w) arg ?am"
    using authenticate_known[OF that] by (auto simp: home_def)
  with 2 show ?case
    by (auto simp: handlePass_def enter_home_def session_steps inside_def logged_in_def
        intro: confined_home[OF h])
qed (auto simp: handlePass_def enter_home_def session_steps framed_def trace_simps balance_def unowned_def config_def)

interpretation quit: handler "\<lambda>_. True" "\<lambda>w. Done (handleQuit os w)" for os
  by unfold_locales
    (auto simp: handleQuit_def session_steps framed_def trace_simps inside_def logged_in_def
      balance_def unowned_def)

section \<open>Listings and transfers\<close>

lemma logged_in_frame [simp]:
  "logged_in (w\<lparr>trace := h\<rparr>) = logged_in w"
  "logged_in (w\<lparr>dataChannel := dc\<rparr>) = logged_in w"
  by (simp_all add: logged_in_def)

interpretation listing: data_body logged_in "send_listing os line done" os msg for os line "done" msg
proof (unfold_locales, goal_cases)
  case (2 w s)
  with inside_listing_here[of w os] show ?case
    by (auto simp: send_listing_def session_steps inside_def logged_in_def)
qed (auto simp: send_listing_def session_steps framed_def trace_simps)

interpretation list_cmd: handler logged_in "handleList os" for os
  unfolding handleList_def by (rule listing.handler_axioms)

interpretation nlst: handler logged_in "handleNlst os" for os
  unfolding handleNlst_def by (rule listing.handler_axioms)

lemma count_bytes_simps [simp]:
  "trace (count_bytes n w) = trace w" "socket (count_bytes n w) = socket w"
  "clientIp (count_bytes n w) = clientIp w" "ctl_in (count_bytes n w) = ctl_in w"
  "dataChannel (count_bytes n w) = dataChannel w" "config (ctx (count_bytes n w)) = config (ctx w)"
  "userRootDir (count_bytes n w) = userRootDir w" "currentDir (count_bytes n w) = currentDir w"
  "bytesTransferred (count_bytes n w) - totalBytesTransferred (ctx (count_bytes n w)) =
     bytesTransferred w - totalBytesTransferred (ctx w)"
  "renameFrom (count_bytes n w) = renameFrom w" "rootDir (ctx (count_bytes n w)) = rootDir (ctx w)"
  by (simp_all add: count_bytes_def config_def)

lemma count_bytes_confined [simp]:
  "home (ctx (count_bytes n w)) = home (ctx w)"
  "confined (ctx (count_bytes n w)) = confined (ctx w)"
  by (rule home_config, simp, rule confined_config, simp)

interpretation retr_data: data_body "\<lambda>w. logged_in w \<and> confined (ctx w) path" "retr_body os path" os msg
  for os path msg
proof (unfold_locales, goal_cases)
  case (2 w s)
  then have "paths_ok (confined (ctx w))
      (snd (snd (sendFile os s path (restartOffset w) (rateLimiter w) (trace w))))"
    by (intro sendFile_paths_ok) (simp_all add: inside_def)
  with 2 show ?case
    by (auto simp: retr_body_def session_steps inside_def logged_in_def)
qed (auto simp: retr_body_def session_steps framed_def trace_simps)

interpretation stor_data: data_body "\<lambda>w. logged_in w \<and> confined (ctx w) path" "stor_body os path" os msg
  for os path msg
proof (unfold_locales, goal_cases)
  case (2 w s)
  then have "paths_ok (confined (ctx w)) (snd (snd (recvFile os s path (restartOffset w)
      (rateLimiter w) (maxFileSizeBytes (ctx w)) (trace w))))"
    by (intro recvFile_paths_ok) (simp_all add: inside_def)
  with 2 show ?case
    by (auto simp: stor_body_def session_steps inside_def logged_in_def split: option.split)
qed (auto simp: stor_body_def session_steps framed_def trace_simps split: option.split)

interpretation stor: handler logged_in "handleStor os arg" for os arg
proof (unfold_locales, goal_cases)
  case (1 w)
  show ?case
    using stor_data.frame[of w os "''150 Opening data connection for STOR''" "resolvePath arg w"]
      reply.frame[of w os]
    by (auto simp: handleStor_def Let_def)
next
  case (2 w)
  then show ?case
    using stor_data.confines[of w "resolvePath arg w"] inside_resolvePath[of w arg] reply.confines[of w]
    by (auto simp: handleStor_def Let_def)
next
  case (3 x w)
  then show ?case
    using stor_data.balances[of x] reply.balances[of x]
    by (auto simp: handleStor_def Let_def split: if_splits)
qed

definition after_check :: "os \<Rightarrow> string \<Rightarrow> world \<Rightarrow> world" where
  "after_check os p w = snd (not_a_file os p w)"

lemma after_check_trace:
  "\<exists>es. after_check os p w = w\<lparr>trace := trace w @ es\<rparr> \<and> set es \<subseteq> {Ev_stat p}"
  by (auto simp: after_check_def session_steps)

lemma handleRetr_eq:
  "handleRetr os arg w =
     (let p = resolvePath arg w; w1 = after_check os p w
      in if \<not> isSafeFilename arg then Done (sendReply os ''501 Invalid filename'' w)
         else if \<not> isWithinRoot p w then Done (sendReply os ''550 Permission denied'' w)
         else if fst (not_a_file os p w) then Done (sendReply os (''550 File not found: '' @ arg) w1)
         else with_data os ''150 Opening data connection for RETR'' (retr_body os p) w1)"
  by (simp add: handleRetr_def after_check_def Let_def split_beta)

lemma after_check_simps [trace_simps]:
  "framed w (after_check os p w)"
  "balance x (after_check os p w) = balance x w"
  "logged_in (after_check os p w) = logged_in w"
  "ctx (after_check os p w) = ctx w"
  "inside w \<Longrightarrow> confined (ctx w) p \<Longrightarrow> inside (after_check os p w)"
proof -
  from after_check_trace[of os p w] obtain es
    where eq: "after_check os p w = w\<lparr>trace := trace w @ es\<rparr>" and es: "set es \<subseteq> {Ev_stat p}" by blast
  from es have "held x es = 0" by (induction es) auto
  with eq show "balance x (after_check os p w) = balance x w" by (simp add: trace_simps)
  from eq show "framed w (after_check os p w)" "logged_in (after_check os p w) = logged_in w"
    "ctx (after_check os p w) = ctx w" by (auto simp: framed_def)
  assume "inside w" "confined (ctx w) p"
  moreover from es this(2) have "paths_ok (confined (ctx w)) es"
    by (fastforce simp: paths_ok_def)
  ultimately show "inside (after_check os p w)" by (simp add: eq trace_simps)
qed

interpretation retr: handler logged_in "handleRetr os arg" for os arg
proof (unfold_locales, goal_cases)
  case (1 w)
  let ?w1 = "after_check os (resolvePath arg w) w"
  have "framed w ?w1" by (rule after_check_simps)
  then have "framed w (sendReply os r ?w1)" "framed w (sendReply os r w)"
    "framed w (outcome_state (with_data os r (retr_body os p) ?w1))" for r p
    using framed_trans[of w ?w1] reply.frame[of _ os] retr_data.frame[of ?w1 os] by auto
  then show ?case by (simp add: handleRetr_eq Let_def)
next
  case (2 w)
  then have "confined (ctx w) (resolvePath arg w)" by (intro inside_resolvePath(1))
  with 2 show ?case
    using retr_data.confines[of "after_check os (resolvePath arg w) w" "resolvePath arg w"]
      reply.confines by (auto simp: handleRetr_eq Let_def after_check_simps)
next
  case (3 x w)
  then show ?case
    using retr_data.balances[of x] reply.balances[of x]
    by (auto simp: handleRetr_eq Let_def after_check_simps split: if_splits)
qed

section \<open>Whole commands\<close>

lemma handler_weaken:
  assumes "handler g f" and "\<And>w. g' w \<Longrightarrow> g w"
  shows "handler g' f"
  using assms by (auto simp: handler_def)

lemma handler_if:
  assumes "handler g f" and "handler g f'"
  shows "handler g (\<lambda>w. if b w then f w else f' w)"
  using assms by (auto simp: handler_def)

lemmas unguarded_handlers =
  syst.handler_axioms type_cmd.handler_axioms pwd_cmd.handler_axioms feat.handler_axioms
  reply.handler_axioms rest.handler_axioms pasv.handler_axioms port_cmd.handler_axioms
  user_cmd.handler_axioms pass_cmd.handler_axioms quit.handler_axioms

lemmas guarded_handlers =
  dele.handler_axioms mkd.handler_axioms rmd.handler_axioms mdtm.handler_axioms
  size_cmd.handler_axioms cwd.handler_axioms cdup.handler_axioms rnfr.handler_axioms
  rnto.handler_axioms list_cmd.handler_axioms nlst.handler_axioms retr.handler_axioms
  stor.handler_axioms

interpretation dispatch: handler logged_in "dispatch os verb argument" for os verb argument
  unfolding dispatch_def
  by (intro handler_if guarded_handlers unguarded_handlers[THEN handler_weaken] TrueI)

lemma handler_guard:
  assumes "handler g f" and "handler (\<lambda>w. g w \<and> \<not> b w) f'"
  shows "handler g (\<lambda>w. if b w then f w else f' w)"
  using assms by (auto simp: handler_def)

interpretation command: handler "\<lambda>_. True" "handle_command os verb argument" for os verb argument
  unfolding handle_command_def
  by (intro handler_if handler_guard unguarded_handlers dispatch.handler_axioms[THEN handler_weaken])
     (auto simp: logged_in_def)

lemma idle_handler: "handler g Done"
  by (simp add: handler_def)

text \<open>Every command line, whatever bytes the client sends, in whatever state.\<close>

interpretation process: handler "\<lambda>_. True" "process os raw" for os raw
  unfolding process_def Let_def split_beta
  by (intro handler_if reply.handler_axioms idle_handler command.handler_axioms)

section \<open>The loop of run\<close>

lemma recvData_shrinks:
  assumes "recvData n inp = (r, inp')"
  shows "length (fst inp') \<le> length (fst inp)"
    and "sum_list (map length (fst inp')) \<le> sum_list (map length (fst inp))"
  using assms by (induction n inp rule: recvData.induct) (auto split: if_splits)

lemma recvCommand_shrinks:
  assumes "recvCommand w = (Some raw, w1)" and "raw \<noteq> []"
  shows "sum_list (map length (fst (ctl_in w1))) < sum_list (map length (fst (ctl_in w)))"
  using assms recvData_decreases[of "MAX_CMD_LENGTH + 1" "ctl_in w" raw]
  by (auto simp: recvCommand_def split: prod.splits recv_result.splits if_splits)

lemma process_decreases:
  assumes "(r, w1) = recvCommand w" and "r = Some raw" and "raw \<noteq> []"
    and "process os raw w1 = Done w2"
  shows "((os, w2), (os, w)) \<in> measure (\<lambda>(os, w). sum_list (map length (fst (ctl_in w))))"
  using assms process.frame[of w1 os raw] recvCommand_shrinks[of w raw w1]
  by (simp add: framed_def)

lemma bind_outcome_cong [fundef_cong]:
  "m = m' \<Longrightarrow> (\<And>s. m' = Done s \<Longrightarrow> f s = g s) \<Longrightarrow> bind_outcome m f = bind_outcome m' g"
  by (cases m') auto

text \<open>
  The loop reads commands until the session is closed, the connection ends, or a command
  throws or hangs. It ends because every iteration consumes input.
\<close>

function session_loop :: "os \<Rightarrow> world \<Rightarrow> world outcome" where
  "session_loop os w =
     (if sstate w = CLOSED then Done w
      else case recvCommand w of
             (None, w1) \<Rightarrow> Hangs w1
           | (Some raw, w1) \<Rightarrow>
               if raw = [] then Done w1
               else bind_outcome (process os raw w1) (session_loop os))"
  by pat_completeness auto
termination
  by (relation "measure (\<lambda>(os, w). sum_list (map length (fst (ctl_in w))))")
    (simp, rule process_decreases)

declare session_loop.simps [simp del]

definition run :: "os \<Rightarrow> world \<Rightarrow> world outcome" where
  "run os w =
     (let w0 = sendReply os ''220 FTP Server v2.0 ready.'' w
      in bind_outcome (session_loop os (w0\<lparr>sstate := WAIT_USER\<rparr>))
           (\<lambda>w1. Done (w1\<lparr>sstate := CLOSED,
              ctx := (ctx w1)\<lparr>activeConnections := atomic_dec (activeConnections (ctx w1))\<rparr>\<rparr>)))"

text \<open>
  The task the accept loop submits: a session is constructed, run, and destroyed, also when
  \<open>run\<close> is left by an exception.
\<close>

definition serve_client :: "os \<Rightarrow> handle \<Rightarrow> string \<Rightarrow> ServerContext \<Rightarrow> hist \<Rightarrow> world outcome" where
  "serve_client os sock ip c h =
     (case run os (new_session os sock ip c h) of
        Done w \<Rightarrow> Done (destroy_session os w)
      | Throws e w \<Rightarrow> Throws e (destroy_session os w)
      | Hangs w \<Rightarrow> Hangs w)"

end
