(* ===== verification/Session_Runs.thy ===== *)
theory Session_Runs
  imports Session_Contract
begin

text \<open>
  Properties of whole sessions: everything that happens between the construction of a
  \<open>Session\<close> and its destruction, for every client and every behaviour of the system. They
  follow from the contract of one command by the invariant rule of the loop.
\<close>

section \<open>The invariant rule of the loop\<close>

lemma recvCommand_state: "\<exists>i. snd (recvCommand w) = w\<lparr>ctl_in := i\<rparr>"
  by (auto simp: recvCommand_def split: prod.split recv_result.split)

lemma session_loop_rule [consumes 1, case_names input stop hang step abort]:
  assumes "I w"
    and input: "\<And>w i. I w \<Longrightarrow> I (w\<lparr>ctl_in := i\<rparr>)"
    and stop: "\<And>w. I w \<Longrightarrow> Q (Done w)"
    and hang: "\<And>w w1. I w \<Longrightarrow> recvCommand w = (None, w1) \<Longrightarrow> Q (Hangs w1)"
    and step: "\<And>raw w w'. I w \<Longrightarrow> process os raw w = Done w' \<Longrightarrow> I w'"
    and abort: "\<And>raw w. I w \<Longrightarrow> \<not> is_done (process os raw w) \<Longrightarrow> Q (process os raw w)"
  shows "Q (session_loop os w)"
  using assms(1)
proof (induction "sum_list (map length (fst (ctl_in w)))" arbitrary: w rule: less_induct)
  case less
  obtain r w1 where rc: "recvCommand w = (r, w1)" by (cases "recvCommand w")
  with recvCommand_state[of w] obtain i where "w1 = w\<lparr>ctl_in := i\<rparr>" by auto
  with less.prems have w1: "I w1" by (simp add: input)
  show ?case
  proof (cases "sstate w = CLOSED \<or> r = None \<or> r = Some []")
    case True
    then show ?thesis
      using rc w1 less.prems stop hang[OF less.prems] by (subst session_loop.simps) auto
  next
    case False
    then obtain raw where raw: "r = Some raw" "raw \<noteq> []" by auto
    have eq: "session_loop os w = bind_outcome (process os raw w1) (session_loop os)"
      using False rc raw by (subst session_loop.simps) simp
    show ?thesis
    proof (cases "process os raw w1")
      case (Done w2)
      have "sum_list (map length (fst (ctl_in w2))) < sum_list (map length (fst (ctl_in w)))"
        using process_decreases[OF rc[symmetric] raw Done] by simp
      from less.hyps[OF this step[OF w1 Done]] show ?thesis by (simp add: eq Done)
    qed (use abort[OF w1, of raw] eq in simp_all)
  qed
qed

section \<open>What the loop keeps\<close>

lemma session_loop_inside: "inside w \<Longrightarrow> inside (outcome_state (session_loop os w))"
proof (induction rule: session_loop_rule[where I = inside])
  case (hang w w1)
  with recvCommand_state[of w] show ?case by (auto simp: inside_def logged_in_def)
next
  case (step raw w w')
  with process.confines[of w os raw] show ?case by simp
next
  case (abort raw w)
  with process.confines[of w os raw] show ?case by simp
qed (auto simp: inside_def logged_in_def)

definition same_session :: "world \<Rightarrow> world \<Rightarrow> bool" where
  "same_session w w' \<longleftrightarrow> socket w' = socket w \<and> clientIp w' = clientIp w \<and>
     config (ctx w') = config (ctx w) \<and> prefix (trace w) (trace w') \<and>
     bytesTransferred w' - totalBytesTransferred (ctx w') =
       bytesTransferred w - totalBytesTransferred (ctx w)"

lemma framed_same: "framed w w' \<Longrightarrow> same_session w0 w \<Longrightarrow> same_session w0 w'"
  by (auto simp: framed_def same_session_def)

lemma session_loop_same: "same_session w (outcome_state (session_loop os w))"
proof -
  have "same_session w0 w \<Longrightarrow> same_session w0 (outcome_state (session_loop os w))" for w0 w
  proof (induction rule: session_loop_rule[where I = "same_session w0"])
    case (hang w w1)
    with recvCommand_state[of w] show ?case by (auto simp: same_session_def)
  next
    case (step raw w w')
    with framed_same[OF process.frame[of w os raw]] show ?case by simp
  next
    case (abort raw w)
    with framed_same[OF process.frame[of w os raw]] show ?case by simp
  qed (auto simp: same_session_def)
  then show ?thesis by (simp add: same_session_def)
qed

text \<open>Only \<open>PORT\<close> throws, and then nothing has been done.\<close>

lemma with_data_no_throw:
  "(\<And>s w e w'. body s w \<noteq> Throws e w') \<Longrightarrow> with_data os msg body w \<noteq> Throws e w'"
  by (auto simp: with_data_def Let_def split_beta bind_outcome_simps split: option.split)

lemma bodies_no_throw:
  "send_listing os line d s w \<noteq> Throws e w'"
  "retr_body os p s w \<noteq> Throws e w'"
  "stor_body os p s w \<noteq> Throws e w'"
  by (auto simp: send_listing_def retr_body_def stor_body_def Let_def split_beta split: option.split)

lemma transfers_no_throw:
  "with_data os msg (send_listing os line d) w \<noteq> Throws e w'"
  "with_data os msg (retr_body os p) w \<noteq> Throws e w'"
  "with_data os msg (stor_body os p) w \<noteq> Throws e w'"
  by (rule with_data_no_throw, rule bodies_no_throw)+

lemma dispatch_throws: "dispatch os verb arg w = Throws e w' \<Longrightarrow> w' = w"
proof -
  have "handlePort os arg w = Throws e w' \<Longrightarrow> w' = w"
    by (auto simp: handlePort_def Let_def split_beta split: sum.splits if_splits)
  then show "dispatch os verb arg w = Throws e w' \<Longrightarrow> w' = w"
    by (auto simp: dispatch_def handleList_def handleNlst_def handleRetr_eq handleStor_def Let_def
        transfers_no_throw split: if_splits)
qed

lemma process_throws: "process os raw w = Throws e w' \<Longrightarrow> w' = w"
  by (auto simp: process_def handle_command_def Let_def split_beta dest: dispatch_throws
      split: if_splits)

lemma session_loop_balance:
  assumes "0 \<le> x" and "\<not> hangs (session_loop os w)"
  shows "balance x (outcome_state (session_loop os w)) = balance x w"
proof -
  have "balance x w0 = b \<Longrightarrow> hangs (session_loop os w0) \<or>
      balance x (outcome_state (session_loop os w0)) = b" for w0 b
  proof (induction rule: session_loop_rule[where I = "\<lambda>w. balance x w = b"])
    case (step raw w w')
    with process.balances[OF assms(1), of os raw w] show ?case by simp
  next
    case (abort raw w)
    then show ?case using process_throws[of os raw w] by (cases "process os raw w") auto
  qed (auto simp: balance_def)
  with assms(2) show ?thesis by blast
qed

section \<open>Sessions from construction to destruction\<close>

text \<open>The world in which the loop starts.\<close>

definition greeted :: "os \<Rightarrow> handle \<Rightarrow> string \<Rightarrow> ServerContext \<Rightarrow> hist \<Rightarrow> world" where
  "greeted os sock ip c h =
     (sendReply os ''220 FTP Server v2.0 ready.'' (new_session os sock ip c h))\<lparr>sstate := WAIT_USER\<rparr>"

lemma serve_client_eq:
  "serve_client os sock ip c h =
     (case session_loop os (greeted os sock ip c h) of
        Done w \<Rightarrow> Done (destroy_session os (w\<lparr>sstate := CLOSED,
           ctx := (ctx w)\<lparr>activeConnections := atomic_dec (activeConnections (ctx w))\<rparr>\<rparr>))
      | Throws e w \<Rightarrow> Throws e (destroy_session os w)
      | Hangs w \<Rightarrow> Hangs w)"
  by (simp add: serve_client_def run_def greeted_def Let_def split: outcome.split)

lemma greeted_simps [trace_simps]:
  "socket (greeted os sock ip c h) = sock"
  "dataChannel (greeted os sock ip c h) = new_channel"
  "logged_in (greeted os sock ip c h) = False"
  "renameFrom (greeted os sock ip c h) = []"
  "held x (trace (greeted os sock ip c h)) = held x h"
  "paths_ok P (trace (greeted os sock ip c h)) = paths_ok P h"
  "ctx (greeted os sock ip c h) = c\<lparr>activeConnections := atomic_inc (activeConnections c),
      totalConnections := atomic_inc (totalConnections c)\<rparr>"
  by (simp_all add: greeted_def new_session_def session_steps logged_in_def)

lemma confined_counters [simp]:
  "confined (c\<lparr>activeConnections := a, totalConnections := t\<rparr>) = confined c"
  "confined (c\<lparr>activeConnections := a\<rparr>) = confined c"
  by (simp_all add: confined_def home_def fun_eq_iff)

lemma destroy_session_simps [trace_simps]:
  "paths_ok P (trace (destroy_session os w)) = paths_ok P (trace w)"
  "ctx (destroy_session os w) = ctx w"
  by (simp_all add: destroy_session_def Let_def split_beta trace_simps)

lemma destroy_session_held:
  assumes "0 \<le> x"
  shows "held x (trace (destroy_session os w)) = balance x w - (if socket w = x then 1 else 0)"
  using closePassive_unowned[OF assms, of os "dataChannel w" "trace w"] assms
  by (auto simp: destroy_session_def Let_def split_beta trace_simps balance_def ms_valid_def kInvalidSocket_def)

section \<open>When a session returns\<close>

text \<open>
  Every wait of a session is one of three: for a command, which a timeout bounds; for a data
  connection, which nothing bounds; for uploaded data, which nothing bounds either.
\<close>

definition peers_answer :: "os \<Rightarrow> bool" where
  "peers_answer os \<longleftrightarrow> (\<forall>h s. os_accept os h s \<noteq> Accept_blocks) \<and>
     (\<forall>h s. \<not> never_ends (os_incoming os h s))"

lemma open_data_answers: "peers_answer os \<Longrightarrow> fst (open_data os dc h) \<noteq> None"
  by (auto simp: peers_answer_def open_data_def acceptConnection_def split_beta
      split: accept_result.split)

lemma recvFile_answers: "peers_answer os \<Longrightarrow> fst (recvFile os s p off rl m h) \<noteq> None"
  using recv_chunks_written[where f=0 and m=m and os=os and path=p and
      inp="upload_stream os s p off h" and rl=rl and h="h @ [Ev_fopen p (upload_mode off)]"]
  by (auto simp: recvFile_eq Let_def split_beta peers_answer_def upload_stream_def
      split: recv_end.split)

lemma with_data_answers:
  "peers_answer os \<Longrightarrow> (\<And>s w. \<not> hangs (body s w)) \<Longrightarrow> \<not> hangs (with_data os msg body w)"
  using open_data_answers[of os]
  by (auto simp: with_data_def Let_def split_beta bind_outcome_simps split: option.split)

lemma bodies_answer:
  "\<not> hangs (send_listing os line d s w)" "\<not> hangs (retr_body os p s w)"
  "peers_answer os \<Longrightarrow> \<not> hangs (stor_body os p s w)"
  using recvFile_answers[of os]
  by (auto simp: send_listing_def retr_body_def stor_body_def Let_def split_beta split: option.split)

lemma process_answers:
  assumes "peers_answer os"
  shows "\<not> hangs (process os raw w)"
proof -
  have p: "\<not> hangs (handlePort os arg w)" for arg
    by (auto simp: handlePort_def Let_def split_beta split: sum.split)
  have "\<not> hangs (with_data os msg (send_listing os line d) w1)"
    "\<not> hangs (with_data os msg (retr_body os q) w1)"
    "\<not> hangs (with_data os msg (stor_body os q) w1)" for msg line d q w1
    using assms by (intro with_data_answers bodies_answer; simp)+
  with p show ?thesis
    by (simp add: process_def handle_command_def dispatch_def handleList_def handleNlst_def
        handleRetr_eq handleStor_def Let_def split_beta)
qed

lemma session_loop_answers:
  assumes "peers_answer os"
  shows "0 < timeoutSecs (ctx w) \<Longrightarrow> \<not> hangs (session_loop os w)"
proof (induction rule: session_loop_rule[where I = "\<lambda>w. 0 < timeoutSecs (ctx w)"])
  case (hang w w1)
  then show ?case by (auto simp: recvCommand_def split: prod.splits recv_result.splits)
next
  case (step raw w w')
  with process.frame[of w os raw] show ?case by (simp add: framed_def config_def)
qed (simp_all add: process_answers[OF assms])

section \<open>The properties\<close>

text \<open>A server with two accounts.\<close>

definition demo_context :: ServerContext where
  "demo_context = \<lparr>
     auth = new_auth\<lparr>users := [''ann'' \<mapsto> \<lparr>ur_hashed = False, ur_salt = [], ur_stored = ''pw''\<rparr>,
                               ''bob'' \<mapsto> \<lparr>ur_hashed = False, ur_salt = [], ur_stored = ''secret''\<rparr>]\<rparr>,
     rootDir = ''ftproot'', totalConnections = 0, activeConnections = 0, totalBytesTransferred = 0,
     timeoutSecs = 300, maxFileSizeBytes = 0, allowAnonymous = False, bandwidthLimitBps = 0,
     sendBufKB = 256, recvBufKB = 64\<rparr>"

lemma demo_answers: "peers_answer demo_os"
  by (simp add: peers_answer_def demo_os_def never_ends_def)

lemma demo_returns: "\<not> hangs (serve_client demo_os sock ip demo_context h)"
  using session_loop_answers[OF demo_answers, of "greeted demo_os sock ip demo_context h"]
  by (auto simp: serve_client_eq greeted_simps demo_context_def split: outcome.splits)

text \<open>C1. Whatever a client sends and whatever the system answers, every path a session hands to the
  file system is a home directory below the server root or continues one with a separator,
  where a home directory belongs to a registered user, or to the anonymous one when anonymous
  logins are allowed. This also holds of sessions cut short by an exception and of those that
  never end.\<close>

theorem session_confinement:
  assumes "paths_ok (confined c) h"
  shows "paths_ok (confined c) (trace (outcome_state (serve_client os sock ip c h)))"
proof -
  let ?w = "greeted os sock ip c h"
  have "inside ?w" using assms by (simp add: inside_def trace_simps)
  then have "inside (outcome_state (session_loop os ?w))" by (rule session_loop_inside)
  moreover have "config (ctx (outcome_state (session_loop os ?w))) = config (ctx ?w)"
    using session_loop_same[of ?w os] by (simp add: same_session_def)
  then have "confined (ctx (outcome_state (session_loop os ?w))) = confined (ctx ?w)"
    by (rule confined_config)
  then have "confined (ctx (outcome_state (session_loop os ?w))) = confined c"
    by (simp add: greeted_simps)
  ultimately show ?thesis
    by (auto simp: inside_def serve_client_eq trace_simps split: outcome.split)
qed

theorem session_confinement_witness:
  "paths_ok (confined demo_context) (trace (outcome_state (serve_client demo_os 9 ''10.0.0.1'' demo_context [])))"
  by (rule session_confinement) simp

text \<open>C4. A session closes every socket it opened, and its control socket, exactly once, also when an
  exception ends it: after a session that returns, the balance of every descriptor is what it
  was, less one for the control socket.\<close>

theorem session_closes_sockets:
  assumes "0 \<le> x" and "\<not> hangs (serve_client os sock ip c h)"
  shows "held x (trace (outcome_state (serve_client os sock ip c h))) =
     held x h - (if x = sock then 1 else 0)"
proof -
  let ?w = "greeted os sock ip c h"
  have "\<not> hangs (session_loop os ?w)"
    using assms(2) by (simp add: serve_client_eq split: outcome.splits)
  then have "balance x (outcome_state (session_loop os ?w)) = balance x ?w"
    by (rule session_loop_balance[OF assms(1)])
  moreover have "balance x ?w = held x h"
    using assms(1) by (simp add: balance_def unowned_def trace_simps new_channel_def kInvalidSocket_def)
  moreover have "socket (outcome_state (session_loop os ?w)) = sock"
    using session_loop_same[of ?w os] by (simp add: same_session_def trace_simps)
  ultimately show ?thesis
    using assms
    by (auto simp: serve_client_eq destroy_session_held balance_def split: outcome.splits)
qed

theorem session_closes_sockets_witness:
  "held 9 (trace (outcome_state (serve_client demo_os 9 ''10.0.0.1'' demo_context [Ev_accept 3 9]))) = 0"
  using session_closes_sockets[of 9 demo_os 9 "''10.0.0.1''" demo_context "[Ev_accept 3 9]"]
    demo_returns by simp

text \<open>A session that ends normally leaves \<open>activeConnections\<close> as it found it; one that is ended by an
  exception, or never ends, leaves it one higher for good.\<close>

theorem active_connections_leak:
  assumes "activeConnections c \<noteq> - 1"
  shows "activeConnections (ctx (outcome_state (serve_client os sock ip c h))) =
     (if is_done (serve_client os sock ip c h) then activeConnections c else activeConnections c + 1)"
proof -
  let ?w = "greeted os sock ip c h"
  have "activeConnections (ctx (outcome_state (session_loop os ?w))) = activeConnections c + 1"
    using session_loop_same[of ?w os]
    by (simp add: same_session_def config_def trace_simps atomic_inc_def)
  moreover have "activeConnections c + 1 \<noteq> 0"
    using assms by (metis add.commute eq_neg_iff_add_eq_0)
  ultimately show ?thesis
    by (auto simp: serve_client_eq trace_simps atomic_dec_def split: outcome.split)
qed

theorem active_connections_leak_witness:
  "activeConnections (ctx (outcome_state (serve_client demo_os 9 ''10.0.0.1'' demo_context []))) =
     (if is_done (serve_client demo_os 9 ''10.0.0.1'' demo_context []) then activeConnections demo_context
      else activeConnections demo_context + 1)"
  by (rule active_connections_leak) (simp add: demo_context_def)



text \<open>The server's byte counter is the sum over its sessions: whatever a session does and however it
  ends, it adds to \<open>totalBytesTransferred\<close> exactly what its own \<open>bytesTransferred\<close> shows.\<close>

theorem byte_counters_agree:
  "totalBytesTransferred (ctx (outcome_state (serve_client os sock ip c h))) =
     totalBytesTransferred c + bytesTransferred (outcome_state (serve_client os sock ip c h))"
proof -
  let ?w = "greeted os sock ip c h"
  have "bytesTransferred ?w = 0" "totalBytesTransferred (ctx ?w) = totalBytesTransferred c"
    by (simp_all add: greeted_def new_session_def session_steps)
  with session_loop_same[of ?w os]
  have "bytesTransferred (outcome_state (session_loop os ?w)) -
      totalBytesTransferred (ctx (outcome_state (session_loop os ?w))) = - totalBytesTransferred c"
    by (simp add: same_session_def)
  then have "totalBytesTransferred (ctx (outcome_state (session_loop os ?w))) =
      totalBytesTransferred c + bytesTransferred (outcome_state (session_loop os ?w))"
    by (simp add: algebra_simps)
  then show ?thesis
    by (auto simp: serve_client_eq destroy_session_def Let_def split_beta split: outcome.split)
qed

end
