(* ===== verification/Session_Login.thy ===== *)
theory Session_Login
  imports Session_Runs
begin

text \<open>
  Logging in: what a client can reach before, how it gets in, what repeated failures lead
  to, and what a second login keeps of the first.
\<close>

section \<open>Before login\<close>

lemma authenticate_users: "users am = users am' \<Longrightarrow> authenticate u p am = authenticate u p am'"
  by (simp add: authenticate_def)

lemma authenticate_limited [simp]:
  "authenticate u p (snd (isRateLimited now ip am)) = authenticate u p am"
  by (rule authenticate_users) simp

text \<open>The two ways into the server.\<close>

definition admits :: "os \<Rightarrow> string \<Rightarrow> string \<Rightarrow> world \<Rightarrow> bool" where
  "admits os verb arg w \<longleftrightarrow>
     verb = ''USER'' \<and> (arg = ''anonymous'' \<or> arg = ''ftp'') \<and> allowAnonymous (ctx w) \<or>
     verb = ''PASS'' \<and> sstate w = WAIT_PASS \<and>
       \<not> fst (isRateLimited (os_time os (trace w)) (clientIp w) (auth (ctx w))) \<and>
       authenticate (username w) arg (auth (ctx w))"

text \<open>C2. A client that is not logged in gets nothing but replies: no command makes any system call
  other than one \<open>send\<close> on the control socket, except the login itself, which creates the home
  directory; and it logs in only as the anonymous user where that is allowed, or with a
  password that the user table accepts while its address is not blocked.\<close>

theorem login_guard:
  assumes "\<not> logged_in w"
  shows "\<exists>w'. process os raw w = Done w' \<and>
     (if logged_in w'
      then case_prod (admits os) (split_command (cleanCommand raw)) w \<and>
           (\<exists>r. trace w' = trace w @ [Ev_mkdir (userRootDir w'), Ev_send (socket w) r])
      else trace w' = trace w \<or> (\<exists>r. trace w' = trace w @ [Ev_send (socket w) r]))"
proof -
  obtain verb arg where va: "split_command (cleanCommand raw) = (verb, arg)"
    by (cases "split_command (cleanCommand raw)")
  have s: "sstate w \<noteq> READY" "sstate w \<noteq> TRANSFERRING" using assms by (auto simp: logged_in_def)
  have user: "if logged_in (handleUser os arg w)
      then (arg = ''anonymous'' \<or> arg = ''ftp'') \<and> allowAnonymous (ctx w) \<and>
        (\<exists>r. trace (handleUser os arg w) = trace w @ [Ev_mkdir (userRootDir (handleUser os arg w)), Ev_send (socket w) r])
      else \<exists>r. trace (handleUser os arg w) = trace w @ [Ev_send (socket w) r]"
    using s by (auto simp: handleUser_def enter_home_def session_steps logged_in_def)
  have pass: "if logged_in (handlePass os arg w)
      then sstate w = WAIT_PASS \<and> \<not> fst (isRateLimited (os_time os (trace w)) (clientIp w) (auth (ctx w))) \<and>
        authenticate (username w) arg (auth (ctx w)) \<and>
        (\<exists>r. trace (handlePass os arg w) = trace w @ [Ev_mkdir (userRootDir (handlePass os arg w)), Ev_send (socket w) r])
      else \<exists>r. trace (handlePass os arg w) = trace w @ [Ev_send (socket w) r]"
    using s by (auto simp: handlePass_def enter_home_def session_steps logged_in_def)
  have other: "\<not> logged_in (handleQuit os w)" "\<not> logged_in (handleFeat os w)"
    "\<not> logged_in (sendReply os r w)"
    "\<exists>r. trace (handleQuit os w) = trace w @ [Ev_send (socket w) r]"
    "\<exists>r. trace (handleFeat os w) = trace w @ [Ev_send (socket w) r]"
    "\<exists>r'. trace (sendReply os r w) = trace w @ [Ev_send (socket w) r']" for r
    using s by (auto simp: handleQuit_def handleFeat_def session_steps logged_in_def)
  show ?thesis
    using user pass other assms s va
    by (auto simp: process_def handle_command_def admits_def Let_def split: if_splits)
qed

theorem login_guard_witness:
  "\<exists>w'. process demo_os ''DELE x'' (greeted demo_os 9 ''10.0.0.1'' demo_context []) = Done w' \<and>
     (if logged_in w'
      then case_prod (admits demo_os) (split_command (cleanCommand ''DELE x''))
             (greeted demo_os 9 ''10.0.0.1'' demo_context []) \<and>
           (\<exists>r. trace w' = trace (greeted demo_os 9 ''10.0.0.1'' demo_context []) @
              [Ev_mkdir (userRootDir w'), Ev_send (socket (greeted demo_os 9 ''10.0.0.1'' demo_context [])) r])
      else trace w' = trace (greeted demo_os 9 ''10.0.0.1'' demo_context []) \<or>
           (\<exists>r. trace w' = trace (greeted demo_os 9 ''10.0.0.1'' demo_context []) @
              [Ev_send (socket (greeted demo_os 9 ''10.0.0.1'' demo_context [])) r]))"
  by (rule login_guard) (simp add: greeted_simps)

section \<open>Guessing passwords\<close>


definition waiting_world :: world where
  "waiting_world = (greeted demo_os 9 ''10.0.0.1'' demo_context [])\<lparr>username := ''ann'', sstate := WAIT_PASS\<rparr>"


text \<open>Once an address has five failures and its block has not expired, its next \<open>PASS\<close>, even with the
  right password, is answered 421 and ends the session: the loop stops before another
  command is read.\<close>

theorem blocked_address_is_cut_off:
  assumes "sstate w = WAIT_PASS"
    and "5 \<le> attemptsOf (auth (ctx w)) (clientIp w)"
    and "os_time os (trace w) < blockedOf (auth (ctx w)) (clientIp w)"
  shows "handle_command os ''PASS'' arg w =
       Done (w\<lparr>sstate := CLOSED, trace := trace w @ [Ev_send (socket w)
          (''421 Too many failed attempts. Try again later.'' @ [carriage_return, newline])]\<rparr>) \<and>
     session_loop os (handlePass os arg w) = Done (handlePass os arg w)"
proof -
  have "isRateLimited (os_time os (trace w)) (clientIp w) (auth (ctx w)) = (True, auth (ctx w))"
    using assms(2,3)
    by (auto simp: isRateLimited_def attemptsOf_def blockedOf_def kMaxAttempts_def split: option.splits)
  with assms(1) show ?thesis
    by (subst session_loop.simps) (simp add: handle_command_def handlePass_def session_steps)
qed

definition blocked_world :: world where
  "blocked_world = waiting_world\<lparr>ctx := demo_context\<lparr>auth :=
     (auth demo_context)\<lparr>rateMap := [''10.0.0.1'' \<mapsto> \<lparr>failedAttempts = 5, blockedUntilSec = 60\<rparr>]\<rparr>\<rparr>\<rparr>"

theorem blocked_address_is_cut_off_witness:
  "\<exists>w'. handle_command demo_os ''PASS'' ''pw'' blocked_world = Done w' \<and> sstate w' = CLOSED"
proof -
  have w: "sstate blocked_world = WAIT_PASS"
    "5 \<le> attemptsOf (auth (ctx blocked_world)) (clientIp blocked_world)"
    "os_time demo_os (trace blocked_world) < blockedOf (auth (ctx blocked_world)) (clientIp blocked_world)"
    by (simp_all add: blocked_world_def waiting_world_def greeted_def new_session_def session_steps
        demo_os_def attemptsOf_def blockedOf_def)
  from blocked_address_is_cut_off[OF w, of "''pw''"] show ?thesis by simp
qed

section \<open>A second login\<close>

text \<open>A session may log in again as somebody else, and the pending \<open>RNFR\<close> survives: the next \<open>RNTO\<close>
  moves the first user's file into the second user's home directory.\<close>

theorem rename_crosses_accounts:
  assumes "logged_in w" and "renameFrom w = p" and "p \<noteq> []"
    and "u \<noteq> []" and "\<not> allowAnonymous (ctx w)"
    and "authenticate u pw (auth (ctx w))" and "attemptsOf (auth (ctx w)) (clientIp w) < 5"
    and "isSafeFilename n" and "hd n \<noteq> CHR ''/''" and "hd n \<noteq> CHR 0x5C"
  shows "\<exists>w'. bind_outcome (bind_outcome (handle_command os ''USER'' u w)
         (handle_command os ''PASS'' pw)) (handle_command os ''RNTO'' n) = Done w' \<and>
     Ev_rename p (rootDir (ctx w) @ [CHR 0x5C] @ u @ [CHR 0x5C] @ normalise n) \<in> set (trace w')"
proof -
  have lim: "\<not> fst (isRateLimited now (clientIp w) (auth (ctx w)))" for now
    using assms(7) lim.not_refused_below_limit by (simp add: kMaxAttempts_def)
  have n: "n \<noteq> []" "hd (normalise n) \<noteq> CHR 0x5C"
    using assms(8-10) by (auto simp: isSafeFilename_def normalise_def hd_map)
  let ?w1 = "handleUser os u w"
  let ?w2 = "handlePass os pw ?w1"
  have w1: "sstate ?w1 = WAIT_PASS" "username ?w1 = u" "renameFrom ?w1 = p" "ctx ?w1 = ctx w"
      "clientIp ?w1 = clientIp w"
    using assms by (simp_all add: handleUser_def session_steps)
  have w2: "sstate ?w2 = READY" "renameFrom ?w2 = p" "rootDir (ctx ?w2) = rootDir (ctx w)"
      "userRootDir ?w2 = rootDir (ctx w) @ [CHR 0x5C] @ u" "currentDir ?w2 = userRootDir ?w2"
    using w1 lim assms(6) by (simp_all add: handlePass_def enter_home_def session_steps)
  have r: "resolvePath n ?w2 = rootDir (ctx w) @ [CHR 0x5C] @ u @ [CHR 0x5C] @ normalise n"
    using n w2 by (simp add: resolvePath_def Let_def)
  have "isWithinRoot (resolvePath n ?w2) ?w2"
    using w2 by (intro isWithinRoot_below resolvePath_below) simp
  with r w2 assms(3,8) show ?thesis
    by (simp add: handle_command_def dispatch_def handleRnto_def session_steps)
qed

definition ann_world :: world where
  "ann_world = waiting_world\<lparr>sstate := READY, userRootDir := ''ftproot'' @ [CHR 0x5C] @ ''ann'',
     currentDir := ''ftproot'' @ [CHR 0x5C] @ ''ann''\<rparr>"

lemma ann_inside: "inside ann_world" "logged_in ann_world"
  by (auto simp: inside_def logged_in_def ann_world_def waiting_world_def greeted_def new_session_def
      session_steps home_def demo_context_def)

theorem rename_crosses_accounts_witness:
  "\<exists>w'. bind_outcome (bind_outcome
         (handle_command demo_os ''USER'' ''bob'' (ann_world\<lparr>renameFrom := ''secret.txt''\<rparr>))
         (handle_command demo_os ''PASS'' ''secret'')) (handle_command demo_os ''RNTO'' ''got.txt'') = Done w' \<and>
     Ev_rename ''secret.txt''
       (rootDir (ctx (ann_world\<lparr>renameFrom := ''secret.txt''\<rparr>)) @ [CHR 0x5C] @ ''bob'' @ [CHR 0x5C] @
         normalise ''got.txt'') \<in> set (trace w')"
  by (rule rename_crosses_accounts)
     (simp_all add: logged_in_def ann_world_def waiting_world_def greeted_def new_session_def
       session_steps demo_context_def authenticate_def attemptsOf_def new_auth_def isSafeFilename_def)

end
