(* ===== verification/Session_Commands.thy ===== *)
theory Session_Commands
  imports Session_Login
begin

text \<open>
  What the commands of a logged-in session do: how a command line is cut, moving between
  directories, \<open>PORT\<close>, \<open>REST\<close>, the file commands and the two transfers.
\<close>

section \<open>Command lines\<close>

lemma cleanCommand_line:
  assumes "s \<noteq> []" and "last s \<noteq> carriage_return" and "last s \<noteq> newline"
    and "hd s \<noteq> CHR '' ''" and "hd s \<noteq> CHR 0x09"
  shows "cleanCommand (s @ [carriage_return, newline]) = s"
proof -
  have "strip_trailing (\<lambda>c. c = carriage_return \<or> c = newline) (s @ [carriage_return, newline]) =
      strip_trailing (\<lambda>c. c = carriage_return \<or> c = newline) s"
    by (rule strip_trailing_append) simp
  also have "\<dots> = s" using assms(2,3) by (intro strip_trailing_id) simp
  finally have "strip_trailing (\<lambda>c. c = carriage_return \<or> c = newline) (s @ [carriage_return, newline]) = s" .
  with assms show ?thesis by (cases s) (simp_all add: cleanCommand_def)
qed

text \<open>A verb of letters, a space, an argument and the line end.\<close>

lemma process_line:
  assumes "verb \<noteq> []" and "CHR '' '' \<notin> set verb" and "hd verb \<noteq> CHR 0x09"
    and "arg \<noteq> []" and "last arg \<noteq> carriage_return" and "last arg \<noteq> newline"
    and "length verb + length arg \<le> 509"
  shows "process os (verb @ CHR '' '' # arg @ [carriage_return, newline]) w =
     handle_command os (map toupper verb) arg w"
proof -
  let ?s = "verb @ CHR '' '' # arg"
  have "hd ?s \<noteq> CHR '' ''" "hd ?s \<noteq> CHR 0x09"
    using assms(1-3) by (cases verb; auto)+
  then have "cleanCommand (?s @ [carriage_return, newline]) = ?s"
    using assms by (intro cleanCommand_line) auto
  then have clean: "cleanCommand (verb @ CHR '' '' # arg @ [carriage_return, newline]) = ?s"
    by simp
  have "split_command ?s = (map toupper verb, arg)"
    using assms(2) by (simp add: split_command_def find_char_append)
  with clean assms(7) show ?thesis
    by (simp add: process_def MAX_CMD_LENGTH_def)
qed

text \<open>A verb alone.\<close>

lemma process_bare:
  assumes "verb \<noteq> []" and "CHR '' '' \<notin> set verb" and "hd verb \<noteq> CHR 0x09" and "length verb \<le> 510"
    and "last verb \<noteq> carriage_return" and "last verb \<noteq> newline"
  shows "process os (verb @ [carriage_return, newline]) w = handle_command os (map toupper verb) [] w"
proof -
  have "hd verb \<noteq> CHR '' ''" using assms(1,2) by (cases verb) auto
  then have "cleanCommand (verb @ [carriage_return, newline]) = verb"
    using assms by (intro cleanCommand_line) auto
  moreover have "split_command verb = (map toupper verb, [])"
    using assms(2) find_char_None[of "CHR '' ''" verb] by (simp add: split_command_def)
  ultimately show ?thesis using assms(1,4) by (simp add: process_def MAX_CMD_LENGTH_def)
qed

text \<open>Only the line end of a received block is looked at: two commands that arrive together are taken
  as one, whose argument contains the line break and the whole second command.\<close>

theorem pipelined_commands_merge:
  assumes "verb \<noteq> []" and "CHR '' '' \<notin> set verb" and "hd verb \<noteq> CHR 0x09"
    and "next_line \<noteq> []" and "last next_line \<noteq> carriage_return" and "last next_line \<noteq> newline"
    and "length verb + length arg + length next_line \<le> 507"
  shows "process os (verb @ CHR '' '' # arg @ [carriage_return, newline] @ next_line @ [carriage_return, newline]) w =
     handle_command os (map toupper verb) (arg @ [carriage_return, newline] @ next_line) w"
  using process_line[of verb "arg @ [carriage_return, newline] @ next_line" os w] assms by simp

theorem pipelined_commands_merge_witness:
  "process demo_os (''USER'' @ CHR '' '' # ''ann'' @ [carriage_return, newline] @ ''PASS pw'' @ [carriage_return, newline])
     (greeted demo_os 9 ''10.0.0.1'' demo_context []) =
   handle_command demo_os (map toupper ''USER'') (''ann'' @ [carriage_return, newline] @ ''PASS pw'')
     (greeted demo_os 9 ''10.0.0.1'' demo_context [])"
  by (rule pipelined_commands_merge) simp_all

text \<open>A line longer than the buffer is cut, not dropped: its first 513 bytes are answered with 500 and
  whatever follows is executed as a command of its own.\<close>

theorem oversized_line_tail_is_executed:
  assumes "sstate w \<noteq> CLOSED" and "ctl_in w = ((junk @ tail) # segs, e)"
    and "length junk = 513" and "tail \<noteq> []" and "length tail \<le> 513"
  shows "session_loop os w =
     bind_outcome
       (process os tail (sendReply os ''500 Command too long'' (w\<lparr>ctl_in := (segs, e)\<rparr>)))
       (session_loop os)"
proof -
  have junk: "junk @ tail \<noteq> []" "take 513 (junk @ tail) = junk" "drop 513 (junk @ tail) = tail"
    "\<not> length (junk @ tail) \<le> 513" "junk \<noteq> []"
    using assms(3,4) by (cases tail, auto)
  then have r1: "recvCommand w = (Some junk, w\<lparr>ctl_in := (tail # segs, e)\<rparr>)"
    using assms(2) by (simp add: recvCommand_def MAX_CMD_LENGTH_def)
  let ?w1 = "w\<lparr>ctl_in := (tail # segs, e)\<rparr>"
  let ?w2 = "sendReply os ''500 Command too long'' ?w1"
  have p1: "process os junk ?w1 = Done ?w2"
    using assms(3) by (simp add: process_def MAX_CMD_LENGTH_def)
  have r2: "recvCommand ?w2 = (Some tail, ?w2\<lparr>ctl_in := (segs, e)\<rparr>)"
    using assms(4,5) by (simp add: recvCommand_def MAX_CMD_LENGTH_def session_steps)
  have w2: "?w2\<lparr>ctl_in := (segs, e)\<rparr> = sendReply os ''500 Command too long'' (w\<lparr>ctl_in := (segs, e)\<rparr>)"
    "sstate ?w2 \<noteq> CLOSED"
    using assms(1) by (simp_all add: session_steps)
  have "session_loop os w = bind_outcome (process os junk ?w1) (session_loop os)"
    using assms(1) r1 junk(5) by (subst session_loop.simps) simp
  also have "\<dots> = session_loop os ?w2" by (simp add: p1)
  also have "\<dots> = bind_outcome (process os tail (?w2\<lparr>ctl_in := (segs, e)\<rparr>)) (session_loop os)"
    using r2 w2(2) assms(4) by (subst session_loop.simps) simp
  finally show ?thesis by (simp only: w2(1))
qed

theorem oversized_line_tail_is_executed_witness:
  "session_loop demo_os (ann_world\<lparr>ctl_in := ((replicate 513 CHR ''x'' @ ''DELE f'') # [], Peer_closes)\<rparr>) =
     bind_outcome
       (process demo_os ''DELE f'' (sendReply demo_os ''500 Command too long''
          ((ann_world\<lparr>ctl_in := ((replicate 513 CHR ''x'' @ ''DELE f'') # [], Peer_closes)\<rparr>)\<lparr>ctl_in := ([], Peer_closes)\<rparr>)))
       (session_loop demo_os)"
  by (rule oversized_line_tail_is_executed) (simp add: ann_world_def, simp, rule length_replicate, simp, simp)

section \<open>Moving between directories\<close>

lemma denormalise_normalise:
  "CHR 0x5C \<notin> set a \<Longrightarrow> map (\<lambda>c. if c = CHR 0x5C then CHR ''/'' else c) (normalise a) = a"
  by (induction a) (auto simp: normalise_def)

text \<open>After \<open>CWD\<close> to an absolute path that exists, \<open>PWD\<close> shows the path the client gave.\<close>

theorem pwd_shows_cwd:
  assumes "logged_in w" and "inside w"
    and "hd arg = CHR ''/''" and "arg \<noteq> []" and "CHR 0x5C \<notin> set arg"
    and "fst (isDirectory os (resolvePath arg w) (trace w))"
  shows "currentDir (handleCwd os arg w) = resolvePath arg w \<and>
     trace (handlePwd os (handleCwd os arg w)) = trace (handleCwd os arg w) @
       [Ev_send (socket w) (''257 '' @ [CHR 0x22] @ arg @ [CHR 0x22] @ '' is current directory'' @ [carriage_return, newline])]"
proof -
  from assms(3,4) have p: "resolvePath arg w = userRootDir w @ normalise arg"
    by (simp add: resolvePath_def normalise_def hd_map)
  have "length (normalise arg) > 0" using assms(4) by simp
  then show ?thesis
    using assms inside_resolvePath(2)[OF assms(2,1), of arg] p
    by (simp add: handleCwd_def handlePwd_def session_steps virtual_path_def denormalise_normalise)
qed

theorem pwd_shows_cwd_witness:
  "currentDir (handleCwd demo_os ''/pub/new'' ann_world) = resolvePath ''/pub/new'' ann_world \<and>
     trace (handlePwd demo_os (handleCwd demo_os ''/pub/new'' ann_world)) =
       trace (handleCwd demo_os ''/pub/new'' ann_world) @
       [Ev_send (socket ann_world) (''257 '' @ [CHR 0x22] @ ''/pub/new'' @ [CHR 0x22] @ '' is current directory'' @ [carriage_return, newline])]"
  by (rule pwd_shows_cwd[OF ann_inside(2,1)])
    (simp_all add: isDirectory_def resolvePath_def normalise_def demo_os_def demo_stat_def toupper_changes)

text \<open>\<open>CDUP\<close> undoes \<open>CWD\<close> to a subdirectory, and stays where it is in the home directory.\<close>

theorem cdup_undoes_cwd:
  assumes "logged_in w" and "inside w"
    and "d \<noteq> []" and "CHR ''/'' \<notin> set d" and "CHR 0x5C \<notin> set d"
    and "fst (isDirectory os (resolvePath d w) (trace w))"
  shows "currentDir (handleCwd os d w) = currentDir w @ [CHR 0x5C] @ d \<and>
     currentDir (handleCdup os (handleCwd os d w)) = currentDir w \<and>
     (currentDir w = userRootDir w \<longrightarrow> currentDir (handleCdup os w) = currentDir w)"
proof -
  let ?w1 = "handleCwd os d w"
  have n: "normalise d = d" using assms(4) by (induction d) (auto simp: normalise_def)
  have "hd d \<noteq> CHR 0x5C" using assms(3,5) hd_in_set by metis
  then have p: "resolvePath d w = currentDir w @ [CHR 0x5C] @ d"
    using n assms(3) by (simp add: resolvePath_def)
  have w1: "currentDir ?w1 = currentDir w @ [CHR 0x5C] @ d" "userRootDir ?w1 = userRootDir w"
    using assms inside_resolvePath(2)[OF assms(2,1), of d] p
    by (simp_all add: handleCwd_def session_steps)
  have b: "below (userRootDir w) (currentDir w)" using assms(1,2) by (simp add: inside_def)
  have "rfind_char CHR 0x5C (currentDir w @ [CHR 0x5C] @ d) = Some (length (currentDir w))"
    using assms(5) rfind_char_None[of "CHR 0x5C" d] by (simp add: rfind_char_append)
  moreover have "currentDir w @ [CHR 0x5C] @ d \<noteq> userRootDir w"
    using b by (auto simp: below_def)
  moreover have "isWithinRoot (currentDir w) ?w1"
    using w1(2) b by (intro isWithinRoot_below) simp
  ultimately have "currentDir (handleCdup os ?w1) = currentDir w"
    using w1 by (simp add: handleCdup_def sendReply_eq)
  moreover have "currentDir w = userRootDir w \<longrightarrow> currentDir (handleCdup os w) = currentDir w"
    by (simp add: handleCdup_def sendReply_eq split: option.split)
  ultimately show ?thesis using w1(1) by simp
qed

theorem cdup_undoes_cwd_witness:
  "currentDir (handleCwd demo_os ''sub'' ann_world) = currentDir ann_world @ [CHR 0x5C] @ ''sub'' \<and>
     currentDir (handleCdup demo_os (handleCwd demo_os ''sub'' ann_world)) = currentDir ann_world"
proof -
  have "fst (isDirectory demo_os (resolvePath ''sub'' ann_world) (trace ann_world))"
    by (simp add: isDirectory_def resolvePath_def normalise_def demo_os_def demo_stat_def toupper_changes)
  from cdup_undoes_cwd[OF ann_inside(2,1) _ _ _ this] show ?thesis by simp
qed

section \<open>Files by name\<close>

text \<open>C40. The root check never refuses anything: it compares text before any \<open>..\<close> is resolved, so for every
  argument the resolved path passes it, and \<open>DELE /../x\<close> asks the system to remove
  \<open>..\x\<close> relative to the user's own directory.\<close>

theorem dot_dot_is_not_refused:
  assumes "logged_in w" and "inside w" and "isSafeFilename n"
  shows "isWithinRoot (resolvePath arg w) w \<and>
     (\<exists>w'. handle_command os ''DELE'' (''/../'' @ n) w = Done w' \<and>
        Ev_remove (userRootDir w @ [CHR 0x5C] @ ''..'' @ [CHR 0x5C] @ normalise n) \<in> set (trace w'))"
proof -
  have a: "isSafeFilename (''/../'' @ n)" using assms(3) by (auto simp: isSafeFilename_def)
  have p: "resolvePath (''/../'' @ n) w = userRootDir w @ [CHR 0x5C] @ ''..'' @ [CHR 0x5C] @ normalise n"
    by (simp add: resolvePath_def normalise_def)
  have r: "isWithinRoot (resolvePath arg w) w" for arg
    using inside_resolvePath(2)[OF assms(2,1)] .
  have "handle_command os ''DELE'' (''/../'' @ n) w = Done (handleDele os (''/../'' @ n) w)"
    using assms(1) by (auto simp: handle_command_def dispatch_def logged_in_def)
  moreover have "Ev_remove (resolvePath (''/../'' @ n) w) \<in> set (trace (handleDele os (''/../'' @ n) w))"
    using a r[of "''/../'' @ n"] by (simp add: handleDele_def session_steps del: append_Cons append_Nil)
  ultimately show ?thesis using r p by simp
qed

theorem dot_dot_is_not_refused_witness:
  "isWithinRoot (resolvePath ''/../../etc'' ann_world) ann_world \<and>
     (\<exists>w'. handle_command demo_os ''DELE'' (''/../'' @ ''bob/f'') ann_world = Done w' \<and>
        Ev_remove (userRootDir ann_world @ [CHR 0x5C] @ ''..'' @ [CHR 0x5C] @ normalise ''bob/f'') \<in> set (trace w'))"
  by (rule dot_dot_is_not_refused[OF ann_inside(2,1)]) (simp add: isSafeFilename_def)

text \<open>\<open>RNFR\<close> then \<open>RNTO\<close> asks for exactly one rename, from the resolved source to the resolved
  target; the source is then forgotten, and a second \<open>RNTO\<close> is refused without a system call.\<close>

theorem rename_sequence:
  assumes "logged_in w" and "inside w" and "isSafeFilename a" and "isSafeFilename b"
    and "fst (pathExists os (resolvePath a w) (trace w))"
  shows "let w1 = handleRnfr os a w; w2 = handleRnto os b w1 in
     renameFrom w1 = resolvePath a w \<and>
     (\<exists>r. trace w2 = trace w1 @ [Ev_rename (resolvePath a w) (resolvePath b w), Ev_send (socket w) r]) \<and>
     renameFrom w2 = [] \<and>
     handleRnto os c w2 = sendReply os ''503 Send RNFR first'' w2"
proof -
  let ?w1 = "handleRnfr os a w"
  have w1: "?w1 = w\<lparr>renameFrom := resolvePath a w,
      trace := trace w @ [Ev_stat (resolvePath a w),
        Ev_send (socket w) (''350 Ready for destination name.'' @ [carriage_return, newline])]\<rparr>"
    using assms inside_resolvePath(2)[OF assms(2,1), of a]
    by (simp add: handleRnfr_def session_steps)
  have "resolvePath a w \<noteq> []"
  proof -
    have "home (ctx w) (userRootDir w)" "below (userRootDir w) (resolvePath a w)"
      using assms(1,2) resolvePath_below[of w a] by (simp_all add: inside_def)
    then show ?thesis by (auto simp: home_def below_def)
  qed
  moreover have "isWithinRoot (resolvePath b w) w"
    by (rule inside_resolvePath(2)[OF assms(2,1)])
  ultimately obtain r where w2: "handleRnto os b ?w1 = ?w1\<lparr>
      trace := trace ?w1 @ [Ev_rename (resolvePath a w) (resolvePath b w), Ev_send (socket w) r],
      renameFrom := []\<rparr>"
    using assms(4) by (cases "os_rename os (trace ?w1) (resolvePath a w) (resolvePath b w)")
      (simp_all add: w1 handleRnto_def session_steps)
  have "handleRnto os c (handleRnto os b ?w1) = sendReply os ''503 Send RNFR first'' (handleRnto os b ?w1)"
    unfolding w2 by (simp add: handleRnto_def)
  moreover have "renameFrom ?w1 = resolvePath a w" by (simp add: w1)
  ultimately show ?thesis unfolding Let_def w2 by simp
qed

theorem rename_sequence_witness:
  "let w1 = handleRnfr demo_os ''A.TXT'' ann_world; w2 = handleRnto demo_os ''B.TXT'' w1 in
     renameFrom w1 = resolvePath ''A.TXT'' ann_world \<and>
     (\<exists>r. trace w2 = trace w1 @ [Ev_rename (resolvePath ''A.TXT'' ann_world) (resolvePath ''B.TXT'' ann_world),
        Ev_send (socket ann_world) r]) \<and>
     renameFrom w2 = [] \<and>
     handleRnto demo_os ''C.TXT'' w2 = sendReply demo_os ''503 Send RNFR first'' w2"
  by (rule rename_sequence[OF ann_inside(2,1)])
     (simp_all add: isSafeFilename_def pathExists_def demo_os_def)

section \<open>PORT\<close>

lemma parse_no_digits:
  assumes "\<forall>c\<in>set temp \<union> set arg. \<not> is_digit c" and "idx < 6"
  shows "parse_numbers arg nums idx temp = Inl Invalid_argument"
proof -
  have stoi: "stoi t = Inl Invalid_argument" if "\<forall>c\<in>set t. \<not> is_digit c" for t
  proof -
    have n: "\<forall>c\<in>set (dropWhile is_space t). \<not> is_digit c" using that by (meson set_dropWhileD)
    have none: "takeWhile is_digit u = []" if "\<forall>c\<in>set u. \<not> is_digit c" for u
      using that by (cases u) auto
    have tl: "\<forall>c\<in>set (tl u). \<not> is_digit c" if "\<forall>c\<in>set u. \<not> is_digit c" for u
      using that by (cases u) auto
    from n none tl[OF n] show ?thesis by (simp add: stoi_def Let_def)
  qed
  show ?thesis using assms(1)
  proof (induction arg arbitrary: temp)
    case Nil
    then show ?case by (simp add: store_num_def stoi)
  next
    case (Cons c cs)
    then show ?case by (auto simp: store_num_def stoi)
  qed
qed

text \<open>A \<open>PORT\<close> argument without a digit, or none at all, throws out of the handler, and nothing in the
  session catches it: the exception ends \<open>run\<close> in the state the command found.\<close>

theorem bad_port_ends_session:
  assumes "logged_in w" and "\<forall>c\<in>set arg. \<not> is_digit c"
  shows "handle_command os ''PORT'' arg w = Throws Invalid_argument w \<and>
     process os (''PORT'' @ [carriage_return, newline]) w = Throws Invalid_argument w"
proof -
  have t: "handle_command os ''PORT'' a w = Throws Invalid_argument w"
    if "\<forall>c\<in>set a. \<not> is_digit c" for a
    using assms(1) that parse_no_digits[of "[]" a 0 "replicate 6 0"]
    by (auto simp: handle_command_def dispatch_def logged_in_def handlePort_def parsePortCommand_def)
  have c: "cleanCommand (''PORT'' @ [carriage_return, newline]) = ''PORT''"
    by (rule cleanCommand_line) simp_all
  have "split_command ''PORT'' = (''PORT'', [])"
    by (simp add: split_command_def toupper_def)
  with c t[OF assms(2)] t[of "[]"] show ?thesis
    by (simp add: process_def MAX_CMD_LENGTH_def del: append_Cons append_Nil)
qed

theorem bad_port_ends_session_witness:
  "handle_command demo_os ''PORT'' ''here'' ann_world = Throws Invalid_argument ann_world \<and>
     process demo_os (''PORT'' @ [carriage_return, newline]) ann_world = Throws Invalid_argument ann_world"
  by (rule bad_port_ends_session[OF ann_inside(2)]) (simp add: is_digit_def)

end
