(* ===== verification/Session_Transfers.thy ===== *)
theory Session_Transfers
  imports Session_Commands
begin

text \<open>
  Transfers as the client sees them: where \<open>PORT\<close> sends the data connection, what \<open>REST\<close>
  remembers, a complete resumed download, and the size limit of uploads.
\<close>

section \<open>The address of the data connection\<close>

text \<open>The check of \<open>PORT\<close> against privileged ports can be evaded: the six numbers are not limited to
  bytes, a port of 65536 or more passes the check, and the connection is then made to the port
  modulo 65536, at any address the client names.\<close>

theorem port_check_wraps:
  assumes "\<forall>v\<in>{a, b, c, d}. int32 v" and "0 \<le> q" and "q < 65536"
    and "logged_in w"
  shows "\<exists>w'. handle_command os ''PORT'' (six_numbers a b c d 256 q) w = Done w' \<and>
     (\<exists>fd r. Ev_connect fd (int_str a @ ''.'' @ int_str b @ ''.'' @ int_str c @ ''.'' @ int_str d) (word_of_int q) r \<in>
       set (snd (snd (open_data os (dataChannel w') (trace w')))))"
proof -
  let ?ip = "int_str a @ ''.'' @ int_str b @ ''.'' @ int_str c @ ''.'' @ int_str d"
  have "int32 256" "int32 q" "int32 65536" "int32 (65536 + q)" using assms(2,3) by (simp_all add: int32_def)
  with assms(1) have p: "parsePortCommand (six_numbers a b c d 256 q) = Inr (?ip, 65536 + q)"
    by (simp add: parsePortCommand_def parse_six_numbers host_port_def)
  let ?w' = "sendReply os ''200 PORT command successful''
    (w\<lparr>dataChannel := fst (enterActive os ?ip (65536 + q) (dataChannel w) (trace w)),
       trace := snd (enterActive os ?ip (65536 + q) (dataChannel w) (trace w))\<rparr>)"
  have "handle_command os ''PORT'' (six_numbers a b c d 256 q) w = Done ?w'"
    using assms(2,4) p
    by (auto simp: handle_command_def dispatch_def logged_in_def handlePort_def Let_def split_beta)
  moreover have dc: "dataChannel ?w' = fst (enterActive os ?ip (65536 + q) (dataChannel w) (trace w))"
    by (simp add: sendReply_eq)
  have "activeIp (dataChannel ?w') = ?ip" "activePort (dataChannel ?w') = 65536 + q"
      "\<not> usePassive (dataChannel ?w')"
    unfolding dc by (simp_all add: enterActive_def split_beta)
  moreover have "(word_of_int (65536 + q) :: 16 word) = word_of_int q"
    by (simp add: word_of_int_eq_iff take_bit_eq_mod)
  ultimately show ?thesis
    by (auto simp: open_data_def connectSocket_def Let_def split_beta)
qed

theorem port_check_wraps_witness:
  "\<exists>w'. handle_command demo_os ''PORT'' (six_numbers 127 0 0 1 256 22) ann_world = Done w' \<and>
     (\<exists>fd r. Ev_connect fd (int_str 127 @ ''.'' @ int_str 0 @ ''.'' @ int_str 0 @ ''.'' @ int_str 1) (word_of_int 22) r \<in>
       set (snd (snd (open_data demo_os (dataChannel w') (trace w')))))"
  by (rule port_check_wraps) (simp_all add: ann_inside int32_def)

section \<open>REST\<close>

lemma rest_offset_digits:
  "\<forall>c\<in>set s. is_digit c \<Longrightarrow> rest_offset s (word_of_nat n) = Some (word_of_nat (foldl (\<lambda>a c. a * 10 + digit_val c) n s))"
proof (induction s arbitrary: n)
  case (Cons c cs)
  have eq: "word_of_nat n * 10 + word_of_nat (digit_val c) = (word_of_nat (n * 10 + digit_val c) :: 64 word)"
    by simp
  have "rest_offset (c # cs) (word_of_nat n) = rest_offset cs (word_of_nat n * 10 + word_of_nat (digit_val c))"
    using Cons.prems by simp
  also have "\<dots> = Some (word_of_nat (foldl (\<lambda>a c. a * 10 + digit_val c) (n * 10 + digit_val c) cs))"
    unfolding eq using Cons.prems by (intro Cons.IH) simp
  finally show ?case by simp
qed simp

lemma rest_offset_nat_str: "rest_offset (nat_str n) 0 = Some (word_of_nat n)"
  using rest_offset_digits[of "nat_str n" 0] nat_str_digits dec_nat_str[of n] by (simp add: dec_def)

lemma handleRest_nat_str:
  "handleRest os (nat_str n) w =
     sendReply os (''350 Restarting at '' @ nat_str (unat (word_of_nat n :: 64 word)) @ ''. Send RETR or STOR.'')
       (w\<lparr>restartOffset := word_of_nat n\<rparr>)"
  by (simp add: handleRest_def rest_offset_nat_str nat_str_nonempty)

text \<open>\<open>REST\<close> followed by a decimal number sets the offset to that number modulo \<open>2 ^ 64\<close>, and the reply
  shows the offset that was set, so an offset that does not fit is visible to the client and
  nothing else of the session changes.\<close>

theorem rest_sets_offset:
  "handleRest os (nat_str n) w =
     w\<lparr>restartOffset := word_of_nat n,
       trace := trace w @ [Ev_send (socket w)
         (''350 Restarting at '' @ nat_str (n mod 2 ^ 64) @ ''. Send RETR or STOR.'' @ [carriage_return, newline])]\<rparr>"
  by (simp add: handleRest_nat_str sendReply_eq unat_of_nat take_bit_eq_mod)

section \<open>A resumed download\<close>

lemma open_data_passive:
  assumes "usePassive dc" and "\<forall>h. os_accept os h (passiveSocket dc) = Accepted ds" and "0 \<le> ds"
  shows "\<exists>dc' es. open_data os dc h = (Some ds, dc', h @ es) \<and> (\<forall>s. sent_on s es = [])"
  using assms
  by (auto simp: open_data_def acceptConnection_def closePassive_def ms_close_def closeSocket_def
      toPosix_def fromPosix_def Let_def)

lemma after_check_file:
  assumes "\<forall>h. os_stat os h p = Some st" and "\<not> st_dir st"
  shows "\<not> fst (not_a_file os p w) \<and>
     after_check os p w = w\<lparr>trace := trace w @ [Ev_stat p, Ev_stat p]\<rparr>"
  using assms by (simp add: not_a_file_def after_check_def sys_def platform_defs)

lemma retr_transfer:
  assumes "usePassive (dataChannel w)"
    and "\<forall>h. os_accept os h (passiveSocket (dataChannel w)) = Accepted ds" and "0 \<le> ds" and "ds \<noteq> socket w"
    and "\<forall>h. \<not> os_open os h p" and "\<forall>h. os_fopen os h p ''rb''" and "\<forall>h. os_content os h p = content"
    and "\<forall>h d. 0 \<le> os_send os h ds d" and "sint (restartOffset w) = int n"
  shows "\<exists>w'. with_data os msg (retr_body os p) w = Done w' \<and>
     concat (sent_on ds (trace w')) = concat (sent_on ds (trace w)) @ drop n content \<and> restartOffset w' = 0"
proof -
  let ?h0 = "trace w @ [Ev_send (socket w) (msg @ [carriage_return, newline])]"
  obtain dc' es where o: "open_data os (dataChannel w) ?h0 = (Some ds, dc', ?h0 @ es)" "sent_on ds es = []"
    using open_data_passive[OF assms(1-3), of ?h0] by blast
  obtain res rl es' where s: "sendFile os ds p (restartOffset w) (rateLimiter w) (?h0 @ es) = (res, rl, ?h0 @ es @ es')"
      "concat (sent_on ds es') = drop n content"
    using sendFile_complete[of os "?h0 @ es" p ds "restartOffset w" "rateLimiter w"] assms(5-9) by auto
  let ?w1 = "w\<lparr>dataChannel := dc', trace := ?h0 @ es\<rparr>"
  obtain w2 where b: "retr_body os p ds ?w1 = Done w2" and w2: "restartOffset w2 = 0"
      "\<exists>r. trace w2 = ?h0 @ es @ es' @ [Ev_send (socket w) r]"
    using s(1) by (auto simp: retr_body_def Let_def sendReply_eq count_bytes_def)
  have "ms_valid ds" using assms(3) by (simp add: ms_valid_def kInvalidSocket_def)
  with o(1) b have d: "with_data os msg (retr_body os p) w = Done (w2\<lparr>trace := snd (ms_close os ds (trace w2))\<rparr>)"
    by (simp add: with_data_def sendReply_eq sys_def Let_def split_beta)
  from w2(2) obtain r where "trace w2 = ?h0 @ es @ es' @ [Ev_send (socket w) r]" by blast
  then have "concat (sent_on ds (trace w2)) = concat (sent_on ds (trace w)) @ drop n content"
    using s(2) o(2) assms(4) by simp
  with d w2(1) show ?thesis by (simp add: ms_close_simps)
qed

text \<open>\<open>REST n\<close> then \<open>RETR f\<close>: when the file exists, the peer connects, the system cannot send without
  copying and no \<open>send\<close> fails, the data connection carries exactly the file from byte \<open>n\<close> on,
  and the offset is used up.\<close>

theorem resumed_retr_sends_rest_of_file:
  assumes "logged_in w" and "inside w" and "isSafeFilename f" and "n < 2 ^ 63"
    and "\<forall>h. os_stat os h (resolvePath f w) = Some st" and "\<not> st_dir st"
    and "usePassive (dataChannel w)"
    and "\<forall>h. os_accept os h (passiveSocket (dataChannel w)) = Accepted ds" and "0 \<le> ds" and "ds \<noteq> socket w"
    and "\<forall>h. \<not> os_open os h (resolvePath f w)" and "\<forall>h. os_fopen os h (resolvePath f w) ''rb''"
    and "\<forall>h. os_content os h (resolvePath f w) = content"
    and "\<forall>h d. 0 \<le> os_send os h ds d"
  shows "\<exists>w'. handleRetr os f (handleRest os (nat_str n) w) = Done w' \<and>
     concat (sent_on ds (trace w')) = concat (sent_on ds (trace w)) @ drop n content \<and>
     restartOffset w' = 0"
proof -
  let ?p = "resolvePath f w"
  let ?w1 = "handleRest os (nat_str n) w"
  obtain r where w1: "?w1 = w\<lparr>restartOffset := word_of_nat n, trace := trace w @ [Ev_send (socket w) r]\<rparr>"
    using handleRest_nat_str[of os n w] by (simp add: sendReply_eq)
  let ?w2 = "after_check os ?p ?w1"
  have w2: "\<not> fst (not_a_file os ?p ?w1)"
    "?w2 = w\<lparr>restartOffset := word_of_nat n, trace := trace w @ [Ev_send (socket w) r, Ev_stat ?p, Ev_stat ?p]\<rparr>"
    using after_check_file[OF assms(5,6), of ?w1] by (simp_all add: w1)
  have "sint (word_of_nat n :: 64 word) = int n"
    using assms(4) by (simp add: signed_of_nat signed_take_bit_int_eq_self)
  then obtain w' where "with_data os ''150 Opening data connection for RETR'' (retr_body os ?p) ?w2 = Done w'"
      "concat (sent_on ds (trace w')) = concat (sent_on ds (trace ?w2)) @ drop n content" "restartOffset w' = 0"
    using retr_transfer[of ?w2 os ds ?p content n "''150 Opening data connection for RETR''"] assms(7-14) by (auto simp: w2(2))
  moreover have "sent_on ds (trace ?w2) = sent_on ds (trace w)" using assms(10) by (simp add: w2(2))
  moreover have "resolvePath f ?w1 = ?p" "isWithinRoot ?p ?w1"
    using inside_resolvePath(2)[OF assms(2,1), of f] by (simp_all add: w1)
  ultimately show ?thesis
    using assms(3) w2(1) by (simp add: handleRetr_eq Let_def)
qed

definition passive_world :: world where
  "passive_world = ann_world\<lparr>dataChannel := new_channel\<lparr>usePassive := True, passiveSocket := 7\<rparr>\<rparr>"

lemma passive_inside: "inside passive_world" "logged_in passive_world"
  using ann_inside by (auto simp: passive_world_def inside_def logged_in_def)

lemma passive_world_simps:
  "usePassive (dataChannel passive_world)" "passiveSocket (dataChannel passive_world) = 7"
  "socket passive_world = 9" "restartOffset passive_world = 0"
  by (simp_all add: passive_world_def ann_world_def waiting_world_def greeted_def new_session_def session_steps)

lemma passive_world_path:
  "resolvePath ''A.TXT'' passive_world = ''ftproot'' @ [CHR 0x5C] @ ''ann'' @ [CHR 0x5C] @ ''A.TXT''"
  by (simp add: passive_world_def ann_world_def resolvePath_def normalise_def)

theorem resumed_retr_sends_rest_of_file_witness:
  "\<exists>w'. handleRetr demo_os ''A.TXT'' (handleRest demo_os (nat_str 6) passive_world) = Done w' \<and>
     concat (sent_on 8 (trace w')) = concat (sent_on 8 (trace passive_world)) @ drop 6 ''hello world'' \<and>
     restartOffset w' = 0"
proof (rule resumed_retr_sends_rest_of_file[OF passive_inside(2,1), where st = "demo_stat (resolvePath ''A.TXT'' passive_world)"])
  show "\<not> st_dir (demo_stat (resolvePath ''A.TXT'' passive_world))"
    unfolding passive_world_path by (simp add: demo_stat_def toupper_def)
qed (simp_all add: demo_os_def isSafeFilename_def passive_world_simps)

section \<open>The size limit of uploads\<close>


definition limited_world :: world where
  "limited_world = ann_world\<lparr>ctx := demo_context\<lparr>maxFileSizeBytes := 4\<rparr>\<rparr>"


end
