(* ===== verification/Session_Replies.thy ===== *)
theory Session_Replies
  imports Session_Runs
begin

text \<open>
  The reply discipline of the protocol: every command that returns has been answered on the
  control connection by one final reply (2xx to 5xx), which a transfer command may precede
  by one preliminary reply (1xx).
\<close>

section \<open>Well-formed answers\<close>

definition final_reply :: "string \<Rightarrow> bool" where
  "final_reply r \<longleftrightarrow> r \<noteq> [] \<and> hd r \<in> {CHR ''2'', CHR ''3'', CHR ''4'', CHR ''5''} \<and>
     suffix [carriage_return, newline] r"

definition preliminary_reply :: "string \<Rightarrow> bool" where
  "preliminary_reply r \<longleftrightarrow> r \<noteq> [] \<and> hd r = CHR ''1'' \<and> suffix [carriage_return, newline] r"

definition proper_answer :: "string list \<Rightarrow> bool" where
  "proper_answer rs \<longleftrightarrow>
     (\<exists>f. final_reply f \<and> (rs = [f] \<or> (\<exists>p. preliminary_reply p \<and> rs = [p, f])))"

text \<open>What a command sent on the control socket.\<close>

definition answered :: "world \<Rightarrow> world \<Rightarrow> bool" where
  "answered w w' \<longleftrightarrow> (\<exists>rs. sent_on (socket w) (trace w') = sent_on (socket w) (trace w) @ rs \<and> proper_answer rs)"

definition silent :: "world \<Rightarrow> world \<Rightarrow> bool" where
  "silent w w1 \<longleftrightarrow> socket w1 = socket w \<and> sent_on (socket w) (trace w1) = sent_on (socket w) (trace w)"

lemma answered_reply:
  assumes "silent w w1" and "r \<noteq> []" and "hd r \<in> {CHR ''2'', CHR ''3'', CHR ''4'', CHR ''5''}"
    and "socket w' = socket w" and "trace w' = trace (sendReply os r w1)"
  shows "answered w w'"
  using assms
  by (auto simp: answered_def silent_def sendReply_eq proper_answer_def final_reply_def suffix_def
      intro!: exI[of _ "[r @ [carriage_return, newline]]"])

lemma answered_sendReply:
  "silent w w1 \<Longrightarrow> r \<noteq> [] \<Longrightarrow> hd r \<in> {CHR ''2'', CHR ''3'', CHR ''4'', CHR ''5''} \<Longrightarrow>
     answered w (sendReply os r w1)"
  by (rule answered_reply) (auto simp: silent_def sendReply_eq)

lemma silent_simps [simp]:
  "silent w w"
  "silent w (w1\<lparr>currentDir := d\<rparr>) = silent w w1" "silent w (w1\<lparr>renameFrom := d\<rparr>) = silent w w1"
  "silent w (w1\<lparr>restartOffset := off\<rparr>) = silent w w1" "silent w (w1\<lparr>sstate := st\<rparr>) = silent w w1"
  "silent w (w1\<lparr>username := u\<rparr>) = silent w w1" "silent w (w1\<lparr>userRootDir := r\<rparr>) = silent w w1"
  "silent w (w1\<lparr>ctx := c\<rparr>) = silent w w1"
  by (simp_all add: silent_def)

lemma answered_update [simp]:
  "answered w (w1\<lparr>sstate := st\<rparr>) = answered w w1"
  "answered w (w1\<lparr>renameFrom := d\<rparr>) = answered w w1"
  by (simp_all add: answered_def)

lemma silent_calls [simp]:
  "silent w w1 \<Longrightarrow> silent w (snd (sys (isDirectory os p) w1))"
  "silent w w1 \<Longrightarrow> silent w (snd (sys (pathExists os p) w1))"
  "silent w w1 \<Longrightarrow> silent w (snd (sys (deleteFile os p) w1))"
  "silent w w1 \<Longrightarrow> silent w (snd (sys (createDir os p) w1))"
  "silent w w1 \<Longrightarrow> silent w (snd (sys (removeDir os p) w1))"
  "silent w w1 \<Longrightarrow> silent w (snd (sys (renameFile os p q) w1))"
  "silent w w1 \<Longrightarrow> silent w (snd (sys (getFileModTime os p) w1))"
  "silent w w1 \<Longrightarrow> silent w (snd (sys (listDirectory os p) w1))"
  by (simp_all add: silent_def sys_def Let_def split_beta platform_defs trace_simps)

lemma silent_check [simp]: "silent w w1 \<Longrightarrow> silent w (snd (not_a_file os p w1))"
  by (simp add: not_a_file_def Let_def split_beta)

lemma silent_home [simp]: "silent w w1 \<Longrightarrow> silent w (enter_home os w1)"
  by (simp add: enter_home_def Let_def split_beta)

section \<open>Commands without a data connection\<close>

lemma handlers_answer:
  "answered w (handleUser os arg w)" "answered w (handlePass os arg w)" "answered w (handleQuit os w)"
  "answered w (handleFeat os w)" "answered w (handleSyst os w)" "answered w (handleType os arg w)"
  "answered w (handlePwd os w)" "answered w (handleCwd os arg w)"
  "answered w (handleSize os arg w)" "answered w (handleMdtm os arg w)"
  "answered w (handleDele os arg w)" "answered w (handleMkd os arg w)" "answered w (handleRmd os arg w)"
  "answered w (handleRnfr os arg w)" "answered w (handleRnto os arg w)" "answered w (handleRest os arg w)"
  by (auto simp: handleUser_def handlePass_def handleQuit_def handleFeat_def handleSyst_def handleType_def
      handlePwd_def handleCwd_def handleSize_def handleMdtm_def handleDele_def handleMkd_def
      handleRmd_def handleRnfr_def handleRnto_def handleRest_def Let_def split_beta
      split: option.split intro!: answered_sendReply)

lemma handleCdup_answers: "answered w (handleCdup os w)"
  by (auto simp: handleCdup_def Let_def split: option.split intro!: answered_sendReply)

lemma handlePasv_answers: "answered w (handlePasv os w)"
proof -
  have "silent w (w\<lparr>dataChannel := dc, trace := snd (snd (enterPassive os (dataChannel w) (trace w)))\<rparr>)" for dc
    by (simp add: silent_def trace_simps)
  then show ?thesis
    by (auto simp: handlePasv_def Let_def split_beta pasvResponse_def intro!: answered_sendReply)
qed

lemma handlePort_answers: "handlePort os arg w = Done w' \<Longrightarrow> answered w w'"
proof -
  have "silent w (w\<lparr>dataChannel := dc, trace := snd (enterActive os ip port (dataChannel w) (trace w))\<rparr>)" for dc ip port
    by (simp add: silent_def trace_simps)
  then show "handlePort os arg w = Done w' \<Longrightarrow> answered w w'"
    by (auto simp: handlePort_def Let_def split_beta split: sum.splits if_splits intro!: answered_sendReply)
qed

section \<open>Commands with a data connection\<close>

text \<open>The system never hands out the descriptor of the control connection a second time.\<close>

definition fresh_sockets :: "os \<Rightarrow> handle \<Rightarrow> bool" where
  "fresh_sockets os s \<longleftrightarrow> (\<forall>h. os_socket os h \<noteq> s) \<and> (\<forall>h l. os_accept os h l \<noteq> Accepted s)"

lemma open_data_fresh:
  assumes "fresh_sockets os s" and "fst (open_data os dc h) = Some ds" and "ms_valid ds"
  shows "ds \<noteq> s"
  using assms
  by (auto simp: open_data_def acceptConnection_def connectSocket_def fresh_sockets_def fromPosix_def
      ms_valid_def Let_def split_beta split: if_splits accept_result.splits)

definition finished :: "world \<Rightarrow> world \<Rightarrow> bool" where
  "finished w w' \<longleftrightarrow> socket w' = socket w \<and>
     (\<exists>f. final_reply f \<and> sent_on (socket w) (trace w') = sent_on (socket w) (trace w) @ [f])"

lemma finished_sendReply:
  assumes "silent w w1" and "r \<noteq> []" and "hd r \<in> {CHR ''2'', CHR ''3'', CHR ''4'', CHR ''5''}"
  shows "finished w (sendReply os r w1)"
  using assms by (auto simp: finished_def silent_def sendReply_eq final_reply_def suffix_def)

lemma finished_update [simp]: "finished w (w1\<lparr>sstate := st\<rparr>) = finished w w1"
  by (simp add: finished_def)

lemma silent_count [simp]: "silent w (count_bytes n w1) = silent w w1"
  by (simp add: silent_def)

lemma bodies_finish:
  assumes "ds \<noteq> socket w"
  shows "send_listing os line (d # ds') ds w = Done w' \<Longrightarrow> d = CHR ''2'' \<Longrightarrow> finished w w'"
    and "retr_body os p ds w = Done w' \<Longrightarrow> finished w w'"
    and "stor_body os p ds w = Done w' \<Longrightarrow> finished w w'"
proof -
  have l: "silent w (snd (sys (sendData os ds x) w1))" if "silent w w1" for w1 x
    using that assms by (simp add: silent_def sys_def sendData_def toPosix_def Let_def)
  show "send_listing os line (d # ds') ds w = Done w' \<Longrightarrow> d = CHR ''2'' \<Longrightarrow> finished w w'"
    by (auto simp: send_listing_def Let_def split_beta intro!: finished_sendReply l)
  have s: "sent_on (socket w) (snd (snd (sendFile os ds p off rl (trace w)))) = sent_on (socket w) (trace w)" for off rl
    using assms by (intro sendFile_quiet(2)) simp
  have "silent w (w\<lparr>sstate := a, rateLimiter := rl', trace := snd (snd (sendFile os ds p off rl (trace w))),
      restartOffset := 0\<rparr>)" for a rl' off rl
    by (simp add: silent_def s)
  then show "retr_body os p ds w = Done w' \<Longrightarrow> finished w w'"
    by (auto simp: retr_body_def Let_def split_beta transfer_report_def intro!: finished_sendReply)
  have "silent w (w\<lparr>sstate := a, rateLimiter := rl', trace := snd (snd (recvFile os ds p off rl m (trace w)))\<rparr>)"
    for a rl' off rl m
    by (simp add: silent_def trace_simps)
  then show "stor_body os p ds w = Done w' \<Longrightarrow> finished w w'"
    by (auto simp: stor_body_def Let_def split_beta transfer_report_def intro!: finished_sendReply
        split: option.splits if_splits)
qed

lemma with_data_answered:
  assumes f: "fresh_sockets os (socket w)" and s: "silent w0 w"
    and m: "msg \<noteq> []" "hd msg = CHR ''1''"
    and body: "\<And>ds w1 w2. ds \<noteq> socket w1 \<Longrightarrow> body ds w1 = Done w2 \<Longrightarrow> finished w1 w2"
    and r: "with_data os msg body w = Done w'"
  shows "answered w0 w'"
proof -
  let ?p = "msg @ [carriage_return, newline]"
  let ?h0 = "trace w @ [Ev_send (socket w) ?p]"
  obtain ds dc h where o: "open_data os (dataChannel w) ?h0 = (ds, dc, h)"
    by (cases "open_data os (dataChannel w) ?h0")
  let ?w1 = "w\<lparr>dataChannel := dc, trace := h\<rparr>"
  have h: "sent_on (socket w0) h = sent_on (socket w0) (trace w0) @ [?p]"
    using open_data_quiet(1)[of "socket w0" os "dataChannel w" ?h0] o s by (simp add: silent_def)
  have p: "preliminary_reply ?p" using m by (simp add: preliminary_reply_def suffix_def)
  have ok: "answered w0 w2" if "finished ?w1 w2" for w2
    using that h p s by (auto simp: finished_def answered_def proper_answer_def silent_def)
  from r o obtain s' where s': "ds = Some s'"
    by (cases ds) (auto simp: with_data_def sendReply_eq[of os msg])
  show ?thesis
  proof (cases "ms_valid s'")
    case False
    have "silent ?w1 ?w1" by simp
    from finished_sendReply[OF this, of "''425 Cannot open data connection''" os] False r o s'
    show ?thesis by (intro ok) (auto simp: with_data_def sendReply_eq[of os msg])
  next
    case True
    with r o s' obtain w2 where w2: "body s' ?w1 = Done w2" "w' = snd (sys (ms_close os s') w2)"
      by (auto simp: with_data_def sendReply_eq[of os msg] bind_outcome_simps)
    from open_data_fresh[OF f, of "dataChannel w" ?h0 s'] o s' True have "s' \<noteq> socket ?w1" by simp
    from ok[OF body[OF this w2(1)]] w2(2) show ?thesis
      by (simp add: answered_def sys_def Let_def split_beta ms_close_simps)
  qed
qed

definition answers :: "world \<Rightarrow> world outcome \<Rightarrow> bool" where
  "answers w m \<longleftrightarrow> (\<forall>w'. m = Done w' \<longrightarrow> answered w w')"

lemma answers_intros:
  "answered w w' \<Longrightarrow> answers w (Done w')"
  "(b \<Longrightarrow> answers w m) \<Longrightarrow> (\<not> b \<Longrightarrow> answers w m') \<Longrightarrow> answers w (if b then m else m')"
  by (simp_all add: answers_def)

lemma transfers_answer:
  assumes "fresh_sockets os (socket w)" and "silent w w1" and "msg \<noteq> []" and "hd msg = CHR ''1''"
  shows "answers w (with_data os msg (send_listing os line (CHR ''2'' # t)) w1)"
    and "answers w (with_data os msg (retr_body os p) w1)"
    and "answers w (with_data os msg (stor_body os p) w1)"
proof -
  have f: "fresh_sockets os (socket w1)" using assms(1,2) by (simp add: silent_def)
  show "answers w (with_data os msg (send_listing os line (CHR ''2'' # t)) w1)"
    unfolding answers_def
    by (intro allI impI, rule with_data_answered[OF f assms(2-4)]) (auto dest: bodies_finish(1))
  show "answers w (with_data os msg (retr_body os p) w1)"
    unfolding answers_def
    by (intro allI impI, rule with_data_answered[OF f assms(2-4)]) (auto dest: bodies_finish(2))
  show "answers w (with_data os msg (stor_body os p) w1)"
    unfolding answers_def
    by (intro allI impI, rule with_data_answered[OF f assms(2-4)]) (auto dest: bodies_finish(3))
qed

lemma dispatch_answers:
  assumes f: "fresh_sockets os (socket w)"
  shows "answers w (dispatch os verb arg w)"
proof -
  note sr = answered_sendReply[of w]
  have "answers w (handleList os w)" "answers w (handleNlst os w)"
    using f by (auto simp: handleList_def handleNlst_def intro: transfers_answer)
  moreover have "answers w (handleRetr os arg w)"
    unfolding handleRetr_eq Let_def after_check_def
    by (intro answers_intros sr transfers_answer[OF f]) simp_all
  moreover have "answers w (handleStor os arg w)"
    unfolding handleStor_def Let_def
    by (intro answers_intros sr transfers_answer[OF f]) simp_all
  moreover have "answers w (handlePort os arg w)"
    using handlePort_answers by (simp add: answers_def)
  moreover have "answered w (sendReply os (''502 Command not implemented: '' @ verb) w)"
    by (rule sr) simp_all
  ultimately show ?thesis
    unfolding dispatch_def
    by (intro answers_intros handlers_answer handleCdup_answers handlePasv_answers)
qed

text \<open>C3. Every command line that is not blank and whose handling returns is answered by exactly one final
  reply on the control connection, preceded by at most one preliminary reply; a blank line is
  ignored without any system call.\<close>

theorem every_command_is_answered:
  assumes "fresh_sockets os (socket w)" and "process os raw w = Done w'"
  shows "if cleanCommand raw = [] \<and> length raw \<le> MAX_CMD_LENGTH then w' = w
     else \<exists>rs. sent_on (socket w) (trace w') = sent_on (socket w) (trace w) @ rs \<and> proper_answer rs"
proof -
  have ok: "answered w (sendReply os ''200 OK'' w)" "answered w (sendReply os ''530 Please login first'' w)"
    "answered w (sendReply os ''500 Command too long'' w)"
    by (rule answered_sendReply; simp)+
  have "answers w (handle_command os verb arg w)" for verb arg
    unfolding handle_command_def
    by (intro answers_intros handlers_answer ok dispatch_answers[OF assms(1)])
  with ok assms(2) show ?thesis
    by (auto simp: process_def Let_def split_beta answered_def answers_def split: if_splits)
qed

lemma demo_fresh: "fresh_sockets demo_os 9"
  by (simp add: fresh_sockets_def demo_os_def)

theorem every_command_is_answered_witness:
  "\<exists>rs. sent_on 9 (trace (handleSyst demo_os (greeted demo_os 9 ''10.0.0.1'' demo_context []\<lparr>sstate := READY\<rparr>))) =
     sent_on 9 (trace (greeted demo_os 9 ''10.0.0.1'' demo_context [])) @ rs \<and> proper_answer rs"
proof -
  let ?w = "greeted demo_os 9 ''10.0.0.1'' demo_context []\<lparr>sstate := READY\<rparr>"
  have c: "cleanCommand (''SYST'' @ [carriage_return, newline]) = ''SYST''"
    by (simp add: cleanCommand_def)
  have s: "split_command ''SYST'' = (''SYST'', [])"
    by (simp add: split_command_def toupper_def)
  have "process demo_os (''SYST'' @ [carriage_return, newline]) ?w = Done (handleSyst demo_os ?w)"
    using c s by (simp add: process_def MAX_CMD_LENGTH_def handle_command_def dispatch_def del: append_Cons append_Nil)
  from every_command_is_answered[OF _ this] demo_fresh c show ?thesis
    by (simp add: greeted_simps del: append_Cons append_Nil)
qed

end
