(* ===== verification/Config.thy ===== *)
theory Config
  imports Prelude
begin

text \<open>
  \<open>src/common/config.h\<close>: the parser of the configuration file and its typed getters. The
  contents of the file is an argument (\<open>None\<close>: it cannot be opened). The hash table is a map.
\<close>

section \<open>The parser\<close>

record Config =
  data :: "string \<rightharpoonup> string"

definition empty_config :: Config where
  "empty_config = \<lparr>data = Map.empty\<rparr>"

definition is_blank :: "char \<Rightarrow> bool" where
  "is_blank c \<longleftrightarrow> c = CHR '' '' \<or> c = CHR 0x09"

primrec find_first_not_of :: "(char \<Rightarrow> bool) \<Rightarrow> string \<Rightarrow> nat option" where
  "find_first_not_of P [] = None"
| "find_first_not_of P (x # xs) = (if P x then map_option Suc (find_first_not_of P xs) else Some 0)"

primrec find_last_not_of :: "(char \<Rightarrow> bool) \<Rightarrow> string \<Rightarrow> nat option" where
  "find_last_not_of P [] = None"
| "find_last_not_of P (x # xs) =
     (case find_last_not_of P xs of
        Some i \<Rightarrow> Some (Suc i)
      | None \<Rightarrow> if P x then None else Some 0)"

definition trim :: "string \<Rightarrow> string" where
  "trim s =
     (case (find_first_not_of is_blank s, find_last_not_of is_blank s) of
        (Some start, Some end_pos) \<Rightarrow> substr start (end_pos - start + 1) s
      | _ \<Rightarrow> [])"

definition config_line :: "Config \<Rightarrow> string \<Rightarrow> Config" where
  "config_line cfg raw =
     (let line = strip_cr raw
      in if line = [] \<or> hd line = CHR ''#'' then cfg
         else case find_char CHR ''='' line of
                None \<Rightarrow> cfg
              | Some eq \<Rightarrow>
                  cfg\<lparr>data := (data cfg)(trim (take eq line) \<mapsto> trim (drop (Suc eq) line))\<rparr>)"

definition load :: "string option \<Rightarrow> Config \<Rightarrow> bool \<times> Config" where
  "load file cfg =
     (case file of
        None \<Rightarrow> (False, cfg)
      | Some content \<Rightarrow> (True, foldl config_line cfg (getlines content)))"

section \<open>The getters\<close>

definition getString :: "string \<Rightarrow> string \<Rightarrow> Config \<Rightarrow> string" where
  "getString key dflt cfg = (case data cfg key of Some v \<Rightarrow> v | None \<Rightarrow> dflt)"

text \<open>Whatever \<open>std::stoi\<close> throws is caught.\<close>

definition getInt :: "string \<Rightarrow> int \<Rightarrow> Config \<Rightarrow> int" where
  "getInt key dflt cfg =
     (case data cfg key of
        None \<Rightarrow> dflt
      | Some v \<Rightarrow> (case stoi v of Inr i \<Rightarrow> i | Inl e \<Rightarrow> dflt))"

definition getBool :: "string \<Rightarrow> bool \<Rightarrow> Config \<Rightarrow> bool" where
  "getBool key dflt cfg =
     (case data cfg key of
        None \<Rightarrow> dflt
      | Some v \<Rightarrow> (let l = map tolower v in l = ''true'' \<or> l = ''1'' \<or> l = ''yes''))"

section \<open>Trimming\<close>

lemma find_first_not_of_iff:
  "find_first_not_of P s = Some i \<longleftrightarrow> dropWhile P s \<noteq> [] \<and> i = length (takeWhile P s)"
  by (induction s arbitrary: i) auto

lemma find_first_not_of_None: "find_first_not_of P s = None \<longleftrightarrow> (\<forall>x\<in>set s. P x)"
  by (induction s) auto

lemma find_last_not_of_None: "find_last_not_of P s = None \<longleftrightarrow> (\<forall>x\<in>set s. P x)"
  by (induction s) (auto split: option.splits)

lemma strip_trailing_None: "strip_trailing P s = [] \<longleftrightarrow> (\<forall>x\<in>set s. P x)"
  by (induction s) (auto simp: Let_def)

lemma find_last_not_of_Some:
  "find_last_not_of P s = Some i \<Longrightarrow> i < length s \<and> strip_trailing P s = take (Suc i) s"
proof (induction s arbitrary: i)
  case (Cons x xs)
  show ?case
  proof (cases "find_last_not_of P xs")
    case None
    with Cons.prems have "strip_trailing P xs = []"
      by (simp add: find_last_not_of_None strip_trailing_None)
    with Cons.prems None show ?thesis by (auto simp: Let_def split: if_splits)
  next
    case (Some j)
    with Cons.IH[OF Some] Cons.prems have "strip_trailing P xs = take i xs" "i \<noteq> 0" "xs \<noteq> []"
      by auto
    with Cons.prems Some Cons.IH[OF Some] show ?thesis by (auto simp: Let_def)
  qed
qed simp

text \<open>\<open>trim\<close> removes the blanks in front and behind.\<close>

lemma trim_eq: "trim s = dropWhile is_blank (strip_trailing is_blank s)"
proof (cases "\<forall>x\<in>set s. is_blank x")
  case True
  then have "strip_trailing is_blank s = []" by (simp add: strip_trailing_None)
  with True show ?thesis by (simp add: trim_def find_first_not_of_None[THEN iffD2])
next
  case False
  then obtain i j where i: "find_first_not_of is_blank s = Some i"
    and j: "find_last_not_of is_blank s = Some j"
    by (metis find_first_not_of_None find_last_not_of_None not_None_eq)
  note j' = find_last_not_of_Some[OF j]
  from i have i': "i = length (takeWhile is_blank s)" by (simp add: find_first_not_of_iff)
  let ?t = "strip_trailing is_blank s"
  from j' have t: "?t = take (Suc j) s" by simp
  from False obtain x where x: "x \<in> set ?t" "\<not> is_blank x"
    by (metis last_in_set strip_trailing_None strip_trailing_last)
  obtain u where u: "s = ?t @ u" using prefix_strip_trailing[of is_blank s] by (auto simp: prefix_def)
  from x have tw: "takeWhile is_blank s = takeWhile is_blank ?t"
    by (subst u) (rule takeWhile_append1)
  then have "i \<le> Suc j" using i' t j' by (metis length_take length_takeWhile_le min.bounded_iff)
  then have "j - i + 1 = Suc j - i \<or> i = Suc j" by auto
  moreover have "i \<noteq> Suc j"
  proof
    assume "i = Suc j"
    with i' tw t j' have "length (takeWhile is_blank ?t) = length ?t" by simp
    then have "takeWhile is_blank ?t = ?t" by (metis takeWhile_eq_take take_all order_refl)
    with x show False by (metis set_takeWhileD)
  qed
  ultimately have "trim s = drop i (take (Suc j) s)"
    using i j by (simp add: trim_def substr_def drop_take)
  also have "\<dots> = dropWhile is_blank ?t"
    using t i' tw by (metis dropWhile_eq_drop)
  finally show ?thesis .
qed

definition trimmed :: "string \<Rightarrow> bool" where
  "trimmed s \<longleftrightarrow> s = [] \<or> \<not> is_blank (hd s) \<and> \<not> is_blank (last s)"

lemma dropWhile_all_prefix: "\<forall>c\<in>set p. P c \<Longrightarrow> dropWhile P (p @ s) = dropWhile P s"
  by (induction p) auto

lemma trim_padded:
  assumes "\<forall>c\<in>set p. is_blank c" and "\<forall>c\<in>set q. is_blank c" and "trimmed s"
  shows "trim (p @ s @ q) = s"
proof (cases "s = []")
  case True
  with assms have "\<forall>c\<in>set (p @ s @ q). is_blank c" by auto
  then have "strip_trailing is_blank (p @ s @ q) = []" by (simp add: strip_trailing_None)
  with True show ?thesis by (simp add: trim_eq)
next
  case False
  with assms(3) have s: "\<not> is_blank (hd s)" "\<not> is_blank (last (p @ s))" by (auto simp: trimmed_def)
  have "strip_trailing is_blank ((p @ s) @ q) = p @ s"
    using assms(2) s by (simp only: strip_trailing_append strip_trailing_id simp_thms)
  then have "trim (p @ s @ q) = dropWhile is_blank (p @ s)" by (simp add: trim_eq)
  also have "\<dots> = dropWhile is_blank s" by (rule dropWhile_all_prefix[OF assms(1)])
  also have "\<dots> = s" using s(1) False by (cases s) auto
  finally show ?thesis .
qed

section \<open>Writing a configuration\<close>

text \<open>A setting the file can hold, and its line with blanks around the key and the value.\<close>

fun valid_setting :: "string \<times> string \<Rightarrow> bool" where
  "valid_setting (k, v) \<longleftrightarrow> k \<noteq> [] \<and> hd k \<noteq> CHR ''#'' \<and> CHR ''='' \<notin> set k \<and> trimmed k \<and> trimmed v \<and>
     newline \<notin> set (k @ v) \<and> carriage_return \<notin> set (k @ v)"

fun setting_line :: "string \<Rightarrow> string \<times> string \<Rightarrow> string" where
  "setting_line pad (k, v) = pad @ k @ pad @ ''='' @ pad @ v @ pad"

definition config_text :: "string \<Rightarrow> (string \<times> string) list \<Rightarrow> string" where
  "config_text pad kvs = concat (map (\<lambda>kv. setting_line pad kv @ [newline]) kvs)"

lemma blank_chars: "is_blank c \<Longrightarrow> c \<noteq> CHR ''#'' \<and> c \<noteq> CHR ''='' \<and> c \<noteq> newline \<and> c \<noteq> carriage_return"
  by (auto simp: is_blank_def)

lemma pad_chars:
  assumes "\<forall>c\<in>set pad. is_blank c"
  shows "CHR ''='' \<notin> set pad" and "newline \<notin> set pad" and "carriage_return \<notin> set pad"
    and "pad \<noteq> [] \<Longrightarrow> hd pad \<noteq> CHR ''#''"
  using assms blank_chars hd_in_set[of pad] by blast+

lemma setting_line_chars:
  assumes "valid_setting kv" and "\<forall>c\<in>set pad. is_blank c"
  shows "newline \<notin> set (setting_line pad kv)" and "strip_cr (setting_line pad kv) = setting_line pad kv"
proof -
  have no: "newline \<notin> set (setting_line pad kv)" "carriage_return \<notin> set (setting_line pad kv)"
    using assms(1) pad_chars[OF assms(2)] by (cases kv; auto)+
  then show "newline \<notin> set (setting_line pad kv)" "strip_cr (setting_line pad kv) = setting_line pad kv"
    by (simp_all add: strip_cr_id)
qed

lemma config_line_setting:
  assumes kv: "valid_setting (k, v)" and pad: "\<forall>c\<in>set pad. is_blank c"
  shows "config_line cfg (setting_line pad (k, v)) = cfg\<lparr>data := (data cfg)(k \<mapsto> v)\<rparr>"
proof -
  let ?l = "setting_line pad (k, v)"
  have l: "?l = (pad @ k @ pad) @ CHR ''='' # (pad @ v @ pad)" by simp
  have "hd ?l \<noteq> CHR ''#''" "?l \<noteq> []"
    using kv pad_chars(4)[OF pad] by (auto simp: hd_append)
  moreover have "find_char CHR ''='' ?l = Some (length (pad @ k @ pad))"
    unfolding l using kv pad_chars(1)[OF pad] by (intro find_char_append) auto
  moreover have "trim (take (length (pad @ k @ pad)) ?l) = k"
    unfolding l using trim_padded[OF pad pad, of k] kv by simp
  moreover have "trim (drop (Suc (length (pad @ k @ pad))) ?l) = v"
    unfolding l using trim_padded[OF pad pad, of v] kv by simp
  ultimately show ?thesis
    using setting_line_chars(2)[OF kv pad]
    by (simp only: config_line_def Let_def simp_thms if_False option.case)
qed

lemma foldl_config_settings:
  assumes "\<forall>kv\<in>set kvs. valid_setting kv" and "\<forall>c\<in>set pad. is_blank c"
  shows "foldl config_line cfg (map (setting_line pad) kvs) =
    cfg\<lparr>data := data cfg ++ map_of (rev kvs)\<rparr>"
  using assms(1)
proof (induction kvs arbitrary: cfg)
  case (Cons kv kvs)
  obtain k v where kv: "kv = (k, v)" by (cases kv)
  with Cons.prems have "config_line cfg (setting_line pad kv) = cfg\<lparr>data := (data cfg)(k \<mapsto> v)\<rparr>"
    using config_line_setting[OF _ assms(2)] by simp
  with Cons.IH[of "cfg\<lparr>data := (data cfg)(k \<mapsto> v)\<rparr>"] Cons.prems kv show ?case
    by (simp add: map_add_def fun_eq_iff split: option.splits)
qed simp

lemma load_config_text:
  assumes "\<forall>kv\<in>set kvs. valid_setting kv" and "\<forall>c\<in>set pad. is_blank c"
  shows "load (Some (config_text pad kvs)) cfg = (True, cfg\<lparr>data := data cfg ++ map_of (rev kvs)\<rparr>)"
proof -
  have "getlines (config_text pad kvs) = map (setting_line pad) kvs"
    using getlines_concat[of "map (setting_line pad) kvs"] setting_line_chars(1)[OF _ assms(2)] assms(1)
    by (simp add: config_text_def o_def)
  with foldl_config_settings[OF assms] show ?thesis by (simp add: load_def)
qed

section \<open>Properties\<close>

text \<open>C28. Loading a file of settings gives exactly these settings: each value is found under its
  key without the blanks around key and value, the last one of a repeated key wins, and keys
  the file does not mention keep their values.\<close>

theorem config_roundtrip:
  assumes "\<forall>kv\<in>set kvs. valid_setting kv" and "\<forall>c\<in>set pad. is_blank c"
  shows "load (Some (config_text pad kvs)) cfg = (True, cfg\<lparr>data := data cfg ++ map_of (rev kvs)\<rparr>)"
  using load_config_text[OF assms] by simp

lemma config_roundtrip_witness:
  "getString ''root_dir'' [] (snd (load (Some (config_text '' '' [(''port'', ''2121''), (''root_dir'', ''/srv/ftp'')])) empty_config))
   = ''/srv/ftp''"
  using config_roundtrip[of "[(''port'', ''2121''), (''root_dir'', ''/srv/ftp'')]" "'' ''" empty_config]
  by (simp add: getString_def empty_config_def trimmed_def is_blank_def)

end
