(* ===== verification/Logger.thy ===== *)
theory Logger
  imports Prelude
begin

text \<open>
  \<open>src/common/logger.h\<close>: levels, the threshold and the two outputs of the logger. The time stamp
  that \<open>localtime\<close> and \<open>strftime\<close> produce depends on the time zone of the host and is an
  argument. Each call holds the logger's mutex while it writes, so a call is one step.
\<close>

datatype LogLevel = LVL_DEBUG | LVL_INFO | LVL_WARN | LVL_ERROR | LVL_FATAL

primrec level_num :: "LogLevel \<Rightarrow> nat" where
  "level_num LVL_DEBUG = 0"
| "level_num LVL_INFO = 1"
| "level_num LVL_WARN = 2"
| "level_num LVL_ERROR = 3"
| "level_num LVL_FATAL = 4"

lemma level_num_inject [simp]: "level_num a = level_num b \<longleftrightarrow> a = b"
  by (cases a; cases b) simp_all

text \<open>Levels are compared through their numbers.\<close>

instantiation LogLevel :: linorder
begin

definition less_eq_LogLevel :: "LogLevel \<Rightarrow> LogLevel \<Rightarrow> bool" where
  "less_eq_LogLevel a b \<longleftrightarrow> level_num a \<le> level_num b"

definition less_LogLevel :: "LogLevel \<Rightarrow> LogLevel \<Rightarrow> bool" where
  "less_LogLevel a b \<longleftrightarrow> level_num a < level_num b"

instance
  by standard (auto simp: less_eq_LogLevel_def less_LogLevel_def)

end

record Logger =
  minLevel :: LogLevel
  console :: "string list"
  log_file :: "(string \<times> string list) option"   \<comment> \<open>path of the open file and the lines appended to it\<close>

definition new_logger :: Logger where
  "new_logger = \<lparr>minLevel = LVL_INFO, console = [], log_file = None\<rparr>"

primrec lvlStr :: "LogLevel \<Rightarrow> string" where
  "lvlStr LVL_DEBUG = ''DEBUG''"
| "lvlStr LVL_INFO = ''INFO ''"
| "lvlStr LVL_WARN = ''WARN ''"
| "lvlStr LVL_ERROR = ''ERROR''"
| "lvlStr LVL_FATAL = ''FATAL''"

definition formatLine :: "string \<Rightarrow> LogLevel \<Rightarrow> string \<Rightarrow> string \<Rightarrow> string" where
  "formatLine timebuf level component msg =
     ''['' @ timebuf @ ''] ['' @ lvlStr level @ ''] ['' @ component @ ''] '' @ msg"

definition setLevel :: "LogLevel \<Rightarrow> Logger \<Rightarrow> Logger" where
  "setLevel level lg = lg\<lparr>minLevel := level\<rparr>"

text \<open>The open file, if any, is closed first; \<open>opens\<close> tells whether the new one can be opened.\<close>

definition setLogFile :: "bool \<Rightarrow> string \<Rightarrow> Logger \<Rightarrow> Logger" where
  "setLogFile opens path lg = lg\<lparr>log_file := (if opens then Some (path, []) else None)\<rparr>"

definition log_msg :: "string \<Rightarrow> LogLevel \<Rightarrow> string \<Rightarrow> string \<Rightarrow> Logger \<Rightarrow> Logger" where
  "log_msg timebuf level component msg lg =
     (if level < minLevel lg then lg
      else let line = formatLine timebuf level component msg
           in lg\<lparr>console := console lg @ [line],
                 log_file := map_option (\<lambda>(p, ls). (p, ls @ [line])) (log_file lg)\<rparr>)"

section \<open>What is written\<close>

type_synonym entry = "string \<times> LogLevel \<times> string \<times> string"

fun log_entry :: "Logger \<Rightarrow> entry \<Rightarrow> Logger" where
  "log_entry lg (t, l, c, m) = log_msg t l c m lg"

fun entry_line :: "entry \<Rightarrow> string" where
  "entry_line (t, l, c, m) = formatLine t l c m"

fun entry_level :: "entry \<Rightarrow> LogLevel" where
  "entry_level (t, l, c, m) = l"

text \<open>Both outputs receive the entries from the threshold on, in order.\<close>

lemma log_entries:
  "foldl log_entry lg es =
     (let ls = map entry_line (filter (\<lambda>e. minLevel lg \<le> entry_level e) es)
      in lg\<lparr>console := console lg @ ls, log_file := map_option (\<lambda>(p, old). (p, old @ ls)) (log_file lg)\<rparr>)"
proof (induction es arbitrary: lg)
  case Nil
  show ?case by (cases "log_file lg") simp_all
next
  case (Cons e es)
  obtain t l c m where e: "e = (t, l, c, m)" by (metis prod_cases4)
  show ?case
  proof (cases "l < minLevel lg")
    case True
    with e Cons.IH[of lg] show ?thesis by (simp add: log_msg_def)
  next
    case False
    then have "minLevel lg \<le> l" by simp
    with e False Cons.IH[of "log_entry lg e"] show ?thesis
      by (cases "log_file lg") (simp_all add: log_msg_def Let_def split_beta)
  qed
qed

end
