(* ===== verification/Admin_Server.thy ===== *)
theory Admin_Server
  imports Session
begin

text \<open>
  \<open>src/server/admin_server.h\<close> and \<open>src/server/admin_server.cpp\<close>: the web dashboard. It answers one
  request per connection with a page of statistics and stops the server for a request that
  carries the key. The environment variable is an argument; log lines are left out. What
  stopping means for the server is in the theory of the server.
\<close>

section \<open>Requests\<close>

text \<open>\<open>std::string::find\<close> of a string.\<close>

fun find_str :: "string \<Rightarrow> string \<Rightarrow> nat option" where
  "find_str p [] = (if p = [] then Some 0 else None)"
| "find_str p (x # xs) = (if prefix p (x # xs) then Some 0 else map_option Suc (find_str p xs))"

definition expectedPass :: "string option \<Rightarrow> string" where
  "expectedPass env = (case env of Some p \<Rightarrow> p | None \<Rightarrow> ''admin123'')"

definition stopTarget :: "string option \<Rightarrow> string" where
  "stopTarget env = ''GET /stop?key='' @ expectedPass env @ '' ''"

definition do_stop :: "string option \<Rightarrow> string \<Rightarrow> bool" where
  "do_stop env request \<longleftrightarrow> find_str (stopTarget env) request \<noteq> None"

definition invalid_stop :: "string option \<Rightarrow> string \<Rightarrow> bool" where
  "invalid_stop env request \<longleftrightarrow> \<not> do_stop env request \<and> find_str ''GET /stop'' request \<noteq> None"

section \<open>Pages\<close>

definition u64_str :: "64 word \<Rightarrow> string" where
  "u64_str w = nat_str (unat w)"

definition page_head :: "string" where
  \<open>page_head = concat [
     ''<!DOCTYPE html><html lang='en'><head><meta charset='UTF-8'><meta name='viewport' content'',
     ''='width=device-width, initial-scale=1.0'><title>NexusFTP Dashboard</title>'',
     ''<link href='https://fonts.googleapis.com/css2?family=Inter:wght@400;600;800&display=swap' '',
     ''rel='stylesheet'>'',
     ''<style>'',
     '':root { --bg: #0f172a; --card-bg: rgba(30, 41, 59, 0.7); --text: #f8fafc; --accent: #38bdf'',
     ''8; --danger: #fb7185; --success: #34d399; }'',
     ''body { font-family: 'Inter', sans-serif; background: linear-gradient(135deg, #0f172a 0%, #'',
     ''1e1b4b 100%); color: var(--text); margin: 0; padding: 20px; min-height: 100vh; display: fl'',
     ''ex; align-items: center; justify-content: center; }'',
     ''.dashboard { background: var(--card-bg); backdrop-filter: blur(16px); -webkit-backdrop-fil'',
     ''ter: blur(16px); border: 1px solid rgba(255,255,255,0.1); border-radius: 24px; padding: 40'',
     ''px; width: 100%; max-width: 800px; box-shadow: 0 25px 50px -12px rgba(0,0,0,0.5); }'',
     ''.header { text-align: center; margin-bottom: 40px; }'',
     ''h1 { font-weight: 800; font-size: 2.5rem; margin: 0; background: linear-gradient(to right,'',
     '' var(--accent), #818cf8); -webkit-background-clip: text; -webkit-text-fill-color: transpar'',
     ''ent; letter-spacing: -1px; }'',
     ''.subtitle { color: #94a3b8; font-size: 1.1rem; margin-top: 8px; }'',
     ''.grid { display: grid; grid-template-columns: repeat(auto-fit, minmax(200px, 1fr)); gap: 2'',
     ''0px; margin-bottom: 40px; }'',
     ''.stat-card { background: rgba(15, 23, 42, 0.6); border: 1px solid rgba(255,255,255,0.05); '',
     ''border-radius: 16px; padding: 24px; transition: all 0.3s cubic-bezier(0.4, 0, 0.2, 1); pos'',
     ''ition: relative; overflow: hidden; }'',
     ''.stat-card:hover { transform: translateY(-5px); box-shadow: 0 10px 25px -5px rgba(0,0,0,0.'',
     ''5); border-color: rgba(255,255,255,0.15); }'',
     ''.stat-card::before { content: '',
     [CHR 0x27, CHR 0x27],
     ''; position: absolute; top: 0; left: 0; width: 100%; height: 4px; background: var(--accent)'',
     ''; opacity: 0.5; transition: opacity 0.3s; }'',
     ''.stat-card:hover::before { opacity: 1; }'',
     ''.stat-card.danger::before { background: var(--danger); }'',
     ''.stat-card.success::before { background: var(--success); }'',
     ''.stat-title { font-size: 0.875rem; color: #94a3b8; text-transform: uppercase; letter-spaci'',
     ''ng: 1px; font-weight: 600; margin-bottom: 12px; }'',
     ''.stat-value { font-size: 2.5rem; font-weight: 800; margin: 0; line-height: 1; }'',
     ''.actions { display: flex; gap: 16px; justify-content: center; flex-wrap: wrap; }'',
     ''.btn { font-family: 'Inter', sans-serif; padding: 14px 28px; border-radius: 12px; font-siz'',
     ''e: 1rem; font-weight: 600; cursor: pointer; text-decoration: none; transition: all 0.2s; d'',
     ''isplay: inline-flex; align-items: center; gap: 8px; border: none; }'',
     ''.btn-primary { background: rgba(56, 189, 248, 0.1); color: var(--accent); border: 1px soli'',
     ''d rgba(56, 189, 248, 0.2); }'',
     ''.btn-primary:hover { background: var(--accent); color: #0f172a; box-shadow: 0 0 20px rgba('',
     ''56,189,248,0.4); transform: scale(1.05); }'',
     ''.btn-danger { background: rgba(251, 113, 133, 0.1); color: var(--danger); border: 1px soli'',
     ''d rgba(251, 113, 133, 0.2); }'',
     ''.btn-danger:hover { background: var(--danger); color: #0f172a; box-shadow: 0 0 20px rgba(2'',
     ''51,113,133,0.4); transform: scale(1.05); }'',
     ''@media (max-width: 600px) { .dashboard { padding: 24px; } h1 { font-size: 2rem; } .stat-va'',
     ''lue { font-size: 2rem; } .actions { flex-direction: column; } .btn { width: 100%; justify-'',
     ''content: center; } }'',
     ''</style></head><body>'',
     ''<div class='dashboard'>'',
     ''<div class='header'><h1>NexusFTP Engine</h1><div class='subtitle'>Live Real-Time Telemetry'',
     ''</div>'',
     ''<div style='margin-top:15px; padding:12px 20px; background:rgba(56,189,248,0.05); border-r'',
     ''adius:12px; border:1px solid rgba(56,189,248,0.2); display:inline-block; text-align:center'',
     '';'>'',
     ''<div style='font-size:0.85rem; color:#94a3b8; text-transform:uppercase; letter-spacing:1px'',
     ''; margin-bottom:6px;'>Test the Backend</div>'',
     ''<code style='color:var(--accent); font-family:monospace; font-size:1.1rem; padding:4px 8px'',
     ''; background:rgba(0,0,0,0.3); border-radius:6px;'>ftp 204.236.201.82</code>'',
     ''<div style='font-size:0.9rem; color:#f8fafc; margin-top:8px;'>User: <span style='color:var'',
     ''(--success); font-weight:600;'>guest</span> &nbsp;|&nbsp; Pass: <span style='color:var(--s'',
     ''uccess); font-weight:600;'>guest</span></div>'',
     ''</div></div>'']\<close>

definition page_stopping :: "string" where
  \<open>page_stopping = concat [
     ''<div style='text-align:center; padding: 40px;'><h2 style='color:var(--success); font-size:'',
     '' 2rem;'>Authentication Successful</h2><p style='color:#94a3b8;'>Initiating graceful shutdo'',
     ''wn. Flushing sockets and killing thread pool safely.</p></div>'']\<close>

definition page_denied :: "string" where
  \<open>page_denied = concat [
     ''<div style='text-align:center; padding: 40px;'><h2 style='color:var(--danger); font-size: '',
     ''2rem;'>Authentication Failed</h2><p style='color:#94a3b8;'>Invalid or missing administrato'',
     ''r password.</p><br><a href='/' class='btn btn-primary'>Return to Dashboard</a></div>'']\<close>

definition page_stats :: "ServerContext \<Rightarrow> string" where
  \<open>page_stats c = concat [
     ''<div class='grid'>'',
     ''<div class='stat-card success'><div class='stat-title'>Active Sockets</div><div class='sta'',
     ''t-value'>'',
     u64_str (activeConnections c),
     ''</div></div>'',
     ''<div class='stat-card'><div class='stat-title'>Total Connects</div><div class='stat-valu'',
     ''e'>'',
     u64_str (totalConnections c),
     ''</div></div>'',
     ''<div class='stat-card'><div class='stat-title'>Data Transferred</div><div class='stat-valu'',
     ''e'>'',
     u64_str (totalBytesTransferred c div 1024),
     ''<span style='font-size:1rem; color:#94a3b8; margin-left:4px;'>KB</span></div></div>'',
     ''<div class='stat-card danger'><div class='stat-title'>Auth Blocks</div><div class='stat-va'',
     ''lue'>'',
     u64_str (failedLoginCount (auth c)),
     ''</div></div>'',
     ''</div>'',
     ''<div class='actions'>'',
     ''<a href='/' class='btn btn-primary'><svg width='20' height='20' viewBox='0 0 24 24' fill'',
     ''='none' stroke='currentColor' stroke-width='2' stroke-linecap='round' stroke-linejoin='rou'',
     ''nd'><path d='M21.5 2v6h-6M21.34 15.57a10 10 0 1 1-.59-9.21l5.67-5.67'/></svg> Refresh Data'',
     ''</a>'',
     ''<a href='#' class='btn btn-danger' onclick='var p = prompt("Enter Admin Password to Shutdo'',
     ''wn:"); if(p) window.location.href="/stop?key="+p; return false;'><svg width='20' height='2'',
     ''0' viewBox='0 0 24 24' fill='none' stroke='currentColor' stroke-width='2' stroke-linecap'',
     ''='round' stroke-linejoin='round'><path d='M18.36 6.64a9 9 0 1 1-12.73 0M12 2v10'/></svg> S'',
     ''hutdown Cluster</a>'',
     ''</div>'']\<close>

definition admin_page :: "string option \<Rightarrow> string \<Rightarrow> ServerContext \<Rightarrow> string" where
  "admin_page env request c =
     page_head @
     (if do_stop env request then page_stopping
      else if invalid_stop env request then page_denied else page_stats c) @
     ''</div></body></html>''"

definition http_response :: "string \<Rightarrow> string" where
  "http_response body =
     ''HTTP/1.1 200 OK'' @ crlf @
     ''Content-Type: text/html; charset=utf-8'' @ crlf @
     ''Content-Length: '' @ nat_str (length body) @ crlf @
     ''Connection: close'' @ crlf @ crlf @ body"

section \<open>One client\<close>

text \<open>
  The buffer has 2048 bytes, one of them kept free. A silent client is cut off by the
  receive timeout of the loop. The result tells whether the server is to be shut down.
\<close>

definition handleClient :: "os \<Rightarrow> string option \<Rightarrow> ServerContext \<Rightarrow> handle \<Rightarrow> hist \<Rightarrow> bool \<times> hist" where
  "handleClient os env c client h =
     (case fst (recvData 2047 (os_incoming os h (toPosix client))) of
        R_data request \<Rightarrow>
          (if find_str ''GET'' request \<noteq> Some 0 then (False, h)
           else (do_stop env request,
                 snd (sendData os client (http_response (admin_page env request c)) h)))
      | _ \<Rightarrow> (False, h))"

section \<open>The server's life\<close>

record AdminServer =
  adm_port :: int
  adm_listen :: handle
  adm_running :: bool
  adm_thread :: bool      \<comment> \<open>the background thread exists\<close>

definition new_admin :: "int \<Rightarrow> AdminServer" where
  "new_admin port = \<lparr>adm_port = port, adm_listen = kInvalidSocket, adm_running = False, adm_thread = False\<rparr>"

definition admin_start :: "os \<Rightarrow> AdminServer \<Rightarrow> hist \<Rightarrow> AdminServer \<times> hist" where
  "admin_start os a h =
     (if adm_port a \<le> 0 then (a, h)
      else let (sock, h1) = createTcpSocket os h
           in if sock = kInvalidSocket then (a, h1)
              else let h2 = setReuseAddr os sock h1;
                       (b, h3) = bindSocket os sock (adm_port a) h2
                   in if b < 0 then (a, closeSocket os sock h3)
                      else let (l, h4) = listenSocket os sock 5 h3
                           in if l < 0 then (a, closeSocket os sock h4)
                              else (a\<lparr>adm_listen := sock, adm_running := True, adm_thread := True\<rparr>, h4))"

text \<open>
  \<open>stop\<close>, called by some thread. Deleting the thread object joins the thread; a thread
  that joins itself gets an exception inside a destructor, which ends the process.
\<close>

datatype caller = Main_thread | Admin_thread

datatype 'a stopping = Stopped 'a | Terminated 'a

definition admin_stop :: "os \<Rightarrow> caller \<Rightarrow> AdminServer \<Rightarrow> hist \<Rightarrow> (AdminServer \<times> hist) stopping" where
  "admin_stop os who a h =
     (if \<not> adm_running a then Stopped (a, h)
      else let (fd, h1) = ms_close os (adm_listen a) h;
               a1 = a\<lparr>adm_running := False, adm_listen := fd\<rparr>
           in if adm_thread a
              then if who = Admin_thread then Terminated (a1, h1)
                   else Stopped (a1\<lparr>adm_thread := False\<rparr>, h1)
              else Stopped (a1, h1))"

section \<open>Searching\<close>

lemma find_str_sublist: "find_str p s \<noteq> None \<longleftrightarrow> sublist p s"
proof (induction s)
  case (Cons x xs)
  then show ?case by (simp add: sublist_Cons_right)
qed simp

lemma find_str_0: "find_str p s = Some 0 \<longleftrightarrow> prefix p s"
  by (cases s) (auto split: if_splits)

lemma do_stop_iff: "do_stop env request \<longleftrightarrow> sublist (stopTarget env) request"
  unfolding do_stop_def by (rule find_str_sublist)

lemma recvData_first:
  "fst (recvData n (seg # segs, e)) = (if seg = [] then R_end else R_data (take n seg))"
  by simp

text \<open>C31. The dashboard shuts the server down exactly for a request that begins with \<open>GET\<close> and
  contains the stop request with the key anywhere in its first 2047 bytes, and every request
  that begins with \<open>GET\<close>, a refused stop included, is answered by one page with status 200.\<close>

theorem admin_stop_needs_key:
  assumes "os_incoming os h client = (seg # segs, e)" and "seg \<noteq> []"
  shows "(fst (handleClient os env c client h) \<longleftrightarrow>
      prefix ''GET'' (take 2047 seg) \<and> sublist (''GET /stop?key='' @ expectedPass env @ '' '') (take 2047 seg)) \<and>
    sent_on client (snd (handleClient os env c client h)) = sent_on client h @
      (if prefix ''GET'' (take 2047 seg) then [http_response (admin_page env (take 2047 seg) c)] else [])"
proof -
  have r: "fst (recvData 2047 (os_incoming os h client)) = R_data (take 2047 seg)"
    using assms recvData_first by simp
  show ?thesis
    using do_stop_iff[of env "take 2047 seg"] unfolding stopTarget_def
    by (simp add: handleClient_def r find_str_0 sendData_def toPosix_def)
qed

text \<open>Without the environment variable the key is the one the program falls back to.\<close>

definition stop_request :: string where
  "stop_request = ''GET /stop?key=admin123 HTTP/1.1'' @ crlf @ crlf"

definition stop_os :: os where
  "stop_os = demo_os\<lparr>os_incoming := \<lambda>h s. ([stop_request], Peer_closes)\<rparr>"

lemma admin_stop_needs_key_witness:
  "\<forall>c. fst (handleClient stop_os None c 8 [])"
proof
  fix c
  have i: "os_incoming stop_os [] 8 = ([stop_request], Peer_closes)" by (simp add: stop_os_def)
  have n: "stop_request \<noteq> []" by (simp add: stop_request_def)
  have t: "take 2047 stop_request = stop_request" by (simp add: stop_request_def crlf_def)
  have s: "sublist (''GET /stop?key='' @ expectedPass None @ '' '') stop_request"
    unfolding sublist_def stop_request_def expectedPass_def
    by (intro exI[of _ "[]"] exI[of _ "''HTTP/1.1'' @ crlf @ crlf"]) simp
  have g: "prefix ''GET'' stop_request" by (simp add: stop_request_def)
  from admin_stop_needs_key[OF i n, of None c] s g show "fst (handleClient stop_os None c 8 [])" by (simp add: t)
qed

end
