(* ===== verification/Server.thy ===== *)
theory Server
  imports Config Logger Admin_Server Session_Contract
begin

text \<open>
  \<open>src/server/ftp_server.h\<close> and \<open>src/server/ftp_server.cpp\<close>: the server's members, what the
  constructor makes of the configuration, start-up, the body of the accept loop, shutdown, and
  the turns of the dashboard's thread that can call it. The accept loop, the workers of the
  thread pool and the sessions they run are put together as a step relation on what they
  share: the queue of accepted clients and the counter of active connections. Log lines are left out.
\<close>

section \<open>State and construction\<close>

datatype pool_life = No_pool | Pool_running | Pool_shut

record FTPServer =
  srv_port :: int
  srv_rootDir :: string
  maxClients :: int
  threadPoolSize :: int
  adminPort :: int
  srv_listen :: handle
  srv_running :: bool
  srv_pool :: pool_life
  srv_admin :: "AdminServer option"
  srv_ctx :: ServerContext
  srv_logger :: Logger

definition parse_level :: "string \<Rightarrow> LogLevel" where
  "parse_level lvl =
     (if lvl = ''debug'' then LVL_DEBUG else if lvl = ''warn'' then LVL_WARN
      else if lvl = ''error'' then LVL_ERROR else LVL_INFO)"

text \<open>The context: megabytes and kilobytes become bytes in 64-bit arithmetic, the sign of the \<open>int\<close> is converted away.\<close>

definition server_context :: "(string \<Rightarrow> string option) \<Rightarrow> Config \<Rightarrow> ServerContext" where
  "server_context read_file cfg =
     \<lparr>auth = snd (loadUsers (read_file (getString ''users_file'' ''config/users.conf'' cfg)) new_auth),
      rootDir = getString ''root_dir'' ''ftproot'' cfg,
      totalConnections = 0, activeConnections = 0, totalBytesTransferred = 0,
      timeoutSecs = getInt ''timeout_secs'' 300 cfg,
      maxFileSizeBytes = word_of_int (getInt ''max_file_size_mb'' 0 cfg) * 1024 * 1024,
      allowAnonymous = (getString ''allow_anonymous'' ''no'' cfg = ''yes''),
      bandwidthLimitBps = word_of_int (getInt ''bandwidth_limit_kbps'' 0 cfg) * 1024,
      sendBufKB = getInt ''send_buf_kb'' 256 cfg,
      recvBufKB = getInt ''recv_buf_kb'' 64 cfg\<rparr>"

definition new_server ::
    "(string \<Rightarrow> string option) \<Rightarrow> (string \<Rightarrow> bool) \<Rightarrow> Config \<Rightarrow> Logger \<Rightarrow> FTPServer" where
  "new_server read_file opens cfg lg =
     (let lg1 = setLevel (parse_level (getString ''log_level'' ''info'' cfg)) lg;
          logFile = getString ''log_file'' [] cfg
      in \<lparr>srv_port = getInt ''port'' 21 cfg,
          srv_rootDir = getString ''root_dir'' ''ftproot'' cfg,
          maxClients = getInt ''max_clients'' 100 cfg,
          threadPoolSize = getInt ''thread_pool_size'' 4 cfg,
          adminPort = getInt ''admin_port'' 8080 cfg,
          srv_listen = kInvalidSocket, srv_running = False, srv_pool = No_pool, srv_admin = None,
          srv_ctx = server_context read_file cfg,
          srv_logger = (if logFile \<noteq> [] then setLogFile (opens logFile) logFile lg1 else lg1)\<rparr>)"

section \<open>Start-up, one client, shutdown\<close>

text \<open>\<open>start\<close> up to the accept loop; the first component is false when it returns early.\<close>

definition server_start :: "os \<Rightarrow> FTPServer \<Rightarrow> hist \<Rightarrow> bool \<times> FTPServer \<times> hist" where
  "server_start os srv h =
     (let srv0 = srv\<lparr>srv_pool := Pool_running\<rparr>;
          (sock, h1) = createTcpSocket os h
      in if sock = kInvalidSocket then (False, srv0, h1)
         else let srv1 = srv0\<lparr>srv_listen := sock\<rparr>;
                  h2 = setReuseAddr os sock h1;
                  (b, h3) = bindSocket os sock (srv_port srv) h2
              in if b < 0 then (False, srv1, h3)
                 else let (l, h4) = listenSocket os sock (maxClients srv) h3
                      in if l < 0 then (False, srv1, h4)
                         else let srv2 = srv1\<lparr>srv_running := True\<rparr>
                              in if 0 < adminPort srv
                                 then let (a, h5) = admin_start os (new_admin (adminPort srv)) h4
                                      in (True, srv2\<lparr>srv_admin := Some a\<rparr>, h5)
                                 else (True, srv2, h4))"

text \<open>The body of the accept loop, with what becomes of the client.\<close>

datatype fate = No_client | Rejected | Submitted handle string | Accept_waits

definition busy_reply :: string where
  "busy_reply = ''421 Server busy.'' @ [carriage_return, newline]"

definition at_capacity :: "FTPServer \<Rightarrow> bool" where
  "at_capacity srv \<longleftrightarrow> word_of_int (maxClients srv) \<le> activeConnections (srv_ctx srv)"

definition accept_client :: "os \<Rightarrow> FTPServer \<Rightarrow> hist \<Rightarrow> fate \<times> hist" where
  "accept_client os srv h =
     (case acceptConnection os (srv_listen srv) h of
        (None, h1) \<Rightarrow> (Accept_waits, h1)
      | (Some clientSock, h1) \<Rightarrow>
          (if clientSock = kInvalidSocket then (No_client, h1)
           else let (clientIp, h2) = getPeerIp os clientSock h1
                in if at_capacity srv
                   then (Rejected, closeSocket os clientSock (snd (sendData os clientSock busy_reply h2)))
                   else (Submitted clientSock clientIp, h2)))"

definition server_shutdown :: "os \<Rightarrow> caller \<Rightarrow> FTPServer \<Rightarrow> hist \<Rightarrow> (FTPServer \<times> hist) stopping" where
  "server_shutdown os who srv h =
     (if \<not> srv_running srv then Stopped (srv, h)
      else let (fd, h1) = ms_close os (srv_listen srv) h;
               srv1 = srv\<lparr>srv_running := False, srv_listen := fd\<rparr>
           in case srv_admin srv of
                None \<Rightarrow> Stopped (srv1\<lparr>srv_pool := Pool_shut\<rparr>, h1)
              | Some a \<Rightarrow>
                  (case admin_stop os who a h1 of
                     Terminated (a', h2) \<Rightarrow> Terminated (srv1\<lparr>srv_admin := Some a'\<rparr>, h2)
                   | Stopped (a', h2) \<Rightarrow> Stopped (srv1\<lparr>srv_admin := None, srv_pool := Pool_shut\<rparr>, h2)))"

text \<open>One turn of the dashboard's loop; \<open>None\<close> while \<open>accept\<close> blocks.\<close>

definition admin_turn ::
    "os \<Rightarrow> string option \<Rightarrow> AdminServer \<Rightarrow> FTPServer \<Rightarrow> hist \<Rightarrow> (FTPServer \<times> hist) stopping option" where
  "admin_turn os env a srv h =
     (case acceptConnection os (adm_listen a) h of
        (None, h1) \<Rightarrow> None
      | (Some clientSock, h1) \<Rightarrow>
          (if clientSock = kInvalidSocket then Some (Stopped (srv, h1))
           else let h2 = setRecvTimeout os clientSock 2 h1;
                    (peerIp, h3) = getPeerIp os clientSock h2;
                    (stop, h4) = handleClient os env (srv_ctx srv) clientSock h3
                in if stop
                   then Some (case server_shutdown os Admin_thread srv h4 of
                                Terminated r \<Rightarrow> Terminated r
                              | Stopped (srv', h5) \<Rightarrow> Stopped (srv', closeSocket os clientSock h5))
                   else Some (Stopped (srv, closeSocket os clientSock h4))))"

section \<open>The accept loop, the workers and the sessions\<close>

text \<open>
  What they share. \<open>serving\<close> are the clients whose session a worker runs, \<open>lost\<close> counts the
  sessions that an exception ended.
\<close>

record service =
  server :: FTPServer
  backlog :: "(handle \<times> string) list"
  serving :: "(handle \<times> string) list"
  lost :: nat
  svc_trace :: hist

definition set_active :: "64 word \<Rightarrow> service \<Rightarrow> service" where
  "set_active n s = s\<lparr>server := (server s)\<lparr>srv_ctx := (srv_ctx (server s))\<lparr>activeConnections := n\<rparr>\<rparr>\<rparr>"

definition active :: "service \<Rightarrow> 64 word" where
  "active s = activeConnections (srv_ctx (server s))"

text \<open>
  The steps: one turn of the accept loop; a free worker constructs the session of the next
  client; a session works on the context (the counters of connections are its constructor's
  and its end's alone); a session ends, by itself or by an exception.
\<close>

inductive service_step :: "os \<Rightarrow> nat \<Rightarrow> service \<Rightarrow> service \<Rightarrow> bool" for os n where
  nobody: "accept_client os (server s) (svc_trace s) = (f, h) \<Longrightarrow> f = No_client \<or> f = Rejected \<Longrightarrow>
    srv_running (server s) \<Longrightarrow> service_step os n s (s\<lparr>svc_trace := h\<rparr>)"
| submit: "accept_client os (server s) (svc_trace s) = (Submitted cs ip, h) \<Longrightarrow>
    srv_running (server s) \<Longrightarrow>
    service_step os n s (s\<lparr>backlog := backlog s @ [(cs, ip)], svc_trace := h\<rparr>)"
| construct: "backlog s = (cs, ip) # rest \<Longrightarrow> length (serving s) < n \<Longrightarrow>
    w = new_session os cs ip (srv_ctx (server s)) (svc_trace s) \<Longrightarrow>
    service_step os n s
      (s\<lparr>server := (server s)\<lparr>srv_ctx := ctx w\<rparr>, backlog := rest, serving := (cs, ip) # serving s,
         svc_trace := trace w\<rparr>)"
| work: "activeConnections c = active s \<Longrightarrow>
    service_step os n s (s\<lparr>server := (server s)\<lparr>srv_ctx := c\<rparr>, svc_trace := h\<rparr>)"
| finish: "i < length (serving s) \<Longrightarrow>
    service_step os n s
      (set_active (atomic_dec (active s)) (s\<lparr>serving := take i (serving s) @ drop (Suc i) (serving s)\<rparr>))"
| throw: "i < length (serving s) \<Longrightarrow>
    service_step os n s
      (s\<lparr>serving := take i (serving s) @ drop (Suc i) (serving s), lost := Suc (lost s)\<rparr>)"

definition new_service :: "FTPServer \<Rightarrow> hist \<Rightarrow> service" where
  "new_service srv h = \<lparr>server = srv, backlog = [], serving = [], lost = 0, svc_trace = h\<rparr>"

inductive service_reachable :: "os \<Rightarrow> nat \<Rightarrow> service \<Rightarrow> service \<Rightarrow> bool" for os n s0 where
  start: "service_reachable os n s0 s0"
| step: "service_reachable os n s0 s \<Longrightarrow> service_step os n s s' \<Longrightarrow> service_reachable os n s0 s'"

lemma active_simps [simp]:
  "active (set_active k s) = k"
  "active (s\<lparr>backlog := b\<rparr>) = active s" "active (s\<lparr>serving := c\<rparr>) = active s"
  "active (s\<lparr>lost := l\<rparr>) = active s" "active (s\<lparr>svc_trace := h\<rparr>) = active s"
  "active (s\<lparr>server := (server s)\<lparr>srv_ctx := x\<rparr>\<rparr>) = activeConnections x"
  "serving (set_active k s) = serving s" "lost (set_active k s) = lost s"
  "backlog (set_active k s) = backlog s"
  by (simp_all add: active_def set_active_def)

lemma new_session_active: "activeConnections (ctx (new_session os cs ip c h)) = activeConnections c + 1"
  by (simp add: new_session_def Let_def atomic_inc_def)

text \<open>The counter counts the sessions in the workers and those that were lost.\<close>

definition counter_ok :: "nat \<Rightarrow> service \<Rightarrow> bool" where
  "counter_ok n s \<longleftrightarrow> length (serving s) \<le> n \<and>
     (n + lost s < 2 ^ 64 \<longrightarrow> unat (active s) = length (serving s) + lost s)"

lemma unat_inc: "unat (x :: 64 word) + 1 < 2 ^ 64 \<Longrightarrow> unat (x + 1) = unat x + 1"
  by (simp add: unat_word_ariths)

lemma unat_dec: "unat (atomic_dec x) = unat x - 1"
  by (simp add: atomic_dec_def unat_minus_one)

lemma counter_ok_step: "service_step os n s s' \<Longrightarrow> counter_ok n s \<Longrightarrow> counter_ok n s'"
proof (induction rule: service_step.induct)
  case (construct s cs ip rest w)
  have a: "activeConnections (ctx w) = active s + 1"
    using construct(3) new_session_active by (simp add: active_def)
  show ?case
  proof (cases "n + lost s < 2 ^ 64")
    case True
    with construct have "unat (active s) = length (serving s) + lost s" by (simp add: counter_ok_def)
    moreover with True construct(2) have "unat (active s + 1) = unat (active s) + 1"
      by (intro unat_inc) simp
    ultimately show ?thesis using a construct(2) by (simp add: counter_ok_def active_def)
  qed (use construct in \<open>simp add: counter_ok_def\<close>)
next
  case (work c s h)
  then show ?case by (simp add: counter_ok_def active_def)
next
  case (finish i s)
  then show ?case by (auto simp: counter_ok_def unat_dec)
next
  case (throw i s)
  then show ?case by (auto simp: counter_ok_def active_def)
qed (simp_all add: counter_ok_def)

lemma limits_step:
  "service_step os n s s' \<Longrightarrow>
     maxClients (server s') = maxClients (server s) \<and> srv_listen (server s') = srv_listen (server s) \<and>
     srv_running (server s') = srv_running (server s) \<and> lost s \<le> lost s'"
  by (induction rule: service_step.induct) (auto simp: set_active_def)

lemma service_invariant:
  assumes "service_reachable os n (new_service srv h) s" and "activeConnections (srv_ctx srv) = 0"
  shows "counter_ok n s \<and> maxClients (server s) = maxClients srv"
  using assms(1)
proof (induction rule: service_reachable.induct)
  case start
  show ?case using assms(2) by (simp add: counter_ok_def new_service_def active_def)
next
  case (step s s')
  then show ?case using counter_ok_step limits_step by metis
qed

section \<open>Reading the configuration\<close>

lemma stoi_int32: "stoi s = Inr i \<Longrightarrow> int32 i"
  by (simp add: stoi_def Let_def split: if_splits)

lemma getInt_int32: "int32 d \<Longrightarrow> int32 (getInt k d cfg)"
  using stoi_int32 by (auto simp: getInt_def split: option.split sum.split)

text \<open>What the conversion of an \<open>int\<close> to \<open>uint64_t\<close> and the scaling give.\<close>

lemma uint64_of_int:
  fixes x :: int
  shows "0 \<le> x \<Longrightarrow> x < 2 ^ 64 \<Longrightarrow> unat (word_of_int x :: 64 word) = nat x"
    and "- (2 ^ 63) < x \<Longrightarrow> x < 0 \<Longrightarrow> 2 ^ 63 < unat (word_of_int x :: 64 word)"
proof -
  have u: "unat (word_of_int x :: 64 word) = nat (x mod 2 ^ 64)"
    by (simp add: unat_eq_nat_uint uint_word_of_int_eq take_bit_eq_mod)
  { assume "0 \<le> x" "x < 2 ^ 64"
    then have "x mod 2 ^ 64 = x" by (intro mod_pos_pos_trivial)
    with u show "unat (word_of_int x :: 64 word) = nat x" by simp }
  { assume x: "- (2 ^ 63) < x" "x < 0"
    have "x mod 2 ^ 64 = (x + 2 ^ 64) mod 2 ^ 64" by simp
    also have "\<dots> = x + 2 ^ 64" using x by (intro mod_pos_pos_trivial) simp_all
    finally show "2 ^ 63 < unat (word_of_int x :: 64 word)" using u x by simp }
qed

lemma scaled_size:
  assumes "int32 m" and "k \<le> (1048576 :: int)" and "0 < k"
  shows "0 \<le> m \<Longrightarrow> unat (word_of_int (m * k) :: 64 word) = nat (m * k)"
    and "m < 0 \<Longrightarrow> 2 ^ 63 < unat (word_of_int (m * k) :: 64 word)"
proof -
  have "\<bar>m\<bar> * k \<le> 2147483648 * 1048576"
    using assms by (intro mult_mono) (auto simp: int32_def)
  then have b: "\<bar>m * k\<bar> \<le> 2147483648 * 1048576" using assms(3) by (simp add: abs_mult)
  { assume "0 \<le> m"
    then have "0 \<le> m * k" using assms(3) by simp
    with b show "unat (word_of_int (m * k) :: 64 word) = nat (m * k)"
      by (intro uint64_of_int(1)) simp_all }
  { assume "m < 0"
    then have "m * k < 0" using assms(3) by (simp add: mult_neg_pos)
    with b show "2 ^ 63 < unat (word_of_int (m * k) :: 64 word)"
      by (intro uint64_of_int(2)) simp_all }
qed

lemma scaled_limit:
  assumes "int32 m" and "k \<le> 1048576" and "0 < k"
  shows "if 0 \<le> m then unat (word_of_int (m * k) :: 64 word) = nat m * nat k
    else 2 ^ 63 < unat (word_of_int (m * k) :: 64 word)"
proof (cases "0 \<le> m")
  case True
  with scaled_size(1)[OF assms] show ?thesis by (simp add: nat_mult_distrib)
next
  case False
  with scaled_size(2)[OF assms] show ?thesis by simp
qed

section \<open>Properties\<close>


definition demo_server :: FTPServer where
  "demo_server = (new_server (\<lambda>f. None) (\<lambda>f. True) empty_config new_logger)
     \<lparr>srv_listen := 3, srv_running := True, srv_pool := Pool_running\<rparr>"

lemma demo_server_simps [simp]:
  "srv_listen demo_server = 3" "srv_running demo_server" "srv_pool demo_server = Pool_running"
  "maxClients demo_server = 100" "activeConnections (srv_ctx demo_server) = 0"
  "srv_admin demo_server = None"
  by (simp_all add: demo_server_def new_server_def server_context_def getInt_def empty_config_def Let_def)


text \<open>Clients that are accepted while all workers are busy are queued without a bound: whatever
  number \<open>k\<close>, a server that is below its limit can come to have \<open>k\<close> clients in the queue, none of them
  refused or greeted.\<close>

theorem clients_queue_without_bound:
  assumes "srv_running srv" and "\<not> at_capacity srv"
    and "\<forall>h. \<exists>fd\<ge>0. os_accept os h (srv_listen srv) = Accepted fd"
  shows "\<exists>s. service_reachable os n (new_service srv h) s \<and> length (backlog s) = k \<and>
    serving s = [] \<and> server s = srv"
proof (induction k)
  case 0
  show ?case
    by (intro exI[of _ "new_service srv h"] conjI service_reachable.start) (simp_all add: new_service_def)
next
  case (Suc k)
  then obtain s where s: "service_reachable os n (new_service srv h) s" "length (backlog s) = k"
    "serving s = []" "server s = srv" by blast
  from assms(3) obtain fd where fd: "0 \<le> fd" "os_accept os (svc_trace s) (srv_listen srv) = Accepted fd"
    by blast
  define h1 where "h1 = svc_trace s @ [Ev_accept (srv_listen srv) fd]"
  have "acceptConnection os (srv_listen srv) (svc_trace s) = (Some fd, h1)"
    using fd by (simp add: acceptConnection_def toPosix_def fromPosix_def h1_def)
  then have "accept_client os (server s) (svc_trace s) =
      (Submitted fd (fst (getPeerIp os fd h1)), snd (getPeerIp os fd h1))"
    using fd(1) assms(2) s(4) by (simp add: accept_client_def split_beta kInvalidSocket_def)
  from service_step.submit[OF this] assms(1) s(4)
  have "service_step os n s (s\<lparr>backlog := backlog s @ [(fd, fst (getPeerIp os fd h1))],
      svc_trace := snd (getPeerIp os fd h1)\<rparr>)" by simp
  from service_reachable.step[OF s(1) this] s(2-4) show ?case
    by (intro exI conjI) (assumption, simp_all)
qed

lemma clients_queue_without_bound_witness:
  "\<exists>s. service_reachable demo_os 4 (new_service demo_server []) s \<and> length (backlog s) = 1000 \<and>
    serving s = [] \<and> server s = demo_server"
proof (rule clients_queue_without_bound)
  show "\<not> at_capacity demo_server" by (simp add: at_capacity_def word_le_nat_alt)
  show "\<forall>h. \<exists>fd\<ge>0. os_accept demo_os h (srv_listen demo_server) = Accepted fd"
    by (simp add: demo_os_def)
qed simp

lemma limits_of_context:
  fixes read_file cfg
  defines "mb \<equiv> getInt ''max_file_size_mb'' 0 cfg" and "kb \<equiv> getInt ''bandwidth_limit_kbps'' 0 cfg"
    and "c \<equiv> server_context read_file cfg"
  shows "(if 0 \<le> mb then unat (maxFileSizeBytes c) = nat mb * 2 ^ 20 else 2 ^ 63 < unat (maxFileSizeBytes c)) \<and>
    (if 0 \<le> kb then unat (bandwidthLimitBps c) = nat kb * 2 ^ 10 else 2 ^ 63 < unat (bandwidthLimitBps c))"
proof -
  have m: "int32 mb" "int32 kb" unfolding mb_def kb_def by (intro getInt_int32; simp add: int32_def)+
  have "maxFileSizeBytes c = word_of_int (mb * 1048576)"
    by (simp add: c_def mb_def server_context_def mult.assoc)
  moreover have "bandwidthLimitBps c = word_of_int (kb * 1024)"
    by (simp add: c_def kb_def server_context_def)
  moreover have "if 0 \<le> mb then unat (word_of_int (mb * 1048576) :: 64 word) = nat mb * 2 ^ 20
      else 2 ^ 63 < unat (word_of_int (mb * 1048576) :: 64 word)"
    using scaled_limit[OF m(1), of 1048576] by (cases "0 \<le> mb") simp_all
  moreover have "if 0 \<le> kb then unat (word_of_int (kb * 1024) :: 64 word) = nat kb * 2 ^ 10
      else 2 ^ 63 < unat (word_of_int (kb * 1024) :: 64 word)"
    using scaled_limit[OF m(2), of 1024] by (cases "0 \<le> kb") simp_all
  ultimately show ?thesis by (simp only: simp_thms)
qed

text \<open>The limits the sessions work with are the configured ones in bytes, without overflow, when
  the numbers in the file are not negative; a negative number becomes a limit above \<open>2^63\<close>, and
  not the \<open>0\<close> that switches the limit off.\<close>

theorem limits_from_config:
  "let mb = getInt ''max_file_size_mb'' 0 cfg; kb = getInt ''bandwidth_limit_kbps'' 0 cfg;
       c = server_context read_file cfg
   in (if 0 \<le> mb then unat (maxFileSizeBytes c) = nat mb * 2 ^ 20 else 2 ^ 63 < unat (maxFileSizeBytes c)) \<and>
      (if 0 \<le> kb then unat (bandwidthLimitBps c) = nat kb * 2 ^ 10 else 2 ^ 63 < unat (bandwidthLimitBps c))"
  unfolding Let_def by (rule limits_of_context)

text \<open>Stopping the server from the dashboard ends the process: \<open>shutdown\<close> runs in the
  dashboard's thread, which joins itself in the destructor of its thread object. The thread
  pool is not shut down. From any other thread the same call stops dashboard and pool and
  closes both listening sockets.\<close>

theorem web_stop_kills_process:
  assumes "srv_running srv" and "srv_admin srv = Some a" and "adm_running a" and "adm_thread a"
    and "server_shutdown os who srv h = r"
  shows "if who = Admin_thread
    then (\<exists>srv' h'. r = Terminated (srv', h') \<and> srv_pool srv' = srv_pool srv \<and> \<not> srv_running srv')
    else (\<exists>srv' h'. r = Stopped (srv', h') \<and> srv_pool srv' = Pool_shut \<and> srv_admin srv' = None \<and>
            \<not> srv_running srv' \<and> srv_listen srv' = kInvalidSocket)"
  using assms
  by (auto simp: server_shutdown_def admin_stop_def split_beta Let_def trace_simps)

definition stopped_server :: FTPServer where
  "stopped_server = demo_server\<lparr>srv_admin := Some \<lparr>adm_port = 8080, adm_listen = 4, adm_running = True, adm_thread = True\<rparr>\<rparr>"

lemma web_stop_kills_process_witness:
  "\<exists>srv' h'. server_shutdown demo_os Admin_thread stopped_server [] = Terminated (srv', h') \<and>
     srv_pool srv' = Pool_running \<and> \<not> srv_running srv'"
  using web_stop_kills_process[of stopped_server _ demo_os Admin_thread "[]", OF _ _ _ _ refl]
  by (simp add: stopped_server_def)

end
