(* ===== verification/Server_Main.thy ===== *)
theory Server_Main
  imports Server
begin

text \<open>
  \<open>src/server/main.cpp\<close>: the server program up to its accept loop, and the handler of the
  signals that end it. \<open>initNetworking\<close> succeeds on POSIX. What goes to the console is left out.
\<close>

definition config_path :: "string list \<Rightarrow> string" where
  "config_path args = (case args of [] \<Rightarrow> ''config/server.conf'' | path # rest \<Rightarrow> path)"

text \<open>\<open>Some 1\<close> is the exit code of a server that did not start; \<open>None\<close> one that has entered its accept loop.\<close>

definition server_main ::
    "os \<Rightarrow> (string \<Rightarrow> string option) \<Rightarrow> (string \<Rightarrow> bool) \<Rightarrow> string list \<Rightarrow> Logger \<Rightarrow> hist \<Rightarrow>
     int option \<times> FTPServer \<times> hist" where
  "server_main os read_file opens args lg h =
     (let (loaded, config) = load (read_file (config_path args)) empty_config;
          server = new_server read_file opens config lg;
          (started, server', h') = server_start os server h
      in (if started then None else Some 1, server', h'))"

text \<open>\<open>g_server\<close> is null until the server has been constructed.\<close>

definition signalHandler :: "os \<Rightarrow> FTPServer option \<Rightarrow> hist \<Rightarrow> (FTPServer option \<times> hist) stopping" where
  "signalHandler os g_server h =
     (case g_server of
        None \<Rightarrow> Stopped (None, h)
      | Some srv \<Rightarrow>
          (case server_shutdown os Main_thread srv h of
             Stopped (srv', h') \<Rightarrow> Stopped (Some srv', h')
           | Terminated (srv', h') \<Rightarrow> Terminated (Some srv', h')))"

lemma admin_start_extends: "admin_start os a h = (a', h') \<Longrightarrow> \<exists>es. h' = h @ es"
  by (auto simp: admin_start_def createTcpSocket_def setReuseAddr_def bindSocket_def listenSocket_def
      closeSocket_def Let_def split: if_splits)

text \<open>C29. From the configuration file to the socket: a server that starts with a written configuration listens on a
  socket of its own, bound to the configured port modulo 65536, with the configured number of clients
  as the backlog - when the file says nothing, on port 21 for 100 clients - and its limits are the
  configured ones.\<close>

theorem server_listens_as_configured:
  assumes "server_main os read_file opens args lg h = (None, srv, h')"
    and "read_file (config_path args) = Some (config_text pad kvs)"
    and "\<forall>kv\<in>set kvs. valid_setting kv" and "\<forall>c\<in>set pad. is_blank c"
  shows "\<exists>es. h' = h @ Ev_socket (srv_listen srv) # Ev_setsockopt (srv_listen srv) Opt_reuseaddr #
        Ev_bind (srv_listen srv) (word_of_int (getInt ''port'' 21 \<lparr>data = map_of (rev kvs)\<rparr>)) #
        Ev_listen (srv_listen srv) (getInt ''max_clients'' 100 \<lparr>data = map_of (rev kvs)\<rparr>) # es \<and>
     0 \<le> srv_listen srv \<and> srv_running srv \<and>
     srv_ctx srv = server_context read_file \<lparr>data = map_of (rev kvs)\<rparr>"
proof -
  let ?cfg = "\<lparr>data = map_of (rev kvs)\<rparr>"
  have cfg: "load (Some (config_text pad kvs)) empty_config = (True, ?cfg)"
    using load_config_text[OF assms(3,4), of empty_config] by (simp add: empty_config_def)
  have start: "server_start os (new_server read_file opens ?cfg lg) h = (True, srv, h')"
    using assms(1,2) cfg by (auto simp: server_main_def split: prod.splits if_splits)
  show ?thesis
    using start
    by (auto simp: server_start_def new_server_def createTcpSocket_def fromPosix_def kInvalidSocket_def toPosix_def
        setReuseAddr_def bindSocket_def listenSocket_def Let_def split: if_splits prod.splits dest!: admin_start_extends)
qed

definition demo_files :: "string \<Rightarrow> string option" where
  "demo_files path = (if path = ''my.conf'' then Some (config_text '' '' [(''port'', ''2121'')]) else None)"

lemma demo_starts: "\<exists>srv' h'. server_start demo_os srv h = (True, srv', h')"
proof -
  have "fst (server_start demo_os srv h)"
    by (simp add: server_start_def demo_os_def createTcpSocket_def fromPosix_def kInvalidSocket_def bindSocket_def
        listenSocket_def Let_def split_beta)
  then show ?thesis by (cases "server_start demo_os srv h") auto
qed

theorem server_listens_as_configured_witness:
  "\<exists>srv h'. server_main demo_os demo_files (\<lambda>p. True) [''my.conf''] new_logger [] = (None, srv, h') \<and>
     Ev_bind (srv_listen srv) 2121 \<in> set h'"
proof -
  have cfg: "load (Some (config_text '' '' [(''port'', ''2121'')])) empty_config =
      (True, \<lparr>data = [''port'' \<mapsto> ''2121'']\<rparr>)"
    using load_config_text[of "[(''port'', ''2121'')]" "'' ''" empty_config]
    by (simp add: trimmed_def is_blank_def empty_config_def)
  obtain srv h' where run: "server_main demo_os demo_files (\<lambda>p. True) [''my.conf''] new_logger [] = (None, srv, h')"
    using demo_starts[of "new_server demo_files (\<lambda>p. True) \<lparr>data = [''port'' \<mapsto> ''2121'']\<rparr> new_logger" "[]"]
    by (auto simp: server_main_def config_path_def demo_files_def cfg)
  have "getInt ''port'' 21 \<lparr>data = map_of (rev [(''port'', ''2121'')])\<rparr> = 2121"
    by (simp add: getInt_def stoi_def is_space_def is_digit_def dec_def digit_val_def int32_def Let_def)
  with server_listens_as_configured[OF run, where kvs = "[(''port'', ''2121'')]" and pad = "'' ''"]
  have "Ev_bind (srv_listen srv) 2121 \<in> set h'"
    by (auto simp: demo_files_def config_path_def trimmed_def is_blank_def)
  with run show ?thesis by blast
qed

end
