(* ===== verification/Client.thy ===== *)
theory Client
  imports Data_Channel Transfer_Engine
begin

text \<open>
  \<open>src/client/ftp_client.h\<close> and \<open>src/client/ftp_client.cpp\<close>: reading replies, the passive data
  connection and the operations of the client. Console output is left out. A result \<open>None\<close>
  is a call that does not return: it waits for a silent server, or its loop never ends.
\<close>

section \<open>Reading replies\<close>

text \<open>One byte per \<open>recv\<close>; the end of the connection ends the line.\<close>

function read_line :: "net_in \<Rightarrow> string \<Rightarrow> (string \<times> net_in) option" where
  "read_line inp reply =
     (case recvData 1 inp of
        (R_data s, inp') \<Rightarrow>
          (if hd s = newline then Some (reply, inp')
           else read_line inp' (if hd s \<noteq> carriage_return then reply @ [hd s] else reply))
      | (R_end, inp') \<Rightarrow> Some (reply, inp')
      | (R_blocks, inp') \<Rightarrow> None)"
  by pat_completeness auto
termination
  by (relation "measure (\<lambda>(inp, reply). sum_list (map length (fst inp)))")
     (auto dest!: recvData_decreases[OF sym])

declare read_line.simps [simp del]

definition ends_reply :: "string \<Rightarrow> string \<Rightarrow> bool" where
  "ends_reply code line \<longleftrightarrow> 4 \<le> length line \<and> take 3 line = code \<and> line ! 3 = CHR '' ''"

text \<open>The loop over the lines of a reply of several lines: it is left by its last line only.\<close>

partial_function (option) read_rest :: "string \<Rightarrow> net_in \<Rightarrow> net_in option" where
  "read_rest code inp =
     Option.bind (read_line inp [])
       (\<lambda>(line, inp'). if ends_reply code line then Some inp' else read_rest code inp')"

definition starts_multi :: "string \<Rightarrow> bool" where
  "starts_multi reply \<longleftrightarrow> 4 \<le> length reply \<and> reply ! 3 = CHR ''-''"

definition readReply :: "net_in \<Rightarrow> (string \<times> net_in) option" where
  "readReply inp =
     Option.bind (read_line inp [])
       (\<lambda>(reply, inp'). if starts_multi reply
          then map_option (Pair reply) (read_rest (take 3 reply) inp')
          else Some (reply, inp'))"

definition getReplyCode :: "string \<Rightarrow> int" where
  "getReplyCode r =
     (if 3 \<le> length r then (case stoi (take 3 r) of Inr code \<Rightarrow> code | Inl e \<Rightarrow> 0) else 0)"

section \<open>The control connection\<close>

record client =
  cl_socket :: handle
  cl_in :: net_in
  cl_trace :: hist

definition sendCommand :: "os \<Rightarrow> string \<Rightarrow> client \<Rightarrow> client" where
  "sendCommand os cmd c = c\<lparr>cl_trace := snd (sendData os (cl_socket c) (cmd @ crlf) (cl_trace c))\<rparr>"

definition read_from :: "client \<Rightarrow> (string \<times> client) option" where
  "read_from c = map_option (\<lambda>(r, i). (r, c\<lparr>cl_in := i\<rparr>)) (readReply (cl_in c))"

definition exchange :: "os \<Rightarrow> string \<Rightarrow> client \<Rightarrow> (string \<times> client) option" where
  "exchange os cmd c = read_from (sendCommand os cmd c)"

definition close_control :: "os \<Rightarrow> client \<Rightarrow> client" where
  "close_control os c =
     (let (fd, h) = ms_close os (cl_socket c) (cl_trace c) in c\<lparr>cl_socket := fd, cl_trace := h\<rparr>)"

definition connect :: "os \<Rightarrow> string \<Rightarrow> int \<Rightarrow> client \<Rightarrow> (bool \<times> client) option" where
  "connect os host port c =
     (let (sock, h) = connectSocket os host port (cl_trace c)
      in if sock = kInvalidSocket then Some (False, c\<lparr>cl_trace := h\<rparr>)
         else let c1 = (close_control os (c\<lparr>cl_trace := h\<rparr>))\<lparr>cl_socket := sock\<rparr>;
                  c2 = c1\<lparr>cl_in := os_incoming os (cl_trace c1) (toPosix sock)\<rparr>
              in map_option (\<lambda>(welcome, c3). (getReplyCode welcome = 220, c3)) (read_from c2))"

definition disconnect :: "os \<Rightarrow> client \<Rightarrow> client option" where
  "disconnect os c =
     (if ms_valid (cl_socket c)
      then map_option (\<lambda>(r, c1). close_control os c1) (exchange os ''QUIT'' c)
      else Some c)"

definition login :: "os \<Rightarrow> string \<Rightarrow> string \<Rightarrow> client \<Rightarrow> (bool \<times> client) option" where
  "login os user pass c =
     Option.bind (exchange os (''USER '' @ user) c)
       (\<lambda>(r1, c1). if getReplyCode r1 \<noteq> 331 then Some (False, c1)
          else map_option (\<lambda>(r2, c2). (getReplyCode r2 = 230, c2)) (exchange os (''PASS '' @ pass) c1))"

section \<open>The passive data connection\<close>

text \<open>
  What is between the parentheses of the reply. With the parentheses in the wrong order the
  length wraps around and the rest of the reply is taken.
\<close>

definition between_parens :: "string \<Rightarrow> string option" where
  "between_parens reply =
     (case (find_char CHR ''('' reply, find_char CHR '')'' reply) of
        (Some s, Some e) \<Rightarrow> Some (if s < e then substr (Suc s) (e - s - 1) reply else drop (Suc s) reply)
      | _ \<Rightarrow> None)"

text \<open>The loop over the numbers is the one of the \<open>PORT\<close> parser, and so are its failures.\<close>

definition pasv_address :: "string \<Rightarrow> cxx_exn + string \<times> int" where
  "pasv_address text =
     (case parse_numbers text (replicate 6 0) 0 [] of
        Inl e \<Rightarrow> Inl e
      | Inr nums \<Rightarrow> host_port nums)"

definition openDataConnection :: "os \<Rightarrow> client \<Rightarrow> (cxx_exn + handle \<times> client) option" where
  "openDataConnection os c =
     map_option (\<lambda>(reply, c1).
       if getReplyCode reply \<noteq> 227 then Inr (kInvalidSocket, c1)
       else case between_parens reply of
              None \<Rightarrow> Inr (kInvalidSocket, c1)
            | Some text \<Rightarrow>
                (case pasv_address text of
                   Inl e \<Rightarrow> Inl e
                 | Inr (ip, port) \<Rightarrow>
                     (let (ds, h) = connectSocket os ip port (cl_trace c1)
                      in Inr (ds, c1\<lparr>cl_trace := h\<rparr>))))
       (exchange os ''PASV'' c)"

section \<open>Operations\<close>

definition close_data :: "os \<Rightarrow> handle \<Rightarrow> client \<Rightarrow> client" where
  "close_data os ds c = c\<lparr>cl_trace := snd (ms_close os ds (cl_trace c))\<rparr>"

text \<open>The loops that receive until the peer ends the connection: the chunks, in order. Buffers are not empty.\<close>

function recv_all :: "nat \<Rightarrow> net_in \<Rightarrow> string list option" where
  "recv_all len inp =
     (case recvData (max 1 len) inp of
        (R_data buf, inp') \<Rightarrow> map_option (Cons buf) (recv_all len inp')
      | (R_end, inp') \<Rightarrow> Some []
      | (R_blocks, inp') \<Rightarrow> None)"
  by pat_completeness auto
termination
  by (relation "measure (\<lambda>(len, inp). sum_list (map length (fst inp)))")
     (auto dest!: recvData_decreases[OF sym])

declare recv_all.simps [simp del]

text \<open>\<open>list\<close> returns the listing it prints.\<close>

definition list_dir :: "os \<Rightarrow> client \<Rightarrow> (cxx_exn + string \<times> client) option" where
  "list_dir os c =
     Option.bind (openDataConnection os c) (\<lambda>r. case r of
        Inl e \<Rightarrow> Some (Inl e)
      | Inr (ds, c1) \<Rightarrow>
          if \<not> ms_valid ds then Some (Inr ([], c1))
          else Option.bind (exchange os ''LIST'' c1) (\<lambda>(r150, c2).
            Option.bind (recv_all 4096 (os_incoming os (cl_trace c2) (toPosix ds))) (\<lambda>bufs.
              map_option (\<lambda>(r226, c3). Inr (concat bufs, close_data os ds c3)) (read_from c2))))"

definition one_command :: "os \<Rightarrow> string \<Rightarrow> client \<Rightarrow> client option" where
  "one_command os cmd c = map_option snd (exchange os cmd c)"

definition pwd_cmd :: "os \<Rightarrow> client \<Rightarrow> client option" where
  "pwd_cmd os = one_command os ''PWD''"

definition cd_cmd :: "os \<Rightarrow> string \<Rightarrow> client \<Rightarrow> client option" where
  "cd_cmd os d = one_command os (''CWD '' @ d)"

definition delete_cmd :: "os \<Rightarrow> string \<Rightarrow> client \<Rightarrow> client option" where
  "delete_cmd os f = one_command os (''DELE '' @ f)"

definition mkdir_cmd :: "os \<Rightarrow> string \<Rightarrow> client \<Rightarrow> client option" where
  "mkdir_cmd os d = one_command os (''MKD '' @ d)"

definition rmdir_cmd :: "os \<Rightarrow> string \<Rightarrow> client \<Rightarrow> client option" where
  "rmdir_cmd os d = one_command os (''RMD '' @ d)"

definition rename_cmd :: "os \<Rightarrow> string \<Rightarrow> string \<Rightarrow> client \<Rightarrow> client option" where
  "rename_cmd os old new c =
     Option.bind (one_command os (''RNFR '' @ old) c) (one_command os (''RNTO '' @ new))"

definition cl_event :: "event list \<Rightarrow> client \<Rightarrow> client" where
  "cl_event es c = c\<lparr>cl_trace := cl_trace c @ es\<rparr>"

text \<open>The local file cannot be created: the function returns, the transfer and its final reply unread.\<close>

definition download :: "os \<Rightarrow> string \<Rightarrow> client \<Rightarrow> (cxx_exn + client) option" where
  "download os filename c =
     Option.bind (openDataConnection os c) (\<lambda>r. case r of
        Inl e \<Rightarrow> Some (Inl e)
      | Inr (ds, c1) \<Rightarrow>
          if \<not> ms_valid ds then Some (Inr c1)
          else Option.bind (exchange os (''RETR '' @ filename) c1) (\<lambda>(reply, c2).
            if getReplyCode reply \<noteq> 150 then Some (Inr (close_data os ds c2))
            else let c3 = cl_event [Ev_fopen filename ''wb''] c2
                 in if \<not> os_fopen os (cl_trace c2) filename ''wb''
                    then Some (Inr (close_data os ds c3))
                    else Option.bind (recv_all 8192 (os_incoming os (cl_trace c3) (toPosix ds))) (\<lambda>bufs.
                      map_option (\<lambda>(r226, c4). Inr (close_data os ds c4))
                        (read_from (cl_event (map (Ev_fwrite filename) bufs @ [Ev_fclose filename]) c3)))))"

function send_left :: "os \<Rightarrow> handle \<Rightarrow> string \<Rightarrow> string \<Rightarrow> hist \<Rightarrow> hist" where
  "send_left os ds filename left h =
     (let buf = take 8192 left; h1 = h @ [Ev_fread filename (length buf)]
      in if buf = [] then h1
         else send_left os ds filename (drop 8192 left) (snd (sendData os ds buf h1)))"
  by pat_completeness auto
termination
  by (relation "measure (\<lambda>(os, ds, f, left, h). length left)") auto

declare send_left.simps [simp del]

text \<open>The data socket is closed before the final reply is read.\<close>

definition upload :: "os \<Rightarrow> string \<Rightarrow> client \<Rightarrow> (cxx_exn + client) option" where
  "upload os filename c =
     (let c0 = cl_event [Ev_fopen filename ''rb''] c
      in if \<not> os_fopen os (cl_trace c) filename ''rb'' then Some (Inr c0)
         else Option.bind (openDataConnection os c0) (\<lambda>r. case r of
            Inl e \<Rightarrow> Some (Inl e)
          | Inr (ds, c1) \<Rightarrow>
              if \<not> ms_valid ds then Some (Inr (cl_event [Ev_fclose filename] c1))
              else Option.bind (exchange os (''STOR '' @ filename) c1) (\<lambda>(reply, c2).
                if getReplyCode reply \<noteq> 150
                then Some (Inr (cl_event [Ev_fclose filename] (close_data os ds c2)))
                else let content = os_content os (cl_trace c2) filename;
                         c3 = c2\<lparr>cl_trace := send_left os ds filename content (cl_trace c2)\<rparr>;
                         c4 = close_data os ds (cl_event [Ev_fclose filename] c3)
                     in map_option (\<lambda>(r226, c5). Inr c5) (read_from c4))))"

section \<open>What the client reads\<close>

text \<open>
  The bytes still to come on a connection, and connections on which \<open>recv\<close> does not report
  an end before they have all come.
\<close>

definition to_come :: "net_in \<Rightarrow> string" where
  "to_come inp = concat (fst inp)"

definition steady :: "net_in \<Rightarrow> bool" where
  "steady inp \<longleftrightarrow> [] \<notin> set (fst inp)"

lemma recv_byte:
  assumes "steady inp" and "to_come inp = b # bs"
  shows "\<exists>inp'. recvData 1 inp = (R_data [b], inp') \<and> steady inp' \<and> to_come inp' = bs \<and> snd inp' = snd inp"
proof -
  obtain segs e where i: "inp = (segs, e)" by (cases inp)
  with assms obtain seg rest where s: "segs = seg # rest" "seg \<noteq> []"
    by (cases segs) (auto simp: steady_def to_come_def)
  then obtain x xs where x: "seg = x # xs" by (cases seg) auto
  with i s assms show ?thesis
    by (cases xs) (auto simp: steady_def to_come_def)
qed

lemma recv_nothing:
  assumes "steady inp" and "to_come inp = []"
  shows "inp = ([], snd inp)"
  using assms by (cases inp; cases "fst inp") (auto simp: steady_def to_come_def)

lemma read_line_line:
  assumes "steady inp" and "to_come inp = l @ newline # rest" and "newline \<notin> set l"
  shows "\<exists>inp'. read_line inp acc = Some (acc @ filter (\<lambda>c. c \<noteq> carriage_return) l, inp') \<and>
    steady inp' \<and> to_come inp' = rest \<and> snd inp' = snd inp"
  using assms
proof (induction l arbitrary: inp acc)
  case Nil
  then obtain inp' where "recvData 1 inp = (R_data [newline], inp')" "steady inp'"
    "to_come inp' = rest" "snd inp' = snd inp" using recv_byte[of inp newline rest] by auto
  then show ?case by (subst read_line.simps) simp
next
  case (Cons b l)
  then obtain inp' where i: "recvData 1 inp = (R_data [b], inp')" "steady inp'"
    "to_come inp' = l @ newline # rest" "snd inp' = snd inp"
    using recv_byte[of inp b "l @ newline # rest"] by auto
  from Cons.IH[OF i(2,3), of "if b \<noteq> carriage_return then acc @ [b] else acc"] Cons.prems(3) i(1,4)
  show ?case by (subst read_line.simps) auto
qed

end
