(* ===== verification/Client_Replies.thy ===== *)
theory Client_Replies
  imports Client Session
begin

text \<open>
  What the client reads of what the server writes: whole sequences of replies stay in step,
  replies of several lines included; when reading a reply comes to an end at all; and where the
  passive data connection goes. Reading replies is stated once as an interface, a source of
  texts that end with a line end, with two providers: lines and replies.
\<close>

section \<open>Sources of lines\<close>

definition reply_head :: "string \<Rightarrow> string" where
  "reply_head = takeWhile (\<lambda>c. c \<noteq> carriage_return)"

fun read_many :: "(net_in \<Rightarrow> (string \<times> net_in) option) \<Rightarrow> nat \<Rightarrow> net_in \<Rightarrow> (string list \<times> net_in) option" where
  "read_many next_text 0 inp = Some ([], inp)"
| "read_many next_text (Suc n) inp =
     Option.bind (next_text inp)
       (\<lambda>(r, inp'). map_option (\<lambda>(rs, inp''). (r # rs, inp'')) (read_many next_text n inp'))"

locale text_source =
  fixes next_text :: "net_in \<Rightarrow> (string \<times> net_in) option"
    and text_ok :: "string \<Rightarrow> bool"
  assumes next_text:
    "steady inp \<Longrightarrow> to_come inp = r @ crlf @ rest \<Longrightarrow> text_ok r \<Longrightarrow>
     \<exists>inp'. next_text inp = Some (reply_head r, inp') \<and> steady inp' \<and> to_come inp' = rest \<and> snd inp' = snd inp"
begin

lemma read_texts:
  assumes "steady inp" and "to_come inp = concat (map (\<lambda>r. r @ crlf) rs) @ rest" and "\<forall>r\<in>set rs. text_ok r"
  shows "\<exists>inp'. read_many next_text (length rs) inp = Some (map reply_head rs, inp') \<and>
    steady inp' \<and> to_come inp' = rest \<and> snd inp' = snd inp"
  using assms
proof (induction rs arbitrary: inp)
  case (Cons r rs)
  then have "to_come inp = r @ crlf @ (concat (map (\<lambda>r. r @ crlf) rs) @ rest)" by simp
  from next_text[OF Cons.prems(1) this] Cons.prems(3) obtain inp1 where
    1: "next_text inp = Some (reply_head r, inp1)" "steady inp1"
      "to_come inp1 = concat (map (\<lambda>r. r @ crlf) rs) @ rest" "snd inp1 = snd inp" by auto
  from Cons.IH[OF 1(2,3)] Cons.prems(3) 1(1,4) show ?case by auto
qed simp

end

definition plain :: "string \<Rightarrow> bool" where
  "plain l \<longleftrightarrow> newline \<notin> set l \<and> carriage_return \<notin> set l"

lemma plain_simps [simp]:
  "plain []" "plain (l @ l') \<longleftrightarrow> plain l \<and> plain l'"
  by (auto simp: plain_def)

lemma reply_head_plain [simp]: "plain l \<Longrightarrow> reply_head l = l"
  by (auto simp: plain_def reply_head_def takeWhile_eq_all_conv)

lemma reply_head_line: "plain l \<Longrightarrow> reply_head (l @ crlf @ r) = l"
  by (auto simp: plain_def reply_head_def crlf_def takeWhile_append)

lemma read_line_crlf:
  assumes "steady inp" and "to_come inp = l @ crlf @ rest" and "plain l"
  shows "\<exists>inp'. read_line inp [] = Some (l, inp') \<and> steady inp' \<and> to_come inp' = rest \<and> snd inp' = snd inp"
proof -
  have "to_come inp = (l @ [carriage_return]) @ newline # rest" using assms(2) by (simp add: crlf_def)
  moreover have "filter (\<lambda>c. c \<noteq> carriage_return) l = l"
    using assms(3) by (auto simp: plain_def filter_id_conv)
  ultimately show ?thesis
    using read_line_line[OF assms(1), of "l @ [carriage_return]" rest "[]"] assms(3)
    by (simp add: plain_def)
qed

interpretation lines: text_source "\<lambda>inp. read_line inp []" plain
  by unfold_locales (use read_line_crlf in simp)

section \<open>Replies of one line and of several\<close>

fun multi_line :: "string \<Rightarrow> string list \<Rightarrow> string \<Rightarrow> string" where
  "multi_line first mids final = first @ crlf @ concat (map (\<lambda>l. l @ crlf) mids) @ final"

definition reply_ok :: "string \<Rightarrow> bool" where
  "reply_ok r \<longleftrightarrow> (plain r \<and> \<not> starts_multi r) \<or>
     (\<exists>first mids final. r = multi_line first mids final \<and> plain first \<and> starts_multi first \<and>
        (\<forall>l\<in>set mids. plain l \<and> \<not> ends_reply (take 3 first) l) \<and>
        plain final \<and> ends_reply (take 3 first) final)"

lemma read_rest_lines:
  assumes "steady inp" and "to_come inp = concat (map (\<lambda>l. l @ crlf) mids) @ final @ crlf @ rest"
    and "\<forall>l\<in>set mids. plain l \<and> \<not> ends_reply code l" and "plain final" and "ends_reply code final"
  shows "\<exists>inp'. read_rest code inp = Some inp' \<and> steady inp' \<and> to_come inp' = rest \<and> snd inp' = snd inp"
  using assms
proof (induction mids arbitrary: inp)
  case Nil
  then have "to_come inp = final @ crlf @ rest" by simp
  from read_line_crlf[OF Nil.prems(1) this Nil.prems(4)] Nil.prems(5) show ?case
    by (subst read_rest.simps) auto
next
  case (Cons l mids)
  then have t: "to_come inp = l @ crlf @ (concat (map (\<lambda>l. l @ crlf) mids) @ final @ crlf @ rest)" by simp
  from read_line_crlf[OF Cons.prems(1) t] Cons.prems(3) obtain inp1 where
    1: "read_line inp [] = Some (l, inp1)" "steady inp1"
      "to_come inp1 = concat (map (\<lambda>l. l @ crlf) mids) @ final @ crlf @ rest" "snd inp1 = snd inp" by auto
  from Cons.IH[OF 1(2,3)] Cons.prems(3-5) 1(1,4) show ?case by (subst read_rest.simps) auto
qed

lemma readReply_reply:
  assumes "steady inp" and "to_come inp = r @ crlf @ rest" and "reply_ok r"
  shows "\<exists>inp'. readReply inp = Some (reply_head r, inp') \<and> steady inp' \<and> to_come inp' = rest \<and> snd inp' = snd inp"
  using assms(3) unfolding reply_ok_def
proof (elim disjE exE conjE)
  assume "plain r" "\<not> starts_multi r"
  with read_line_crlf[OF assms(1,2)] show ?thesis by (auto simp: readReply_def)
next
  fix first mids final
  assume r: "r = multi_line first mids final" "plain first" "starts_multi first"
    "\<forall>l\<in>set mids. plain l \<and> \<not> ends_reply (take 3 first) l" "plain final" "ends_reply (take 3 first) final"
  then have "to_come inp = first @ crlf @ (concat (map (\<lambda>l. l @ crlf) mids) @ final @ crlf @ rest)"
    using assms(2) by simp
  from read_line_crlf[OF assms(1) this r(2)] obtain inp1 where
    1: "read_line inp [] = Some (first, inp1)" "steady inp1"
      "to_come inp1 = concat (map (\<lambda>l. l @ crlf) mids) @ final @ crlf @ rest" "snd inp1 = snd inp" by auto
  have "reply_head r = first" using r(1,2) reply_head_line by simp
  with read_rest_lines[OF 1(2,3) r(4-6)] 1 r(3) show ?thesis by (auto simp: readReply_def)
qed

interpretation replies: text_source readReply reply_ok
  by unfold_locales (rule readReply_reply)

text \<open>The server's answer to \<open>FEAT\<close> is one reply of five lines.\<close>

definition feat_text :: string where
  "feat_text = ''211-Extensions supported:'' @ crlf @ '' SIZE'' @ crlf @ '' MDTM'' @ crlf @
     '' REST STREAM'' @ crlf @ ''211 End.''"

lemma handleFeat_text: "handleFeat os w = sendReply os feat_text w"
  by (simp add: handleFeat_def feat_text_def crlf_def)

lemma feat_reply_ok: "reply_ok feat_text"
  unfolding reply_ok_def
proof (rule disjI2, rule exI[of _ "''211-Extensions supported:''"],
    rule exI[of _ "['' SIZE'', '' MDTM'', '' REST STREAM'']"], rule exI[of _ "''211 End.''"], intro conjI)
  show "feat_text = multi_line ''211-Extensions supported:'' ['' SIZE'', '' MDTM'', '' REST STREAM''] ''211 End.''"
    by (simp add: feat_text_def)
qed (simp_all add: plain_def starts_multi_def ends_reply_def)

section \<open>When reading a reply ends\<close>

definition no_cr :: "string \<Rightarrow> string" where
  "no_cr = filter (\<lambda>c. c \<noteq> carriage_return)"

text \<open>On a connection the peer closes after its last byte.\<close>

definition finite_source :: "net_in \<Rightarrow> bool" where
  "finite_source inp \<longleftrightarrow> steady inp \<and> snd inp = Peer_closes"

lemma read_line_end:
  assumes "finite_source inp" and "newline \<notin> set (to_come inp)"
  shows "read_line inp acc = Some (acc @ no_cr (to_come inp), ([], Peer_closes))"
  using assms
proof (induction "to_come inp" arbitrary: inp acc)
  case Nil
  then have "inp = ([], Peer_closes)" using recv_nothing[of inp] by (auto simp: finite_source_def)
  then show ?case by (subst read_line.simps) (simp add: to_come_def no_cr_def)
next
  case (Cons b bs)
  then obtain inp' where i: "recvData 1 inp = (R_data [b], inp')" "steady inp'"
    "to_come inp' = bs" "snd inp' = snd inp"
    using recv_byte[of inp b bs] by (auto simp: finite_source_def)
  have n: "newline \<notin> set (b # bs)" using Cons.prems(2) Cons.hyps(2) by metis
  with i Cons.prems(1) have f: "finite_source inp'" "newline \<notin> set (to_come inp')" "b \<noteq> newline"
    by (auto simp: finite_source_def)
  note IH = Cons.hyps(1)[OF i(3)[symmetric] f(1,2)]
  show ?case using i(1,3) f(3)
    by (subst read_line.simps) (auto simp: IH no_cr_def Cons.hyps(2)[symmetric])
qed

text \<open>One line of what is to come, and a line without contents once nothing is left.\<close>

lemma read_line_getlines:
  assumes "finite_source inp"
  shows "\<exists>inp'. read_line inp [] =
      Some (case getlines (to_come inp) of [] \<Rightarrow> [] | l # ls \<Rightarrow> no_cr l, inp') \<and>
    finite_source inp' \<and> getlines (to_come inp') = tl (getlines (to_come inp))"
proof (cases "find_char newline (to_come inp)")
  case None
  then have "newline \<notin> set (to_come inp)" by (simp add: find_char_None)
  then have "read_line inp [] = Some (no_cr (to_come inp), ([], Peer_closes))"
    using read_line_end[OF assms, of "[]"] by simp
  moreover have "getlines (to_come inp) = (if to_come inp = [] then [] else [to_come inp])"
    using None by (subst getlines.simps) simp
  moreover have "finite_source ([], Peer_closes)" "getlines (to_come ([], Peer_closes)) = []" "no_cr [] = []"
    by (simp_all add: finite_source_def steady_def to_come_def no_cr_def text_simps)
  ultimately show ?thesis by (cases "to_come inp = []") auto
next
  case (Some i)
  let ?t = "to_come inp"
  note f = find_char_Some[OF Some]
  have "getlines ?t = take i ?t # getlines (drop (Suc i) ?t)"
    using Some by (subst getlines.simps) auto
  moreover obtain inp' where "read_line inp [] = Some (no_cr (take i ?t), inp')" "steady inp'"
    "to_come inp' = drop (Suc i) ?t" "snd inp' = snd inp"
    using read_line_line[of inp "take i ?t" "drop (Suc i) ?t" "[]"] find_char_split[OF Some] f assms
    by (auto simp: finite_source_def no_cr_def)
  ultimately show ?thesis using assms by (auto simp: finite_source_def)
qed

lemma ends_reply_Nil: "\<not> ends_reply code []"
  by (simp add: ends_reply_def)

lemma read_rest_never:
  assumes "read_rest code inp = Some y" and "finite_source inp"
  shows "\<exists>l\<in>set (getlines (to_come inp)). ends_reply code (no_cr l)"
proof -
  let ?Q = "\<lambda>code inp y. finite_source inp \<longrightarrow> (\<exists>l\<in>set (getlines (to_come inp)). ends_reply code (no_cr l))"
  have "?Q code inp y"
  proof (rule read_rest.raw_induct[where P = ?Q, OF _ assms(1)], intro impI)
    fix f code inp y
    assume IH: "\<And>code inp y. f code inp = Some y \<Longrightarrow> ?Q code inp y"
      and y: "Option.bind (read_line inp [])
        (\<lambda>(line, inp'). if ends_reply code line then Some inp' else f code inp') = Some y"
      and fin: "finite_source inp"
    obtain line inp' where r: "read_line inp [] = Some (line, inp')" "finite_source inp'"
        "line = (case getlines (to_come inp) of [] \<Rightarrow> [] | l # ls \<Rightarrow> no_cr l)"
        "getlines (to_come inp') = tl (getlines (to_come inp))"
      using read_line_getlines[OF fin] by auto
    show "\<exists>l\<in>set (getlines (to_come inp)). ends_reply code (no_cr l)"
    proof (cases "ends_reply code line")
      case True
      with r(3) ends_reply_Nil show ?thesis by (auto split: list.splits)
    next
      case False
      with y r(1) have "f code inp' = Some y" by simp
      with IH r(2,4) obtain l where "l \<in> set (tl (getlines (to_come inp)))" "ends_reply code (no_cr l)"
        by metis
      then show ?thesis by (cases "getlines (to_come inp)") auto
    qed
  qed
  with assms(2) show ?thesis by blast
qed

lemma read_rest_returns:
  assumes "finite_source inp" and "l \<in> set (getlines (to_come inp))" and "ends_reply code (no_cr l)"
  shows "read_rest code inp \<noteq> None"
  using assms
proof (induction "getlines (to_come inp)" arbitrary: inp)
  case (Cons k ls)
  obtain inp' where r: "read_line inp [] = Some (no_cr k, inp')" "finite_source inp'"
      "getlines (to_come inp') = ls"
    using read_line_getlines[OF Cons.prems(1)] Cons.hyps(2)[symmetric] by auto
  show ?case
  proof (cases "ends_reply code (no_cr k)")
    case True
    with r show ?thesis by (subst read_rest.simps) simp
  next
    case False
    with Cons.prems Cons.hyps(2) have "l \<in> set ls" by (metis set_ConsD)
    with Cons.hyps(1)[OF r(3)[symmetric] r(2)] Cons.prems(3) r(3) False r(1) show ?thesis
      by (subst read_rest.simps) auto
  qed
qed simp

lemma between_parens_text:
  assumes "CHR ''('' \<notin> set a" and "CHR '')'' \<notin> set a" and "CHR '')'' \<notin> set n"
  shows "between_parens (a @ CHR ''('' # n @ CHR '')'' # z) = Some n"
proof -
  have "find_char CHR ''('' (a @ CHR ''('' # n @ CHR '')'' # z) = Some (length a)"
    by (rule find_char_append[OF assms(1)])
  moreover have "find_char CHR '')'' ((a @ CHR ''('' # n) @ CHR '')'' # z) = Some (length (a @ CHR ''('' # n))"
    using assms by (intro find_char_append) auto
  ultimately show ?thesis by (simp add: between_parens_def substr_def)
qed

section \<open>Properties\<close>

text \<open>C23. The client stays in step with the server: from a connection that carries a sequence of replies,
  cut into segments in any way, the client's calls of \<open>readReply\<close> return the replies one by one
  (the first line of a reply of several lines) and leave exactly what follows them.\<close>

theorem client_reads_replies:
  assumes "steady inp" and "to_come inp = concat (map (\<lambda>r. r @ crlf) rs) @ rest"
    and "\<forall>r\<in>set rs. reply_ok r"
  shows "\<exists>inp'. read_many readReply (length rs) inp = Some (map reply_head rs, inp') \<and>
    steady inp' \<and> to_come inp' = rest \<and> snd inp' = snd inp"
  using assms by (rule replies.read_texts)

lemma client_reads_replies_witness:
  "\<exists>inp'. read_many readReply 2 ([feat_text, crlf @ ''257 ok'', crlf], Peer_closes) =
     Some ([''211-Extensions supported:'', ''257 ok''], inp')"
proof -
  have "steady ([feat_text, crlf @ ''257 ok'', crlf], Peer_closes)"
    by (simp add: steady_def feat_text_def crlf_def)
  moreover have "to_come ([feat_text, crlf @ ''257 ok'', crlf], Peer_closes) =
      concat (map (\<lambda>r. r @ crlf) [feat_text, ''257 ok'']) @ []" by (simp add: to_come_def)
  moreover have "\<forall>r\<in>set [feat_text, ''257 ok'']. reply_ok r"
    using feat_reply_ok by (simp add: reply_ok_def plain_def starts_multi_def)
  moreover have "reply_head feat_text = ''211-Extensions supported:''"
    unfolding feat_text_def by (rule reply_head_line) (simp add: plain_def)
  moreover have "reply_head ''257 ok'' = ''257 ok''" by (simp add: plain_def)
  ultimately show ?thesis
    using client_reads_replies[of "([feat_text, crlf @ ''257 ok'', crlf], Peer_closes)" "[feat_text, ''257 ok'']" "[]"]
    by (auto simp: numeral_2_eq_2)
qed

text \<open>C32. On a connection that the server closes after its last byte, reading a reply comes to an end exactly when
  its first line does not announce further lines or one of the lines that follow closes the reply:
  cut off in the middle of such a reply, the client loops for ever.\<close>

theorem readReply_returns_iff:
  assumes "finite_source inp" and "getlines (to_come inp) = first # ls"
  shows "readReply inp \<noteq> None \<longleftrightarrow>
    \<not> starts_multi (no_cr first) \<or> (\<exists>l\<in>set ls. ends_reply (take 3 (no_cr first)) (no_cr l))"
proof -
  obtain inp' where r: "read_line inp [] = Some (no_cr first, inp')" "finite_source inp'"
      "getlines (to_come inp') = ls"
    using read_line_getlines[OF assms(1)] assms(2) by auto
  then show ?thesis
    using read_rest_never[of "take 3 (no_cr first)" inp'] read_rest_returns[OF r(2)]
    by (auto simp: readReply_def)
qed

lemma readReply_returns_iff_witness:
  "readReply ([''211-Features:'' @ crlf, '' SIZE'' @ crlf], Peer_closes) = None"
proof -
  let ?i = "([''211-Features:'' @ crlf, '' SIZE'' @ crlf], Peer_closes)"
  let ?l1 = "''211-Features:'' @ [carriage_return]" and ?l2 = "'' SIZE'' @ [carriage_return]"
  have "getlines (to_come ?i) = [?l1, ?l2]"
    using getlines_concat[of "[?l1, ?l2]"] by (simp add: to_come_def crlf_def)
  moreover have "finite_source ?i" by (simp add: finite_source_def steady_def crlf_def)
  ultimately have "readReply ?i \<noteq> None \<longleftrightarrow>
      \<not> starts_multi (no_cr ?l1) \<or> (\<exists>l\<in>set [?l2]. ends_reply (take 3 (no_cr ?l1)) (no_cr l))"
    by (rule readReply_returns_iff[rotated])
  moreover have "starts_multi (no_cr ?l1)" "\<not> ends_reply (take 3 (no_cr ?l1)) (no_cr ?l2)"
    by (simp_all add: no_cr_def starts_multi_def ends_reply_def)
  ultimately show ?thesis by (simp del: not_None_eq)
qed

text \<open>The passive mode of server and client fit together: the client takes the server's reply for code 227
  and connects to the port the server listens on - at the loopback address, which is the only one the
  server ever announces.\<close>

theorem client_reaches_passive_port:
  assumes "0 \<le> passivePort dc" and "passivePort dc < 65536"
  shows "getReplyCode (pasvResponse dc) = 227 \<and>
    map_option pasv_address (between_parens (pasvResponse dc)) = Some (Inr (''127.0.0.1'', passivePort dc))"
proof -
  let ?p = "passivePort dc"
  let ?n = "''127,0,0,1,'' @ int_str (?p div 256) @ '','' @ int_str (?p mod 256)"
  have "CHR '')'' \<notin> set ?n" by (simp add: int_str_no_char is_digit_def)
  then have b: "between_parens (pasvResponse dc) = Some ?n"
    using between_parens_text[of "''227 Entering Passive Mode ''" ?n "[]"] by (simp add: pasvResponse_def)
  have i: "int_str 127 = ''127''" "int_str 0 = ''0''" "int_str 1 = ''1''"
    by (simp_all add: int_str_def nat_str.simps digit_char_def char_of_def bit_0)
  have n: "?n = six_numbers 127 0 0 1 (?p div 256) (?p mod 256)"
    by (simp add: six_numbers_def i)
  have m: "0 \<le> ?p mod 256" "?p mod 256 < 256" by simp_all
  have "?p = 256 * (?p div 256) + ?p mod 256" by simp
  then have q: "0 \<le> ?p div 256" "?p div 256 < 256" using assms m by linarith+
  have "int32 (?p div 256)" "int32 (?p mod 256)" unfolding int32_def using q m by linarith+
  then have "pasv_address ?n = Inr (''127.0.0.1'', ?p)"
    unfolding n using assms q
    by (simp add: pasv_address_def parse_six_numbers int32_def host_port_def i)
  moreover have "getReplyCode (pasvResponse dc) = 227"
    by (simp add: getReplyCode_def pasvResponse_def stoi_def is_space_def is_digit_def dec_def
        digit_val_def int32_def Let_def)
  ultimately show ?thesis using b by simp
qed

lemma client_reaches_passive_port_witness:
  "map_option pasv_address (between_parens (pasvResponse (new_channel\<lparr>passivePort := 50000\<rparr>))) =
     Some (Inr (''127.0.0.1'', 50000))"
  using client_reaches_passive_port[of "new_channel\<lparr>passivePort := 50000\<rparr>"] by simp

end
