(* ===== verification/Client_Transfers.thy ===== *)
theory Client_Transfers
  imports Client_Replies
begin

text \<open>
  Whole transfers between the client and the server: the dialogue on the control connection, the
  passive data connection and the file at both ends. The network is the hypothesis that what one
  side sends on the data connection is what the other side receives.
\<close>

section \<open>The loops on the data connection\<close>

lemma recv_all_delivered:
  assumes "\<not> never_ends inp"
  shows "\<exists>bufs. recv_all len inp = Some bufs \<and> concat bufs = delivered inp"
  using assms
proof (induction len inp rule: recv_all.induct)
  case (1 len inp)
  have "0 < max 1 len" by linarith
  note d = recvData_delivered[OF this, of inp]
  obtain r inp' where Pair: "recvData (max 1 len) inp = (r, inp')" by (metis surj_pair)
  show ?case
  proof (cases r)
    case (R_data buf)
    with d Pair 1(2) have "\<not> never_ends inp'" "delivered inp = buf @ delivered inp'" by simp_all
    with 1(1)[OF Pair[symmetric] R_data] Pair R_data show ?thesis by (subst recv_all.simps) auto
  next
    case R_end
    with d Pair show ?thesis by (subst recv_all.simps) simp
  next
    case R_blocks
    with d Pair 1(2) show ?thesis by simp
  qed
qed

lemma send_left_trace:
  "\<exists>es. send_left os ds f left h = h @ es \<and> concat (sent_on ds es) = left \<and> written_to p es = []"
proof (induction os ds f left h rule: send_left.induct)
  case (1 os ds f left h)
  show ?case
  proof (cases "left = []")
    case True
    then show ?thesis by (subst send_left.simps) (simp add: ev_written_def)
  next
    case False
    let ?buf = "take 8192 left" and ?h1 = "h @ [Ev_fread f (length (take 8192 left))]"
    from 1[OF refl refl] False obtain es where
      es: "send_left os ds f (drop 8192 left) (snd (sendData os ds ?buf ?h1)) = snd (sendData os ds ?buf ?h1) @ es"
        "concat (sent_on ds es) = drop 8192 left" "written_to p es = []"
      by auto
    with False show ?thesis
      by (subst send_left.simps)
         (auto simp: Let_def sendData_def toPosix_def ev_written_def
           intro!: exI[of _ "Ev_fread f (length ?buf) # Ev_send ds ?buf # es"])
  qed
qed

section \<open>The dialogue\<close>

text \<open>A client in step with its server: the replies that are next, and what follows them.\<close>

definition in_step :: "string list \<Rightarrow> string \<Rightarrow> client \<Rightarrow> bool" where
  "in_step rs rest c \<longleftrightarrow> steady (cl_in c) \<and>
     to_come (cl_in c) = concat (map (\<lambda>r. r @ crlf) rs) @ rest \<and> (\<forall>r\<in>set rs. reply_ok r)"

lemma in_step_frame [simp]:
  "in_step rs rest (c\<lparr>cl_trace := h\<rparr>) = in_step rs rest c"
  "in_step rs rest (c\<lparr>cl_socket := s\<rparr>) = in_step rs rest c"
  "in_step rs rest (sendCommand os cmd c) = in_step rs rest c"
  "in_step rs rest (cl_event es c) = in_step rs rest c"
  "in_step rs rest (close_data os ds c) = in_step rs rest c"
  by (simp_all add: in_step_def sendCommand_def cl_event_def close_data_def)

lemma read_in_step:
  assumes "in_step (r # rs) rest c"
  shows "\<exists>c'. read_from c = Some (reply_head r, c') \<and> in_step rs rest c' \<and>
    cl_trace c' = cl_trace c \<and> cl_socket c' = cl_socket c"
proof -
  from assms have "steady (cl_in c)" "reply_ok r"
    "to_come (cl_in c) = r @ crlf @ (concat (map (\<lambda>r. r @ crlf) rs) @ rest)"
    by (simp_all add: in_step_def)
  from replies.next_text[OF this(1,3,2)] assms show ?thesis
    by (auto simp: read_from_def in_step_def)
qed

lemma exchange_in_step:
  assumes "in_step (r # rs) rest c"
  shows "\<exists>c'. exchange os cmd c = Some (reply_head r, c') \<and> in_step rs rest c' \<and>
    cl_trace c' = cl_trace c @ [Ev_send (cl_socket c) (cmd @ crlf)] \<and> cl_socket c' = cl_socket c"
  using read_in_step[of r rs rest "sendCommand os cmd c"] assms
  by (auto simp: exchange_def sendCommand_def sendData_def toPosix_def)

lemma pasvResponse_ok:
  assumes "0 \<le> passivePort dc" and "passivePort dc < 65536"
  shows "reply_ok (pasvResponse dc)" and "reply_head (pasvResponse dc) = pasvResponse dc"
proof -
  have "plain (int_str i)" for i by (simp add: plain_def int_str_no_char is_digit_def)
  then have p: "plain (pasvResponse dc)" by (simp add: pasvResponse_def plain_def)
  moreover have "\<not> starts_multi (pasvResponse dc)" by (simp add: pasvResponse_def starts_multi_def)
  ultimately show "reply_ok (pasvResponse dc)" by (simp add: reply_ok_def)
  from p show "reply_head (pasvResponse dc) = pasvResponse dc" by simp
qed

text \<open>A data connection the client opens on this system.\<close>

definition data_peer :: "os \<Rightarrow> handle \<Rightarrow> net_in \<Rightarrow> bool" where
  "data_peer os ds inp \<longleftrightarrow> 0 \<le> ds \<and> (\<forall>h. os_socket os h = ds) \<and>
     (\<forall>h ip p. os_connect os h ds ip p = 0) \<and> (\<forall>h. os_incoming os h ds = inp)"

lemma openDataConnection_in_step:
  assumes "in_step (pasvResponse dc # rs) rest c" and "0 \<le> passivePort dc" and "passivePort dc < 65536"
    and "data_peer os ds inp"
  shows "\<exists>c' es. openDataConnection os c = Some (Inr (ds, c')) \<and> in_step rs rest c' \<and>
    cl_trace c' = cl_trace c @ es \<and> (cl_socket c \<noteq> ds \<longrightarrow> sent_on ds es = []) \<and> cl_socket c' = cl_socket c \<and>
    (\<forall>p. written_to p es = []) \<and> Ev_connect ds ''127.0.0.1'' (word_of_int (passivePort dc)) 0 \<in> set es"
proof -
  obtain c1 where c1: "exchange os ''PASV'' c = Some (pasvResponse dc, c1)" "in_step rs rest c1"
    "cl_trace c1 = cl_trace c @ [Ev_send (cl_socket c) (''PASV'' @ crlf)]" "cl_socket c1 = cl_socket c"
    using exchange_in_step[OF assms(1), of os "''PASV''"] pasvResponse_ok[OF assms(2,3)] by auto
  from client_reaches_passive_port[OF assms(2,3)] obtain t where
    t: "getReplyCode (pasvResponse dc) = 227" "between_parens (pasvResponse dc) = Some t"
      "pasv_address t = Inr (''127.0.0.1'', passivePort dc)"
    by (cases "between_parens (pasvResponse dc)") auto
  let ?es = "[Ev_socket ds, Ev_connect ds ''127.0.0.1'' (word_of_int (passivePort dc)) 0]"
  have "connectSocket os ''127.0.0.1'' (passivePort dc) h = (ds, h @ ?es)" for h
    using assms(4) by (simp add: connectSocket_def data_peer_def fromPosix_def Let_def)
  with c1 t have "openDataConnection os c = Some (Inr (ds, c1\<lparr>cl_trace := cl_trace c1 @ ?es\<rparr>))"
    by (simp add: openDataConnection_def)
  with c1 show ?thesis
    by (intro exI[of _ "c1\<lparr>cl_trace := cl_trace c1 @ ?es\<rparr>"] exI[of _ "Ev_send (cl_socket c) (''PASV'' @ crlf) # ?es"])
       (simp add: ev_written_def)
qed

section \<open>Downloads\<close>

lemma download_in_step:
  assumes "in_step [pasvResponse dc, r150, r226] rest c" and "0 \<le> passivePort dc" and "passivePort dc < 65536"
    and "getReplyCode (reply_head r150) = 150"
    and "data_peer os ds inp" and "\<not> never_ends inp"
    and "\<forall>h. os_fopen os h fname ''wb''"
  shows "\<exists>c' es. download os fname c = Some (Inr c') \<and> in_step [] rest c' \<and>
    cl_trace c' = cl_trace c @ es \<and> written_to fname es = delivered inp"
proof -
  obtain c1 es1 where c1: "openDataConnection os c = Some (Inr (ds, c1))" "in_step [r150, r226] rest c1"
    "cl_trace c1 = cl_trace c @ es1" "written_to fname es1 = []"
    using openDataConnection_in_step[OF assms(1-3,5)] by blast
  obtain c2 where c2: "exchange os (''RETR '' @ fname) c1 = Some (reply_head r150, c2)" "in_step [r226] rest c2"
    "cl_trace c2 = cl_trace c1 @ [Ev_send (cl_socket c1) ((''RETR '' @ fname) @ crlf)]"
    using exchange_in_step[OF c1(2)] by metis
  obtain bufs where bufs: "recv_all 8192 inp = Some bufs" "concat bufs = delivered inp"
    using recv_all_delivered[OF assms(6)] by blast
  let ?c3 = "cl_event [Ev_fopen fname ''wb''] c2"
  let ?c4 = "cl_event (map (Ev_fwrite fname) bufs @ [Ev_fclose fname]) ?c3"
  obtain c5 where c5: "read_from ?c4 = Some (reply_head r226, c5)" "in_step [] rest c5"
    "cl_trace c5 = cl_trace ?c4"
    using read_in_step[of r226 "[]" rest ?c4] c2(2) by auto
  have ds: "ms_valid ds" "os_incoming os h (toPosix ds) = inp" for h
    using assms(5) by (simp_all add: data_peer_def ms_valid_def kInvalidSocket_def toPosix_def)
  have "download os fname c = Some (Inr (close_data os ds c5))"
    using c1(1) c2(1) bufs(1) c5(1) ds assms(4,7) by (simp add: download_def)
  moreover have "written_to fname (map (Ev_fwrite fname) bufs) = concat bufs"
    by (induction bufs) (simp_all add: ev_written_def)
  moreover have "cl_trace (close_data os ds c5) = cl_trace c @ es1 @
      Ev_send (cl_socket c1) ((''RETR '' @ fname) @ crlf) # Ev_fopen fname ''wb'' #
      map (Ev_fwrite fname) bufs @ [Ev_fclose fname, Ev_close ds]"
    using c1(3) c2(3) c5(3) ds(1)
    by (simp add: close_data_def ms_close_def cl_event_def closeSocket_def toPosix_def)
  ultimately show ?thesis using c5(2) c1(4) bufs(2)
    by (intro exI conjI) (assumption | simp add: ev_written_def)+
qed

section \<open>Uploads\<close>

lemma upload_in_step:
  assumes "in_step [pasvResponse dc, r150, r226] rest c" and "0 \<le> passivePort dc" and "passivePort dc < 65536"
    and "getReplyCode (reply_head r150) = 150"
    and "data_peer os ds inp" and "cl_socket c \<noteq> ds"
    and "\<forall>h. os_fopen os h fname ''rb''" and "\<forall>h. os_content os h fname = content"
  shows "\<exists>c' es. upload os fname c = Some (Inr c') \<and> in_step [] rest c' \<and>
    cl_trace c' = cl_trace c @ es \<and> concat (sent_on ds es) = content"
proof -
  let ?c0 = "cl_event [Ev_fopen fname ''rb''] c"
  have "in_step [pasvResponse dc, r150, r226] rest ?c0" using assms(1) by simp
  from openDataConnection_in_step[OF this assms(2,3,5)] assms(6) obtain c1 es1 where
    c1: "openDataConnection os ?c0 = Some (Inr (ds, c1))" "in_step [r150, r226] rest c1"
    "cl_trace c1 = cl_trace ?c0 @ es1" "sent_on ds es1 = []" "cl_socket c1 = cl_socket c"
    by (auto simp: cl_event_def)
  obtain c2 where c2: "exchange os (''STOR '' @ fname) c1 = Some (reply_head r150, c2)" "in_step [r226] rest c2"
    "cl_trace c2 = cl_trace c1 @ [Ev_send (cl_socket c1) ((''STOR '' @ fname) @ crlf)]"
    using exchange_in_step[OF c1(2)] by metis
  obtain es2 where es2: "send_left os ds fname content (cl_trace c2) = cl_trace c2 @ es2"
    "concat (sent_on ds es2) = content"
    using send_left_trace[of os ds fname content "cl_trace c2" fname] by blast
  let ?c3 = "c2\<lparr>cl_trace := cl_trace c2 @ es2\<rparr>"
  let ?c4 = "close_data os ds (cl_event [Ev_fclose fname] ?c3)"
  obtain c5 where c5: "read_from ?c4 = Some (reply_head r226, c5)" "in_step [] rest c5"
    "cl_trace c5 = cl_trace ?c4"
    using read_in_step[of r226 "[]" rest ?c4] c2(2) by auto
  have ds: "ms_valid ds"
    using assms(5) by (simp add: data_peer_def ms_valid_def kInvalidSocket_def)
  have "upload os fname c = Some (Inr c5)"
    using c1(1) c2(1) es2(1) c5(1) ds assms(4,7,8) by (simp add: upload_def Let_def)
  moreover have "cl_trace c5 = cl_trace c @ Ev_fopen fname ''rb'' # es1 @
      Ev_send (cl_socket c1) ((''STOR '' @ fname) @ crlf) # es2 @ [Ev_fclose fname, Ev_close ds]"
    using c1(3) c2(3) c5(3) ds
    by (simp add: close_data_def ms_close_def cl_event_def closeSocket_def toPosix_def)
  ultimately show ?thesis using c5(2) c1(4,5) es2(2) assms(6)
    by (intro exI conjI) (assumption | simp)+
qed

section \<open>Properties\<close>


text \<open>A client that has logged in and a file of five bytes.\<close>

definition demo_dc :: DataChannel where
  "demo_dc = new_channel\<lparr>passivePort := 50000\<rparr>"

definition demo_client :: client where
  "demo_client = \<lparr>cl_socket = 5, cl_in = ([pasvResponse demo_dc @ crlf, ''150 ok'' @ crlf, ''226 ok'' @ crlf], Peer_closes),
     cl_trace = []\<rparr>"

definition file_os :: os where
  "file_os = demo_os\<lparr>os_content := \<lambda>h p. ''abcde''\<rparr>"

lemma demo_dialogue:
  "in_step [pasvResponse demo_dc, ''150 ok'', ''226 ok''] [] demo_client"
  "getReplyCode (reply_head ''150 ok'') = 150" "0 \<le> passivePort demo_dc" "passivePort demo_dc < 65536"
proof -
  show p: "0 \<le> passivePort demo_dc" "passivePort demo_dc < 65536" by (simp_all add: demo_dc_def)
  have "reply_head ''150 ok'' = ''150 ok''" by (simp add: plain_def)
  then show "getReplyCode (reply_head ''150 ok'') = 150"
    by (simp add: getReplyCode_def stoi_def is_space_def is_digit_def dec_def digit_val_def int32_def Let_def)
  show "in_step [pasvResponse demo_dc, ''150 ok'', ''226 ok''] [] demo_client"
    using pasvResponse_ok(1)[OF p]
    by (simp add: in_step_def demo_client_def steady_def to_come_def crlf_def reply_ok_def plain_def starts_multi_def)
qed

lemma demo_data_peer: "data_peer file_os 7 ([''abc'', ''de''], Peer_closes)"
  by (simp add: data_peer_def file_os_def demo_os_def)


text \<open>C14. A file the client uploads arrives as it is: the client sends exactly the contents of the local
  file over the data connection, closes it and reads the final reply, and a server that
  receives what the client sends writes exactly these contents.\<close>

theorem upload_end_to_end:
  assumes dialogue: "in_step [pasvResponse dc, r150, r226] rest c" "getReplyCode (reply_head r150) = 150"
      "0 \<le> passivePort dc" "passivePort dc < 65536" "cl_socket c \<noteq> ds" "data_peer os ds inp"
    and local: "\<forall>h. os_fopen os h fname ''rb''" "\<forall>h. os_content os h fname = content"
  shows "\<exists>c' es. upload os fname c = Some (Inr c') \<and> in_step [] rest c' \<and> cl_trace c' = cl_trace c @ es \<and>
    (os_fopen srv h path ''wb'' \<longrightarrow> delivered (upload_stream srv sock path 0 h) = concat (sent_on ds es) \<longrightarrow>
     \<not> never_ends (upload_stream srv sock path 0 h) \<longrightarrow>
       (\<exists>res rl' es'. recvFile srv sock path 0 rl 0 h = (Some res, rl', h @ es') \<and> tr_ok res \<and>
          written_to path es' = content))"
proof -
  obtain c' es where c': "upload os fname c = Some (Inr c')" "in_step [] rest c'"
    "cl_trace c' = cl_trace c @ es" "concat (sent_on ds es) = content"
    using upload_in_step[OF dialogue(1,3,4,2,6,5) local] by blast
  moreover have "\<exists>res rl' es'. recvFile srv sock path 0 rl 0 h = (Some res, rl', h @ es') \<and> tr_ok res \<and>
      written_to path es' = content"
    if "os_fopen srv h path ''wb''" "delivered (upload_stream srv sock path 0 h) = concat (sent_on ds es)"
      "\<not> never_ends (upload_stream srv sock path 0 h)"
  proof -
    from that(1,3) obtain res rl' es' where "recvFile srv sock path 0 rl 0 h = (Some res, rl', h @ es')"
      "tr_ok res" "written_to path es' = delivered (upload_stream srv sock path 0 h)"
      using recvFile_written[of srv h path 0 sock rl] by (auto simp: upload_mode_def)
    with that(2) c'(4) show ?thesis by auto
  qed
  ultimately show ?thesis by blast
qed

lemma upload_end_to_end_witness:
  "\<exists>c' es. upload file_os ''F'' demo_client = Some (Inr c') \<and> cl_trace c' = es \<and>
     concat (sent_on 7 es) = ''abcde'' \<and>
     (\<exists>res rl' es'. recvFile file_os 8 ''T'' 0 (new_limiter file_os []) 0 [] = (Some res, rl', es') \<and>
        tr_ok res \<and> written_to ''T'' es' = ''abcde'')"
proof -
  have c: "cl_socket demo_client \<noteq> 7" "\<forall>h. os_fopen file_os h ''F'' ''rb''" "\<forall>h. os_content file_os h ''F'' = ''abcde''"
    by (simp_all add: demo_client_def file_os_def demo_os_def)
  have "os_fopen file_os [] ''T'' ''wb''" "delivered (upload_stream file_os 8 ''T'' 0 []) = ''abcde''"
    "\<not> never_ends (upload_stream file_os 8 ''T'' 0 [])"
    by (simp_all add: upload_stream_def file_os_def demo_os_def delivered_def never_ends_def)
  moreover obtain c' es where "upload file_os ''F'' demo_client = Some (Inr c')"
    "cl_trace c' = cl_trace demo_client @ es" "concat (sent_on 7 es) = ''abcde''"
    using upload_in_step[OF demo_dialogue(1,3,4,2) demo_data_peer c] by blast
  moreover note upload_end_to_end[OF demo_dialogue c(1) demo_data_peer c(2,3),
      where srv = file_os and h = "[]" and path = "''T''" and sock = 8 and rl = "new_limiter file_os []"]
  ultimately show ?thesis by (auto simp: demo_client_def)
qed

end
