(* ===== verification/Client_Console.thy ===== *)
theory Client_Console
  imports Client
begin

text \<open>
  The interactive part of the client: \<open>FTPClient::commandLoop\<close> of
  \<open>src/client/ftp_client.cpp\<close> and the program \<open>src/client/main.cpp\<close>. What the program prints is
  left out, \<open>printHelp\<close> with it. Standard input is the string still to be read.
\<close>

section \<open>Results that may throw and may not return\<close>

definition bind_res :: "(cxx_exn + 'a) option \<Rightarrow> ('a \<Rightarrow> (cxx_exn + 'b) option) \<Rightarrow> (cxx_exn + 'b) option" where
  "bind_res m f = Option.bind m (\<lambda>r. case r of Inl e \<Rightarrow> Some (Inl e) | Inr x \<Rightarrow> f x)"

definition no_throw :: "'a option \<Rightarrow> (cxx_exn + 'a) option" where
  "no_throw = map_option Inr"

lemma bind_res_mono [partial_function_mono]:
  assumes "mono_option B" and "\<And>y. mono_option (\<lambda>f. C y f)"
  shows "mono_option (\<lambda>f. bind_res (B f) (\<lambda>y. C y f))"
  unfolding bind_res_def
proof (rule bind_mono[OF assms(1)])
  fix r :: "cxx_exn + 'c"
  show "mono_option (\<lambda>f. case r of Inl e \<Rightarrow> Some (Inl e) | Inr x \<Rightarrow> C x f)"
    by (cases r) (simp_all add: assms(2) option.const_mono)
qed

lemma bind_res_Inr: "bind_res m f = Some (Inr y) \<longleftrightarrow> (\<exists>x. m = Some (Inr x) \<and> f x = Some (Inr y))"
proof (cases m)
  case (Some r)
  then show ?thesis by (cases r) (auto simp: bind_res_def)
qed (simp add: bind_res_def)

lemma no_throw_Inr [simp]: "no_throw m = Some (Inr y) \<longleftrightarrow> m = Some y"
  by (auto simp: no_throw_def)

section \<open>Standard input\<close>

text \<open>
  \<open>std::cin >> s\<close>: with nothing left to read it fails before it clears the string, which so
  keeps its value. The second result is the input that remains.
\<close>

definition cin_word :: "string \<Rightarrow> string \<Rightarrow> string \<times> string" where
  "cin_word inp old =
     (let rest = dropWhile is_space inp
      in if rest = [] then (old, [])
         else (takeWhile (\<lambda>c. \<not> is_space c) rest, dropWhile (\<lambda>c. \<not> is_space c) rest))"

text \<open>\<open>std::getline(std::cin >> std::ws, s)\<close> with an empty \<open>s\<close>.\<close>

definition cin_line :: "string \<Rightarrow> string \<times> string" where
  "cin_line inp =
     (let rest = dropWhile is_space inp
      in (takeWhile (\<lambda>c. c \<noteq> newline) rest, drop 1 (dropWhile (\<lambda>c. c \<noteq> newline) rest)))"

function cin_words :: "string \<Rightarrow> string list" where
  "cin_words inp =
     (let rest = dropWhile is_space inp
      in if rest = [] then []
         else takeWhile (\<lambda>c. \<not> is_space c) rest # cin_words (dropWhile (\<lambda>c. \<not> is_space c) rest))"
  by pat_completeness auto
termination
proof (relation "measure length")
  fix inp rest :: string
  assume rest: "rest = dropWhile is_space inp" "rest \<noteq> []"
  then have "\<not> is_space (hd rest)" using hd_dropWhile by metis
  with rest(2) have "length (dropWhile (\<lambda>c. \<not> is_space c) rest) < length rest"
    by (cases rest) (auto intro: le_imp_less_Suc length_dropWhile_le)
  also have "\<dots> \<le> length inp" using rest(1) by (simp add: length_dropWhile_le)
  finally show "(dropWhile (\<lambda>c. \<not> is_space c) rest, inp) \<in> measure length" by simp
qed simp

declare cin_words.simps [simp del]

section \<open>The command loop\<close>

definition leaves :: "string \<Rightarrow> bool" where
  "leaves verb \<longleftrightarrow> verb = ''bye'' \<or> verb = ''quit'' \<or> verb = ''exit''"

text \<open>One word of the input as the argument of an operation.\<close>

definition with_word :: "string \<Rightarrow> (string \<Rightarrow> (cxx_exn + client) option) \<Rightarrow> (cxx_exn + string \<times> client) option" where
  "with_word inp operation =
     (let (word, inp') = cin_word inp [] in bind_res (operation word) (\<lambda>c. Some (Inr (inp', c))))"

definition run_command :: "os \<Rightarrow> string \<Rightarrow> string \<Rightarrow> client \<Rightarrow> (cxx_exn + string \<times> client) option" where
  "run_command os verb inp c =
     (if verb = ''ls'' \<or> verb = ''dir'' then bind_res (list_dir os c) (\<lambda>(listing, c'). Some (Inr (inp, c')))
      else if verb = ''pwd'' then no_throw (map_option (Pair inp) (pwd_cmd os c))
      else if verb = ''help'' then Some (Inr (inp, c))
      else if verb = ''get'' then with_word inp (\<lambda>f. download os f c)
      else if verb = ''put'' then with_word inp (\<lambda>f. upload os f c)
      else if verb = ''cd'' then with_word inp (\<lambda>d. no_throw (cd_cmd os d c))
      else if verb = ''mkdir'' then with_word inp (\<lambda>d. no_throw (mkdir_cmd os d c))
      else if verb = ''rmdir'' then with_word inp (\<lambda>d. no_throw (rmdir_cmd os d c))
      else if verb = ''delete'' then with_word inp (\<lambda>f. no_throw (delete_cmd os f c))
      else if verb = ''rename'' then
        (let (old, inp1) = cin_word inp []
         in with_word inp1 (\<lambda>new. no_throw (rename_cmd os old new c)))
      else Some (Inr (inp, c)))"

partial_function (option) commandLoop :: "os \<Rightarrow> string \<Rightarrow> string \<Rightarrow> client \<Rightarrow> (cxx_exn + client) option" where
  "commandLoop os input inp c =
     (let (word, inp') = cin_word inp input; verb = map tolower word
      in if leaves verb then Some (Inr c)
         else bind_res (run_command os verb inp' c) (\<lambda>(inp'', c'). commandLoop os verb inp'' c'))"

section \<open>The program\<close>

definition new_client :: "hist \<Rightarrow> client" where
  "new_client h = \<lparr>cl_socket = kInvalidSocket, cl_in = ([], Peer_closes), cl_trace = h\<rparr>"

definition port_number :: "string \<Rightarrow> int" where
  "port_number portStr =
     (if portStr = [] then 21 else case stoi portStr of Inr port \<Rightarrow> port | Inl e \<Rightarrow> 21)"

text \<open>
  The exit code and what the program leaves behind. The destructor of the client disconnects on
  the two early returns; an exception ends the process.
\<close>

definition client_main :: "os \<Rightarrow> string \<Rightarrow> hist \<Rightarrow> (cxx_exn + int \<times> client) option" where
  "client_main os inp h =
     (let (host, inp1) = cin_word inp [];
          (portStr, inp2) = cin_line inp1
      in Option.bind (connect os host (port_number portStr) (new_client h)) (\<lambda>(connected, c1).
           if \<not> connected then map_option (\<lambda>c. Inr (1, c)) (disconnect os c1)
           else let (user, inp3) = cin_word inp2 []; (pass, inp4) = cin_word inp3 []
                in Option.bind (login os user pass c1) (\<lambda>(welcome, c2).
                     if \<not> welcome then map_option (\<lambda>c. Inr (1, c)) (disconnect os c2)
                     else bind_res (commandLoop os [] inp4 c2)
                            (\<lambda>c3. map_option (\<lambda>c. Inr (0, c)) (disconnect os c3)))))"

section \<open>Leaving the loop\<close>

lemma cin_word_words:
  "cin_word inp old = (case cin_words inp of [] \<Rightarrow> (old, []) | w # ws \<Rightarrow>
     (w, dropWhile (\<lambda>c. \<not> is_space c) (dropWhile is_space inp)))"
  by (subst cin_words.simps) (simp add: cin_word_def Let_def)

lemma cin_words_rest: "cin_words (snd (cin_word inp old)) = tl (cin_words inp)"
  by (subst (2) cin_words.simps) (simp add: cin_word_def Let_def cin_words.simps[of "[]"])

lemma with_word_input:
  "with_word inp f = Some (Inr (inp', c')) \<Longrightarrow> inp' = snd (cin_word inp [])"
  by (auto simp: with_word_def split_beta bind_res_Inr)

lemma run_command_input:
  assumes "run_command os verb inp c = Some (Inr (inp', c'))"
  shows "set (cin_words inp') \<subseteq> set (cin_words inp)"
proof -
  have "inp' = inp \<or> inp' = snd (cin_word inp []) \<or> inp' = snd (cin_word (snd (cin_word inp [])) [])"
    using assms
    by (auto simp: run_command_def split_beta bind_res_Inr split: if_splits dest: with_word_input)
  moreover have tl: "set (tl ws) \<subseteq> set ws" for ws :: "string list" by (cases ws) auto
  moreover have "set (tl (tl (cin_words inp))) \<subseteq> set (cin_words inp)" by (rule subset_trans[OF tl tl])
  ultimately show ?thesis using tl[of "cin_words inp"] by (elim disjE) (simp_all add: cin_words_rest)
qed

lemma commandLoop_leaves:
  assumes "commandLoop os input inp c = Some (Inr c')"
  shows "\<exists>w \<in> insert input (set (cin_words inp)). leaves (map tolower w)"
proof -
  let ?Q = "\<lambda>os input inp (c :: client) (r :: cxx_exn + client). isl r \<or>
    (\<exists>w \<in> insert input (set (cin_words inp)). leaves (map tolower w))"
  have "?Q os input inp c (Inr c')"
  proof (rule commandLoop.raw_induct[where P = ?Q, OF _ assms])
    fix loop os input inp c r
    assume IH: "\<And>os input inp c r. loop os input inp c = Some r \<Longrightarrow> ?Q os input inp c r"
      and r: "(let (word, inp') = cin_word inp input; verb = map tolower word
        in if leaves verb then Some (Inr c)
           else bind_res (run_command os verb inp' c) (\<lambda>(inp'', c'). loop os verb inp'' c')) = Some r"
    let ?word = "fst (cin_word inp input)" and ?inp = "snd (cin_word inp input)"
    have word: "?word = input \<or> ?word \<in> set (cin_words inp)"
      by (auto simp: cin_word_words split: list.split)
    show "?Q os input inp c r"
    proof (cases "leaves (map tolower ?word)")
      case True
      with word show ?thesis by blast
    next
      case stay: False
      show ?thesis
      proof (cases r)
        case (Inr c'')
        with r stay obtain inp2 c2 where
          run: "run_command os (map tolower ?word) ?inp c = Some (Inr (inp2, c2))"
          and loop: "loop os (map tolower ?word) inp2 c2 = Some r"
          by (auto simp: Let_def split_beta bind_res_Inr)
        from IH[OF loop] Inr obtain w where
          "w \<in> insert (map tolower ?word) (set (cin_words inp2))" "leaves (map tolower w)"
          by (simp only: sum.disc simp_thms) blast
        moreover have "set (cin_words inp2) \<subseteq> set (cin_words inp)"
          using run_command_input[OF run] by (cases "cin_words inp") (auto simp: cin_words_rest)
        moreover have "leaves (map tolower (map tolower ?word)) = leaves (map tolower ?word)"
          by (simp add: comp_def tolower_tolower)
        ultimately show ?thesis using stay by blast
      qed simp
    qed
  qed
  then show ?thesis by simp
qed



section \<open>Sockets of the program\<close>

text \<open>The descriptors of the trace but for the control connection the client still holds.\<close>

definition cl_balance :: "int \<Rightarrow> client \<Rightarrow> int" where
  "cl_balance x c = held x (cl_trace c) - (if cl_socket c = x then 1 else 0)"

lemma read_from_frame:
  "read_from c = Some (r, c') \<Longrightarrow> cl_trace c' = cl_trace c \<and> cl_socket c' = cl_socket c"
  by (auto simp: read_from_def)

lemma read_from_balance: "read_from c = Some (r, c') \<Longrightarrow> cl_balance x c' = cl_balance x c"
  by (drule read_from_frame) (simp add: cl_balance_def)

lemma sendCommand_balance [simp]: "cl_balance x (sendCommand os cmd c) = cl_balance x c"
  by (simp add: cl_balance_def sendCommand_def sendData_def)

lemma exchange_balance: "exchange os cmd c = Some (r, c') \<Longrightarrow> cl_balance x c' = cl_balance x c"
  using read_from_balance[of "sendCommand os cmd c" r c' x] by (simp add: exchange_def)

lemma close_control_frame:
  "cl_socket (close_control os c) = kInvalidSocket"
  "cl_trace (close_control os c) = snd (ms_close os (cl_socket c) (cl_trace c))"
  unfolding close_control_def Let_def by (simp_all add: split_beta) (simp add: ms_close_simps)

lemma close_control_balance: "0 \<le> x \<Longrightarrow> cl_balance x (close_control os c) = cl_balance x c"
  by (auto simp: cl_balance_def close_control_frame ms_close_simps ms_valid_def kInvalidSocket_def)

lemma close_data_balance:
  "0 \<le> x \<Longrightarrow> cl_balance x (close_data os ds c) = cl_balance x c - (if ds = x then 1 else 0)"
  by (simp add: close_data_def cl_balance_def ms_close_simps ms_valid_def kInvalidSocket_def)

lemma cl_event_balance [simp]: "held x es = 0 \<Longrightarrow> cl_balance x (cl_event es c) = cl_balance x c"
  by (simp add: cl_balance_def cl_event_def)

lemma connect_balance:
  assumes "0 \<le> x" and "connect os host port c = Some (ok, c')"
  shows "cl_balance x c' = cl_balance x c"
proof -
  obtain sock h where s: "connectSocket os host port (cl_trace c) = (sock, h)" by fastforce
  with connectSocket_held[OF assms(1), of os host port "cl_trace c"]
  have h: "held x h = held x (cl_trace c) + (if sock = x then 1 else 0)" by simp
  show ?thesis
  proof (cases "sock = kInvalidSocket")
    case True
    with s assms(2) have "c' = c\<lparr>cl_trace := h\<rparr>" by (simp add: connect_def)
    with True h assms(1) show ?thesis by (simp add: cl_balance_def kInvalidSocket_def)
  next
    case False
    let ?c = "c\<lparr>cl_trace := h\<rparr>"
    let ?c1 = "(close_control os ?c)\<lparr>cl_socket := sock\<rparr>"
    from False s assms(2) obtain w where
      "read_from (?c1\<lparr>cl_in := os_incoming os (cl_trace ?c1) (toPosix sock)\<rparr>) = Some (w, c')"
      by (auto simp: connect_def Let_def)
    note r = read_from_balance[OF this, of x]
    from r close_control_balance[OF assms(1), of os ?c] assms(1) h show ?thesis
      by (simp add: cl_balance_def close_control_frame(1) kInvalidSocket_def)
  qed
qed

lemma openDataConnection_balance:
  assumes "0 \<le> x" and "openDataConnection os c = Some (Inr (ds, c'))"
  shows "cl_balance x c' = cl_balance x c + (if ds = x then 1 else 0)"
proof -
  obtain r c1 where e: "exchange os ''PASV'' c = Some (r, c1)"
    using assms(2) by (auto simp: openDataConnection_def)
  note b = exchange_balance[OF e, of x]
  have "(ds = kInvalidSocket \<and> c' = c1) \<or>
      (\<exists>ip port. ds = fst (connectSocket os ip port (cl_trace c1)) \<and>
        cl_trace c' = snd (connectSocket os ip port (cl_trace c1)) \<and> cl_socket c' = cl_socket c1)"
    using assms(2) e
    by (auto 4 3 simp: openDataConnection_def split_beta split: if_splits option.splits sum.splits)
  then show ?thesis
  proof (elim disjE exE conjE)
    fix ip port
    assume "ds = fst (connectSocket os ip port (cl_trace c1))"
      "cl_trace c' = snd (connectSocket os ip port (cl_trace c1))" "cl_socket c' = cl_socket c1"
    with b connectSocket_held[OF assms(1), of os ip port "cl_trace c1"] show ?thesis
      by (simp add: cl_balance_def)
  qed (use b assms(1) in \<open>auto simp: kInvalidSocket_def\<close>)
qed

lemma no_data_socket: "0 \<le> x \<Longrightarrow> \<not> ms_valid ds \<Longrightarrow> ds \<noteq> x"
  by (auto simp: ms_valid_def kInvalidSocket_def)

lemma one_command_balance: "one_command os cmd c = Some c' \<Longrightarrow> cl_balance x c' = cl_balance x c"
  by (auto simp: one_command_def intro: exchange_balance)

lemma rename_balance: "rename_cmd os old new c = Some c' \<Longrightarrow> cl_balance x c' = cl_balance x c"
  by (auto simp: rename_cmd_def bind_eq_Some_conv one_command_balance)

lemma bind_opened:
  "Option.bind (m :: (cxx_exn + 'a \<times> 'b) option) (\<lambda>r. case r of Inl e \<Rightarrow> Some (Inl e) | Inr (a, b) \<Rightarrow> f a b) = Some (Inr y) \<longleftrightarrow>
     (\<exists>a b. m = Some (Inr (a, b)) \<and> f a b = Some (Inr y))"
  using bind_res_Inr[of m "\<lambda>(a, b). f a b" y] by (simp add: bind_res_def)

lemma list_dir_balance:
  assumes "0 \<le> x" and "list_dir os c = Some (Inr (listing, c'))"
  shows "cl_balance x c' = cl_balance x c"
proof -
  obtain ds c1 where o: "openDataConnection os c = Some (Inr (ds, c1))"
    using assms(2) unfolding list_dir_def bind_opened by blast
  note d = openDataConnection_balance[OF assms(1) o]
  show ?thesis
  proof (cases "ms_valid ds")
    case True
    with o assms(2) obtain r c2 r' c3 where
      "exchange os ''LIST'' c1 = Some (r, c2)" "read_from c2 = Some (r', c3)" "c' = close_data os ds c3"
      by (auto simp: list_dir_def bind_eq_Some_conv)
    with d show ?thesis
      by (simp add: close_data_balance[OF assms(1)] exchange_balance read_from_balance)
  next
    case False
    with o assms(2) d no_data_socket[OF assms(1) False] show ?thesis by (simp add: list_dir_def)
  qed
qed

lemma held_fwrite [simp]: "held x (map (Ev_fwrite p) bufs) = 0"
  by (induction bufs) simp_all

lemma download_balance:
  assumes "0 \<le> x" and "download os f c = Some (Inr c')"
  shows "cl_balance x c' = cl_balance x c"
proof -
  obtain ds c1 where o: "openDataConnection os c = Some (Inr (ds, c1))"
    using assms(2) unfolding download_def bind_opened by blast
  note d = openDataConnection_balance[OF assms(1) o]
  show ?thesis
  proof (cases "ms_valid ds")
    case True
    with o assms(2) obtain r c2 where x: "exchange os (''RETR '' @ f) c1 = Some (r, c2)"
      by (auto simp: download_def bind_eq_Some_conv)
    have "\<exists>es c3. held x es = 0 \<and> c' = close_data os ds c3 \<and>
        (c3 = cl_event es c2 \<or> (\<exists>r'. read_from (cl_event es c2) = Some (r', c3)))"
    proof (cases "getReplyCode r = 150 \<and> os_fopen os (cl_trace c2) f ''wb''")
      case True
      with o x assms(2) \<open>ms_valid ds\<close> obtain bufs r' c3 where
        "read_from (cl_event (map (Ev_fwrite f) bufs @ [Ev_fclose f]) (cl_event [Ev_fopen f ''wb''] c2)) = Some (r', c3)"
        "c' = close_data os ds c3"
        by (auto simp: download_def bind_eq_Some_conv Let_def)
      then show ?thesis
        by (intro exI[of _ "[Ev_fopen f ''wb''] @ map (Ev_fwrite f) bufs @ [Ev_fclose f]"] exI[of _ c3])
           (auto simp: cl_event_def)
    next
      case False
      have "cl_event [] c2 = c2" by (simp add: cl_event_def)
      with False o x assms(2) \<open>ms_valid ds\<close> have
        "c' = close_data os ds (cl_event [] c2) \<or> c' = close_data os ds (cl_event [Ev_fopen f ''wb''] c2)"
        by (auto simp: download_def bind_eq_Some_conv Let_def split: if_splits)
      then show ?thesis by (auto intro: exI[of _ "[]"] exI[of _ "[Ev_fopen f ''wb'']"])
    qed
    with d exchange_balance[OF x, of x] show ?thesis
      by (auto simp: close_data_balance[OF assms(1)] read_from_balance)
  next
    case False
    with o assms(2) d no_data_socket[OF assms(1) False] show ?thesis by (simp add: download_def)
  qed
qed

lemma send_left_balance:
  "cl_balance x (c\<lparr>cl_trace := send_left os ds f left (cl_trace c)\<rparr>) = cl_balance x c"
proof -
  have "held x (send_left os ds f left h) = held x h" for h
    by (induction os ds f left h rule: send_left.induct)
       (subst send_left.simps, simp add: Let_def sendData_def)
  then show ?thesis by (simp add: cl_balance_def)
qed

lemma upload_balance:
  assumes "0 \<le> x" and "upload os f c = Some (Inr c')"
  shows "cl_balance x c' = cl_balance x c"
proof (cases "os_fopen os (cl_trace c) f ''rb''")
  case False
  with assms(2) show ?thesis by (auto simp: upload_def Let_def)
next
  case opens: True
  let ?c0 = "cl_event [Ev_fopen f ''rb''] c"
  obtain ds c1 where o: "openDataConnection os ?c0 = Some (Inr (ds, c1))"
    using assms(2) opens by (auto simp: upload_def Let_def bind_opened)
  have d: "cl_balance x c1 = cl_balance x c + (if ds = x then 1 else 0)"
    using openDataConnection_balance[OF assms(1) o] by simp
  show ?thesis
  proof (cases "ms_valid ds")
    case True
    with opens o assms(2) obtain r c2 where x: "exchange os (''STOR '' @ f) c1 = Some (r, c2)"
      by (auto simp: upload_def Let_def bind_eq_Some_conv)
    note e = exchange_balance[OF x, of x]
    show ?thesis
    proof (cases "getReplyCode r = 150")
      case True
      with opens o x assms(2) \<open>ms_valid ds\<close> obtain r' where
        "read_from (close_data os ds (cl_event [Ev_fclose f]
           (c2\<lparr>cl_trace := send_left os ds f (os_content os (cl_trace c2) f) (cl_trace c2)\<rparr>))) = Some (r', c')"
        by (auto simp: upload_def Let_def bind_eq_Some_conv)
      from read_from_balance[OF this, of x] d e show ?thesis
        by (simp add: close_data_balance[OF assms(1)] send_left_balance)
    next
      case False
      with opens o x assms(2) \<open>ms_valid ds\<close> have "c' = cl_event [Ev_fclose f] (close_data os ds c2)"
        by (auto simp: upload_def Let_def bind_eq_Some_conv)
      with d e show ?thesis by (simp add: close_data_balance[OF assms(1)])
    qed
  next
    case False
    with opens o assms(2) d no_data_socket[OF assms(1) False] show ?thesis by (auto simp: upload_def Let_def)
  qed
qed

lemma with_word_balance:
  assumes "\<And>w c'. operation w = Some (Inr c') \<Longrightarrow> cl_balance x c' = n"
  shows "with_word inp operation = Some (Inr (inp', c')) \<Longrightarrow> cl_balance x c' = n"
  using assms by (auto simp: with_word_def split_beta bind_res_Inr)

lemmas simple_commands = pwd_cmd_def cd_cmd_def mkdir_cmd_def rmdir_cmd_def delete_cmd_def

lemma run_command_balance:
  assumes "0 \<le> x" and "run_command os verb inp c = Some (Inr (inp', c'))"
  shows "cl_balance x c' = cl_balance x c"
  using assms(2)
  by (auto simp: run_command_def simple_commands split_beta bind_res_Inr
      one_command_balance rename_balance list_dir_balance[OF assms(1)]
      download_balance[OF assms(1)] upload_balance[OF assms(1)]
      split: if_splits elim!: with_word_balance[rotated])

lemma commandLoop_balance:
  assumes "0 \<le> x" and "commandLoop os input inp c = Some (Inr c')"
  shows "cl_balance x c' = cl_balance x c"
proof -
  let ?Q = "\<lambda>os input inp (c :: client) (r :: cxx_exn + client). \<forall>c'. r = Inr c' \<longrightarrow> cl_balance x c' = cl_balance x c"
  have "?Q os input inp c (Inr c')"
  proof (rule commandLoop.raw_induct[where P = ?Q, OF _ assms(2)], intro allI impI)
    fix loop os input inp c r c'
    assume IH: "\<And>os input inp c r. loop os input inp c = Some r \<Longrightarrow> ?Q os input inp c r"
      and r: "(let (word, inp') = cin_word inp input; verb = map tolower word
        in if leaves verb then Some (Inr c)
           else bind_res (run_command os verb inp' c) (\<lambda>(inp'', c'). loop os verb inp'' c')) = Some r"
      and Inr: "r = Inr c'"
    let ?verb = "map tolower (fst (cin_word inp input))"
    show "cl_balance x c' = cl_balance x c"
    proof (cases "leaves ?verb")
      case True
      with r Inr show ?thesis by (simp add: split_beta Let_def)
    next
      case False
      with r Inr obtain inp2 c2 where
        run: "run_command os ?verb (snd (cin_word inp input)) c = Some (Inr (inp2, c2))"
        and loop: "loop os ?verb inp2 c2 = Some r"
        by (auto simp: Let_def split_beta bind_res_Inr)
      from IH[OF loop] Inr run_command_balance[OF assms(1) run] show ?thesis by simp
    qed
  qed
  then show ?thesis by simp
qed

lemma disconnect_closes:
  assumes "0 \<le> x" and "disconnect os c = Some c'"
  shows "held x (cl_trace c') = cl_balance x c"
proof (cases "ms_valid (cl_socket c)")
  case True
  with assms(2) obtain r c1 where e: "exchange os ''QUIT'' c = Some (r, c1)" "c' = close_control os c1"
    by (auto simp: disconnect_def)
  with exchange_balance[OF e(1), of x] close_control_balance[OF assms(1), of os c1] assms(1)
  show ?thesis by (simp add: cl_balance_def close_control_frame(1) kInvalidSocket_def)
next
  case False
  with assms no_data_socket[OF assms(1) False] show ?thesis by (simp add: disconnect_def cl_balance_def)
qed

lemma login_balance: "login os user pass c = Some (ok, c') \<Longrightarrow> cl_balance x c' = cl_balance x c"
  by (auto simp: login_def bind_eq_Some_conv exchange_balance split: if_splits)


definition console_os :: os where
  "console_os = demo_os\<lparr>os_incoming := \<lambda>h s.
     (map (\<lambda>code. code @ [newline]) [''220'', ''331'', ''230'', ''221''], Peer_silent)\<rparr>"

lemma console_code: 
  "getReplyCode ''220'' = 220" "getReplyCode ''331'' = 331" "getReplyCode ''230'' = 230"
  by (simp_all add: getReplyCode_def stoi_def is_space_def is_digit_def dec_def digit_val_def int32_def Let_def)

lemma console_read:
  "readReply ((c1 # c2 # c3 # [newline]) # segs, e) = Some ([c1, c2, c3], (segs, e))"
  if "c1 \<notin> {newline, carriage_return}" "c2 \<notin> {newline, carriage_return}" "c3 \<notin> {newline, carriage_return}"
  using that by (simp add: readReply_def read_line.simps starts_multi_def)

end
