(* ===== verification/Dialogue.thy ===== *)
theory Dialogue
  imports Client_Transfers Client_Console Session_Commands
begin

text \<open>
  Client and server together on the control connection: connecting, logging in and leaving. What one side
  sends is what the other side receives, and each side's program is the one of its own theory.
\<close>

section \<open>The server's side\<close>

lemma session_loop_segment:
  assumes "sstate w \<noteq> CLOSED" and "ctl_in w = (raw # segs, e)" and "raw \<noteq> []" and "length raw \<le> 513"
  shows "session_loop os w = bind_outcome (process os raw (w\<lparr>ctl_in := (segs, e)\<rparr>)) (session_loop os)"
proof -
  have "recvCommand w = (Some raw, w\<lparr>ctl_in := (segs, e)\<rparr>)"
    using assms by (simp add: recvCommand_def MAX_CMD_LENGTH_def)
  with assms(1,3) show ?thesis by (subst session_loop.simps) simp
qed

lemma session_loop_closed: "sstate w = CLOSED \<Longrightarrow> session_loop os w = Done w"
  by (subst session_loop.simps) simp

text \<open>An argument that survives the line: not empty, on one line, not too long.\<close>

definition word_ok :: "string \<Rightarrow> bool" where
  "word_ok s \<longleftrightarrow> s \<noteq> [] \<and> plain s \<and> length s \<le> 500"

lemma plain_last: "plain s \<Longrightarrow> s \<noteq> [] \<Longrightarrow> last s \<noteq> carriage_return \<and> last s \<noteq> newline"
  by (metis last_in_set plain_def)

lemma process_user:
  "word_ok u \<Longrightarrow> process os (''USER '' @ u @ crlf) w = Done (handleUser os u w)"
  using process_line[of "''USER''" u os w] plain_last[of u]
  by (simp add: word_ok_def toupper_def handle_command_def crlf_def)

lemma process_pass:
  "word_ok p \<Longrightarrow> process os (''PASS '' @ p @ crlf) w = Done (handlePass os p w)"
  using process_line[of "''PASS''" p os w] plain_last[of p]
  by (simp add: word_ok_def toupper_def handle_command_def crlf_def)

lemma process_quit: "process os (''QUIT'' @ crlf) w = Done (handleQuit os w)"
  using process_bare[of "''QUIT''" os w] by (simp add: toupper_def handle_command_def crlf_def)

text \<open>The reply to a password, and the state it leaves.\<close>

definition pass_reply :: "string \<Rightarrow> bool \<Rightarrow> string" where
  "pass_reply u accepted = (if accepted then ''230 Welcome, '' @ u @ ''.'' else ''530 Login incorrect'')"

lemma handleUser_asks:
  assumes "u \<noteq> []" and "\<not> ((u = ''anonymous'' \<or> u = ''ftp'') \<and> allowAnonymous (ctx w))"
  shows "sent_on s (trace (handleUser os u w)) = sent_on s (trace w) @
      (if socket w = s then [(''331 Password required for '' @ u) @ crlf] else [])"
    and "sstate (handleUser os u w) = WAIT_PASS" and "username (handleUser os u w) = u"
    and "ctl_in (handleUser os u w) = ctl_in w" and "socket (handleUser os u w) = socket w"
    and "ctx (handleUser os u w) = ctx w" and "clientIp (handleUser os u w) = clientIp w"
proof -
  from assms(2) have no: "((u = ''anonymous'' \<or> u = ''ftp'') \<and> allowAnonymous (ctx w)) = False" by simp
  have "handleUser os u w = sendReply os (''331 Password required for '' @ u) (w\<lparr>username := u, sstate := WAIT_PASS\<rparr>)"
    using assms(1) by (simp only: handleUser_def no if_False)
  then show "sent_on s (trace (handleUser os u w)) = sent_on s (trace w) @
      (if socket w = s then [(''331 Password required for '' @ u) @ crlf] else [])"
    "sstate (handleUser os u w) = WAIT_PASS" "username (handleUser os u w) = u"
    "ctl_in (handleUser os u w) = ctl_in w" "socket (handleUser os u w) = socket w"
    "ctx (handleUser os u w) = ctx w" "clientIp (handleUser os u w) = clientIp w"
    by (simp_all add: sendReply_eq crlf_def)
qed

lemma handlePass_sent:
  assumes "sstate w = WAIT_PASS" and "\<not> fst (isRateLimited (os_time os (trace w)) (clientIp w) (auth (ctx w)))"
  shows "sent_on s (trace (handlePass os p w)) = sent_on s (trace w) @
      (if socket w = s then [pass_reply (username w) (authenticate (username w) p (auth (ctx w))) @ crlf] else [])"
    and "ctl_in (handlePass os p w) = ctl_in w" and "socket (handlePass os p w) = socket w"
    and "sstate (handlePass os p w) = (if authenticate (username w) p (auth (ctx w)) then READY else WAIT_USER)"
  using assms
  by (simp_all add: handlePass_def enter_home_def session_steps split_beta pass_reply_def crlf_def)

lemma server_login:
  assumes "sstate w = WAIT_USER" and "ctl_in w = ([''USER '' @ u @ crlf, ''PASS '' @ p @ crlf, ''QUIT'' @ crlf], e)"
    and "word_ok u" and "word_ok p" and "\<not> ((u = ''anonymous'' \<or> u = ''ftp'') \<and> allowAnonymous (ctx w))"
    and "\<And>t. \<not> fst (isRateLimited t (clientIp w) (auth (ctx w)))"
  shows "\<exists>w'. session_loop os w = Done w' \<and> sstate w' = CLOSED \<and>
    sent_on (socket w) (trace w') = sent_on (socket w) (trace w) @
      [(''331 Password required for '' @ u) @ crlf, pass_reply u (authenticate u p (auth (ctx w))) @ crlf,
       ''221 Goodbye.'' @ crlf]"
proof -
  have u: "u \<noteq> []" "length u \<le> 500" "p \<noteq> []" "length p \<le> 500" using assms(3,4) by (simp_all add: word_ok_def)
  define v0 where "v0 = w\<lparr>ctl_in := ([''PASS '' @ p @ crlf, ''QUIT'' @ crlf], e)\<rparr>"
  define w1 where "w1 = handleUser os u v0"
  define v1 where "v1 = w1\<lparr>ctl_in := ([''QUIT'' @ crlf], e)\<rparr>"
  define w2 where "w2 = handlePass os p v1"
  define w3 where "w3 = handleQuit os (w2\<lparr>ctl_in := ([], e)\<rparr>)"
  have "\<not> ((u = ''anonymous'' \<or> u = ''ftp'') \<and> allowAnonymous (ctx v0))" using assms(5) by (simp add: v0_def)
  note asks = handleUser_asks[OF u(1) this, where os = os, folded w1_def]
  have 1: "ctl_in w1 = ([''PASS '' @ p @ crlf, ''QUIT'' @ crlf], e)" "sstate w1 = WAIT_PASS" "username w1 = u"
      "socket w1 = socket w" "ctx w1 = ctx w" "clientIp w1 = clientIp w"
      "sent_on (socket w) (trace w1) = sent_on (socket w) (trace w) @ [(''331 Password required for '' @ u) @ crlf]"
    using asks(2-7) asks(1)[of "socket w"] by (simp_all add: v0_def)
  then have v1: "sstate v1 = WAIT_PASS" "\<not> fst (isRateLimited (os_time os (trace v1)) (clientIp v1) (auth (ctx v1)))"
      "username v1 = u" "socket v1 = socket w" "ctx v1 = ctx w" "ctl_in v1 = ([''QUIT'' @ crlf], e)"
    using assms(6) by (simp_all add: v1_def)
  note pass = handlePass_sent[OF v1(1,2), where p = p, folded w2_def]
  have 2: "sent_on (socket w) (trace w2) = sent_on (socket w) (trace w1) @
      [pass_reply u (authenticate u p (auth (ctx w))) @ crlf]"
      "ctl_in w2 = ([''QUIT'' @ crlf], e)" "socket w2 = socket w" "sstate w2 \<noteq> CLOSED"
    using pass(1)[of "socket w"] pass(2-4) v1(3-6) by (simp_all add: v1_def)
  have "session_loop os w = session_loop os w1"
    using session_loop_segment[OF _ assms(2), of os] assms(1) u process_user[OF assms(3), of os v0]
    by (simp add: crlf_def v0_def w1_def)
  also have "\<dots> = session_loop os w2"
    using session_loop_segment[OF _ 1(1), of os] 1(2) u process_pass[OF assms(4), of os v1]
    by (simp add: crlf_def v1_def w2_def)
  also have "\<dots> = session_loop os w3"
    using session_loop_segment[OF 2(4,2)] process_quit by (simp add: crlf_def w3_def)
  also have "\<dots> = Done w3" by (rule session_loop_closed) (simp add: handleQuit_def w3_def)
  finally have "session_loop os w = Done w3" .
  moreover have "sent_on (socket w) (trace w3) = sent_on (socket w) (trace w2) @ [''221 Goodbye.'' @ crlf]"
    using 2(3) by (simp add: w3_def handleQuit_def sendReply_eq crlf_def)
  ultimately show ?thesis using 1(7) 2(1) by (intro exI[of _ w3]) (simp add: w3_def handleQuit_def)
qed

definition login_replies :: "string \<Rightarrow> bool \<Rightarrow> string list" where
  "login_replies u accepted =
     [''220 FTP Server v2.0 ready.'', ''331 Password required for '' @ u, pass_reply u accepted, ''221 Goodbye.'']"

definition login_lines :: "string \<Rightarrow> string \<Rightarrow> string list" where
  "login_lines u p = [''USER '' @ u @ crlf, ''PASS '' @ p @ crlf, ''QUIT'' @ crlf]"

lemma greeted_sent:
  "sent_on sock (trace (greeted os sock ip c h)) = sent_on sock h @ [''220 FTP Server v2.0 ready.'' @ crlf]"
  by (simp add: greeted_def new_session_def sendReply_eq crlf_def Let_def setRecvTimeout_def setKeepAlive_def
    setSocketBuffers_def)

lemma destroy_session_sent: "sent_on s (trace (destroy_session os w)) = sent_on s (trace w)"
  by (simp add: destroy_session_def Let_def split_beta trace_simps)

lemma serve_login:
  assumes "\<And>h. os_incoming os h sock = (login_lines u p, e)" and "word_ok u" and "word_ok p"
    and "\<not> ((u = ''anonymous'' \<or> u = ''ftp'') \<and> allowAnonymous c)"
    and "\<And>t. \<not> fst (isRateLimited t ip (auth c))"
  shows "\<exists>w. serve_client os sock ip c h = Done w \<and> sstate w = CLOSED \<and>
    sent_on sock (trace w) = sent_on sock h @ map (\<lambda>r. r @ crlf) (login_replies u (authenticate u p (auth c)))"
proof -
  let ?g = "greeted os sock ip c h"
  have g: "sstate ?g = WAIT_USER" "ctl_in ?g = (login_lines u p, e)" "clientIp ?g = ip"
    using assms(1) by (simp_all add: greeted_def new_session_def sendReply_eq toPosix_def Let_def)
  obtain w where w: "session_loop os ?g = Done w" "sstate w = CLOSED"
      "sent_on sock (trace w) = sent_on sock (trace ?g) @
        [(''331 Password required for '' @ u) @ crlf, pass_reply u (authenticate u p (auth c)) @ crlf,
         ''221 Goodbye.'' @ crlf]"
    using server_login[OF g(1) g(2)[unfolded login_lines_def] assms(2,3), of os] assms(4,5) g(3)
    by (auto simp: greeted_simps)
  let ?d = "destroy_session os (w\<lparr>sstate := CLOSED, ctx := (ctx w)\<lparr>activeConnections := atomic_dec (activeConnections (ctx w))\<rparr>\<rparr>)"
  have "serve_client os sock ip c h = Done ?d" using w(1) by (simp add: serve_client_eq)
  moreover have "sent_on sock (trace ?d) = sent_on sock (trace w)" by (simp add: destroy_session_sent)
  moreover have "sstate ?d = CLOSED" by (simp add: destroy_session_def Let_def split_beta)
  ultimately show ?thesis using w(3) by (simp add: greeted_sent login_replies_def)
qed

section \<open>The client's side\<close>

lemma login_replies_ok:
  assumes "word_ok u"
  shows "\<forall>r\<in>set (login_replies u b). reply_ok r \<and> reply_head r = r"
  using assms
  by (auto simp: login_replies_def pass_reply_def reply_ok_def starts_multi_def word_ok_def plain_def
    intro!: reply_head_plain)

lemma login_codes:
  "getReplyCode ''220 FTP Server v2.0 ready.'' = 220"
  "getReplyCode (''331 Password required for '' @ u) = 331"
  "getReplyCode (pass_reply u b) = (if b then 230 else 530)"
  by (simp_all add: pass_reply_def getReplyCode_def stoi_def is_space_def is_digit_def dec_def digit_val_def
    int32_def Let_def)

lemma client_login:
  assumes "in_step ((''331 Password required for '' @ u) # pass_reply u b # rs) rest c" and "word_ok u"
  shows "\<exists>c'. login os u p c = Some (b, c') \<and> in_step rs rest c' \<and> cl_socket c' = cl_socket c \<and>
    cl_trace c' = cl_trace c @ [Ev_send (cl_socket c) (''USER '' @ u @ crlf), Ev_send (cl_socket c) (''PASS '' @ p @ crlf)]"
proof -
  have head: "reply_head (''331 Password required for '' @ u) = ''331 Password required for '' @ u"
    "reply_head (pass_reply u b) = pass_reply u b"
    using login_replies_ok[OF assms(2), of b] by (simp_all add: login_replies_def)
  obtain c1 where c1: "exchange os (''USER '' @ u) c = Some (''331 Password required for '' @ u, c1)"
      "in_step (pass_reply u b # rs) rest c1" "cl_trace c1 = cl_trace c @ [Ev_send (cl_socket c) ((''USER '' @ u) @ crlf)]"
      "cl_socket c1 = cl_socket c"
    using exchange_in_step[OF assms(1), of os "''USER '' @ u"] head(1) by metis
  obtain c2 where c2: "exchange os (''PASS '' @ p) c1 = Some (pass_reply u b, c2)" "in_step rs rest c2"
      "cl_trace c2 = cl_trace c1 @ [Ev_send (cl_socket c1) ((''PASS '' @ p) @ crlf)]" "cl_socket c2 = cl_socket c1"
    using exchange_in_step[OF c1(2), of os "''PASS '' @ p"] head(2) by metis
  from c1(1) c2(1) have "login os u p c = Some (b, c2)"
    by (simp only: login_def bind.bind_lunit prod.case login_codes option.map) simp
  with c1(3,4) c2(2-4) show ?thesis by simp
qed

text \<open>A system on which the next connection is \<open>cs\<close> and receives \<open>inp\<close>.\<close>

lemma connect_in_step:
  assumes "data_peer os cs inp" and "steady inp" and "to_come inp = concat (map (\<lambda>r. r @ crlf) (welcome # rs)) @ rest"
    and "\<forall>r\<in>set (welcome # rs). reply_ok r"
  shows "\<exists>c'. connect os host port c = Some (getReplyCode (reply_head welcome) = 220, c') \<and> in_step rs rest c' \<and>
    cl_socket c' = cs \<and> sent_on cs (cl_trace c') = sent_on cs (cl_trace c)"
proof -
  let ?es = "[Ev_socket cs, Ev_connect cs host (word_of_int port) 0]"
  have s: "connectSocket os host port (cl_trace c) = (cs, cl_trace c @ ?es)" "cs \<noteq> kInvalidSocket"
    using assms(1) by (simp_all add: connectSocket_def data_peer_def fromPosix_def kInvalidSocket_def Let_def)
  define c1 where "c1 = (close_control os (c\<lparr>cl_trace := cl_trace c @ ?es\<rparr>))\<lparr>cl_socket := cs\<rparr>"
  define c2 where "c2 = c1\<lparr>cl_in := os_incoming os (cl_trace c1) (toPosix cs)\<rparr>"
  have "cl_in c2 = inp" using assms(1) by (simp add: c2_def data_peer_def toPosix_def)
  then have "in_step (welcome # rs) rest c2" using assms(2-4) by (simp add: in_step_def)
  from read_in_step[OF this] obtain c3 where
    c3: "read_from c2 = Some (reply_head welcome, c3)" "in_step rs rest c3" "cl_trace c3 = cl_trace c2"
      "cl_socket c3 = cl_socket c2" by blast
  have "connect os host port c = Some (getReplyCode (reply_head welcome) = 220, c3)"
  proof -
    have "connect os host port c = map_option (\<lambda>(r, d). (getReplyCode r = 220, d)) (read_from c2)"
      using s(2) by (simp add: connect_def s(1) c1_def c2_def Let_def)
    with c3(1) show ?thesis by simp
  qed
  moreover have "sent_on cs (cl_trace c1) = sent_on cs (cl_trace c)"
    by (simp add: c1_def close_control_def split_beta Let_def trace_simps)
  ultimately show ?thesis using c3 by (simp add: c2_def) (simp add: c1_def)
qed

lemma disconnect_in_step:
  assumes "in_step [r] rest c" and "0 \<le> cl_socket c"
  shows "\<exists>c'. disconnect os c = Some c' \<and> to_come (cl_in c') = rest \<and> cl_socket c' = kInvalidSocket \<and>
    sent_on s (cl_trace c') = sent_on s (cl_trace c) @ (if cl_socket c = s then [''QUIT'' @ crlf] else [])"
proof -
  obtain c1 where c1: "exchange os ''QUIT'' c = Some (reply_head r, c1)" "in_step [] rest c1"
      "cl_trace c1 = cl_trace c @ [Ev_send (cl_socket c) (''QUIT'' @ crlf)]"
    using exchange_in_step[OF assms(1), of os "''QUIT''"] by blast
  have "disconnect os c = Some (close_control os c1)"
    using c1(1) assms(2) by (simp add: disconnect_def ms_valid_def kInvalidSocket_def)
  then show ?thesis using c1(2,3)
    by (simp add: close_control_def split_beta Let_def trace_simps in_step_def)
qed

section \<open>Property\<close>

text \<open>C12. A visit to the server, from both ends: when the client receives what the server sends and the server
  receives the lines USER, PASS and QUIT, the client's \<open>connect\<close> succeeds, its \<open>login\<close> answers
  exactly what the server's \<open>authenticate\<close> answers for the name and the password, \<open>disconnect\<close>
  returns with every reply read and the socket closed, the lines the client has sent are exactly those the server
  received, and the server's task ends in the state CLOSED after the four replies.\<close>

theorem login_end_to_end:
  assumes server: "\<And>h. os_incoming srv h sock = (login_lines u p, e)" "\<And>t. \<not> fst (isRateLimited t ip (auth sc))"
      "\<not> ((u = ''anonymous'' \<or> u = ''ftp'') \<and> allowAnonymous sc)"
    and arguments: "word_ok u" "word_ok p"
    and network: "data_peer os cs inp" "steady inp"
      "to_come inp = concat (sent_on sock (trace (outcome_state (serve_client srv sock ip sc []))))"
  shows "\<exists>w c1 c2 c3. serve_client srv sock ip sc [] = Done w \<and> sstate w = CLOSED \<and>
    connect os host port c = Some (True, c1) \<and>
    login os u p c1 = Some (authenticate u p (auth sc), c2) \<and>
    disconnect os c2 = Some c3 \<and> to_come (cl_in c3) = [] \<and> cl_socket c3 = kInvalidSocket \<and>
    sent_on cs (cl_trace c3) = sent_on cs (cl_trace c) @ login_lines u p"
proof -
  let ?b = "authenticate u p (auth sc)"
  let ?rs = "[''331 Password required for '' @ u, pass_reply u ?b, ''221 Goodbye.'']"
  obtain w' where w': "serve_client srv sock ip sc [] = Done w'" "sstate w' = CLOSED"
      "sent_on sock (trace w') = map (\<lambda>r. r @ crlf) (login_replies u ?b)"
    using serve_login[OF server(1) arguments server(3,2), of "[]"] by auto
  then have "to_come inp = concat (map (\<lambda>r. r @ crlf) (''220 FTP Server v2.0 ready.'' # ?rs)) @ []"
    using network(3) by (simp add: login_replies_def)
  moreover have "\<forall>r\<in>set (''220 FTP Server v2.0 ready.'' # ?rs). reply_ok r"
      "reply_head ''220 FTP Server v2.0 ready.'' = ''220 FTP Server v2.0 ready.''"
    using login_replies_ok[OF arguments(1), of ?b] by (simp_all add: login_replies_def)
  ultimately obtain c1 where c1: "connect os host port c = Some (True, c1)" "in_step ?rs [] c1" "cl_socket c1 = cs"
      "sent_on cs (cl_trace c1) = sent_on cs (cl_trace c)"
    using connect_in_step[OF network(1,2), of "''220 FTP Server v2.0 ready.''" ?rs "[]" host port c]
    by (simp add: login_codes) blast
  obtain c2 where c2: "login os u p c1 = Some (?b, c2)" "in_step [''221 Goodbye.''] [] c2" "cl_socket c2 = cs"
      "cl_trace c2 = cl_trace c1 @ [Ev_send cs (''USER '' @ u @ crlf), Ev_send cs (''PASS '' @ p @ crlf)]"
    using client_login[OF c1(2) arguments(1), of os p] c1(3) by auto
  obtain c3 where c3: "disconnect os c2 = Some c3" "to_come (cl_in c3) = []" "cl_socket c3 = kInvalidSocket"
      "sent_on cs (cl_trace c3) = sent_on cs (cl_trace c2) @ [''QUIT'' @ crlf]"
    using disconnect_in_step[OF c2(2), of os cs] c2(3) network(1) by (auto simp: data_peer_def)
  have "sent_on cs (cl_trace c3) = sent_on cs (cl_trace c) @ login_lines u p"
    using c3(4) c2(4) c1(4) by (simp add: login_lines_def)
  with w'(1,2) c1(1) c2(1) c3(1-3) show ?thesis by (intro exI conjI)
qed

text \<open>The account \<open>ann\<close> visits, once with the right password and once with a wrong one.\<close>

definition login_os :: "string \<Rightarrow> os" where
  "login_os p = demo_os\<lparr>os_incoming := \<lambda>h s.
     (if s = 9 then login_lines ''ann'' p
      else map (\<lambda>r. r @ crlf) (login_replies ''ann'' (p = ''pw'')), Peer_closes)\<rparr>"

lemma ann_authenticates: "authenticate ''ann'' p (auth demo_context) = (p = ''pw'')"
  by (auto simp: authenticate_def demo_context_def new_auth_def)

lemma login_end_to_end_witness:
  "(\<exists>c1 c2 c3. connect (login_os ''pw'') ''10.0.0.9'' 2121 (new_client []) = Some (True, c1) \<and>
      login (login_os ''pw'') ''ann'' ''pw'' c1 = Some (True, c2) \<and> disconnect (login_os ''pw'') c2 = Some c3 \<and>
      cl_socket c3 = kInvalidSocket) \<and>
   (\<exists>c1 c2 c3. connect (login_os ''no'') ''10.0.0.9'' 2121 (new_client []) = Some (True, c1) \<and>
      login (login_os ''no'') ''ann'' ''no'' c1 = Some (False, c2) \<and> disconnect (login_os ''no'') c2 = Some c3 \<and>
      cl_socket c3 = kInvalidSocket)"
proof -
  have "\<exists>c1 c2 c3. connect (login_os p) ''10.0.0.9'' 2121 (new_client []) = Some (True, c1) \<and>
      login (login_os p) ''ann'' p c1 = Some (p = ''pw'', c2) \<and> disconnect (login_os p) c2 = Some c3 \<and>
      cl_socket c3 = kInvalidSocket" if p: "word_ok p" for p
  proof -
    let ?inp = "(map (\<lambda>r. r @ crlf) (login_replies ''ann'' (p = ''pw'')), Peer_closes)"
    have s: "os_incoming (login_os p) h 9 = (login_lines ''ann'' p, Peer_closes)" for h by (simp add: login_os_def)
    have l: "\<not> fst (isRateLimited t ''10.0.0.1'' (auth demo_context))" for t
      by (simp add: isRateLimited_def demo_context_def new_auth_def)
    have a: "\<not> ((''ann'' = ''anonymous'' \<or> ''ann'' = ''ftp'') \<and> allowAnonymous demo_context)"
      by (simp add: demo_context_def)
    have u: "word_ok ''ann''" by (simp add: word_ok_def plain_def)
    have n: "data_peer (login_os p) 7 ?inp" by (simp add: data_peer_def login_os_def demo_os_def)
    have i: "steady ?inp" by (auto simp: steady_def crlf_def)
    obtain w where w: "serve_client (login_os p) 9 ''10.0.0.1'' demo_context [] = Done w"
      "sent_on 9 (trace w) = fst ?inp"
      using serve_login[OF s u p a l, of "[]"] unfolding ann_authenticates sent_on_simps append_Nil fst_conv by blast
    have "to_come ?inp = concat (sent_on 9 (trace (outcome_state
        (serve_client (login_os p) 9 ''10.0.0.1'' demo_context []))))"
      by (simp only: to_come_def w outcome.sel)
    from login_end_to_end[OF s l a u p n i this, where host = "''10.0.0.9''" and port = 2121 and c = "new_client []"]
    show ?thesis unfolding ann_authenticates by blast
  qed
  from this[of "''pw''"] this[of "''no''"] show ?thesis by (simp add: word_ok_def plain_def)
qed

end
