(* ===== verification/V1_Server.thy ===== *)
theory V1_Server
  imports Client
begin

text \<open>
  \<open>src/server/main.cpp\<close>: the first version of the server, one file for Windows, kept in the
  repository. One thread per client runs \<open>handleClient\<close>. The Win32 calls are the events of the
  platform layer: \<open>GetFileAttributes\<close> is \<open>stat\<close>, \<open>FindFirstFile\<close> reads a directory and reports
  an entry with its attributes (\<open>entry_is_dir\<close>). \<open>std::cout\<close> is left out.
\<close>

section \<open>State and helpers\<close>

definition VALID_USER :: string where "VALID_USER = ''admin''"
definition VALID_PASS :: string where "VALID_PASS = ''1234''"
definition ROOT_DIR :: string where
  "ROOT_DIR = ''C:'' @ [CHR 0x5C] @ ''Users'' @ [CHR 0x5C] @ ''ASUS'' @ [CHR 0x5C] @ ''CODING'' @
     [CHR 0x5C] @ ''ftp_project'' @ [CHR 0x5C] @ ''ftproot''"

definition INVALID_SOCKET :: int where "INVALID_SOCKET = - 1"
definition SOCKET_ERROR :: int where "SOCKET_ERROR = - 1"

text \<open>The local variables of \<open>handleClient\<close> and the calls made so far.\<close>

record v1 =
  v1_client :: int
  loggedIn :: bool
  currentUser :: string
  v1_dir :: string
  v1_renameFrom :: string
  v1_passive :: int
  v1_usePassive :: bool
  v1_activeIp :: string
  v1_activePort :: int
  v1_trace :: hist

definition v1_reply :: "string \<Rightarrow> v1 \<Rightarrow> v1" where
  "v1_reply reply w = w\<lparr>v1_trace := v1_trace w @ [Ev_send (v1_client w) (reply @ crlf)]\<rparr>"

definition v1_clean :: "string \<Rightarrow> string" where
  "v1_clean = strip_trailing (\<lambda>c. c = carriage_return \<or> c = newline)"

text \<open>The verb in capitals and the argument.\<close>

definition v1_split :: "string \<Rightarrow> string \<times> string" where
  "v1_split cmd =
     (case find_char CHR '' '' cmd of
        Some sp \<Rightarrow> (map toupper (take sp cmd), drop (Suc sp) cmd)
      | None \<Rightarrow> (map toupper cmd, []))"

definition below_dir :: "string \<Rightarrow> v1 \<Rightarrow> string" where
  "below_dir argument w = v1_dir w @ [CHR 0x5C] @ argument"

definition v1_close :: "int \<Rightarrow> v1 \<Rightarrow> v1" where
  "v1_close s w = w\<lparr>v1_trace := v1_trace w @ [Ev_close s]\<rparr>"

text \<open>\<open>if (passiveSocket != INVALID_SOCKET) { closesocket(passiveSocket); passiveSocket = INVALID_SOCKET; }\<close>\<close>

definition drop_passive :: "v1 \<Rightarrow> v1" where
  "drop_passive w =
     (if v1_passive w \<noteq> INVALID_SOCKET then (v1_close (v1_passive w) w)\<lparr>v1_passive := INVALID_SOCKET\<rparr> else w)"

section \<open>Data connections\<close>

definition openPassiveSocket :: "os \<Rightarrow> hist \<Rightarrow> int \<times> int \<times> hist" where
  "openPassiveSocket os h =
     (let sock = os_socket os h;
          h1 = h @ [Ev_socket sock, Ev_bind sock 0, Ev_listen sock 1];
          port = uint (os_getsockname os h1 sock)
      in (sock, port, h1 @ [Ev_getsockname sock]))"

definition connectToClient :: "os \<Rightarrow> string \<Rightarrow> int \<Rightarrow> hist \<Rightarrow> int \<times> hist" where
  "connectToClient os ip port h =
     (let sock = os_socket os h;
          p = (word_of_int port :: 16 word);
          h1 = h @ [Ev_socket sock];
          r = os_connect os h1 sock ip p;
          h2 = h1 @ [Ev_connect sock ip p r]
      in if r = SOCKET_ERROR then (INVALID_SOCKET, h2 @ [Ev_close sock]) else (sock, h2))"

text \<open>The parser of \<open>PORT\<close>: the loop is the one of the second version.\<close>

definition v1_parsePort :: "string \<Rightarrow> cxx_exn + string \<times> int" where
  "v1_parsePort arg =
     (case parse_numbers arg (replicate 6 0) 0 [] of
        Inl e \<Rightarrow> Inl e
      | Inr nums \<Rightarrow> host_port nums)"

text \<open>\<open>None\<close>: \<open>accept\<close> does not return.\<close>

definition getDataSocket :: "os \<Rightarrow> v1 \<Rightarrow> int option \<times> v1" where
  "getDataSocket os w =
     (if v1_usePassive w then
        (case os_accept os (v1_trace w) (v1_passive w) of
           Accepted fd \<Rightarrow> (Some fd, w\<lparr>v1_trace := v1_trace w @ [Ev_accept (v1_passive w) fd]\<rparr>)
         | Accept_blocks \<Rightarrow> (None, w\<lparr>v1_trace := v1_trace w @ [Ev_accept_wait (v1_passive w)]\<rparr>))
      else let (s, h) = connectToClient os (v1_activeIp w) (v1_activePort w) (v1_trace w)
           in (Some s, w\<lparr>v1_trace := h\<rparr>))"

section \<open>Listings\<close>

definition find_pattern :: "string \<Rightarrow> string" where
  "find_pattern path = path @ [CHR 0x5C] @ ''*''"

definition entry_is_dir :: "os \<Rightarrow> hist \<Rightarrow> string \<Rightarrow> string \<Rightarrow> bool" where
  "entry_is_dir os h path name =
     (case os_stat os h (path @ [CHR 0x5C] @ name) of Some st \<Rightarrow> st_dir st | None \<Rightarrow> False)"

definition getDirectoryListing :: "os \<Rightarrow> string \<Rightarrow> hist \<Rightarrow> string \<times> hist" where
  "getDirectoryListing os path h =
     (case os_readdir os h (find_pattern path) of
        None \<Rightarrow> ''Error reading directory'' @ crlf
      | Some names \<Rightarrow>
          concat (map (\<lambda>name. (if entry_is_dir os h path name then ''<DIR>  '' else ''       '') @ name @ crlf)
            (filter (\<lambda>name. name \<noteq> ''.'' \<and> name \<noteq> ''..'') names)),
      h @ [Ev_readdir (find_pattern path)])"

definition getNameListing :: "os \<Rightarrow> string \<Rightarrow> hist \<Rightarrow> string \<times> hist" where
  "getNameListing os path h =
     (case os_readdir os h (find_pattern path) of
        None \<Rightarrow> []
      | Some names \<Rightarrow>
          concat (map (\<lambda>name. name @ crlf) (filter (\<lambda>name. name \<noteq> ''.'' \<and> name \<noteq> ''..'') names)),
      h @ [Ev_readdir (find_pattern path)])"

section \<open>Commands\<close>

definition v1_cwd :: "os \<Rightarrow> string \<Rightarrow> v1 \<Rightarrow> v1" where
  "v1_cwd os argument w =
     (let newDir = below_dir argument w;
          attr = os_stat os (v1_trace w) newDir;
          w1 = w\<lparr>v1_trace := v1_trace w @ [Ev_stat newDir]\<rparr>
      in if (case attr of Some st \<Rightarrow> st_dir st | None \<Rightarrow> False)
         then v1_reply (''250 Directory changed to '' @ newDir) (w1\<lparr>v1_dir := newDir\<rparr>)
         else v1_reply ''550 Directory not found'' w1)"

definition v1_cdup :: "v1 \<Rightarrow> v1" where
  "v1_cdup w =
     (let w1 = (case rfind_char CHR 0x5C (v1_dir w) of
                  Some pos \<Rightarrow> if v1_dir w \<noteq> ROOT_DIR then w\<lparr>v1_dir := take pos (v1_dir w)\<rparr> else w
                | None \<Rightarrow> w)
      in v1_reply (''250 Directory changed to '' @ v1_dir w1) w1)"

definition v1_pasv :: "os \<Rightarrow> v1 \<Rightarrow> v1" where
  "v1_pasv os w =
     (let w1 = (if v1_passive w \<noteq> INVALID_SOCKET then v1_close (v1_passive w) w else w);
          (sock, port, h) = openPassiveSocket os (v1_trace w1)
      in v1_reply (''227 Entering Passive Mode (127,0,0,1,'' @ int_str (port div 256) @ '','' @
                   int_str (port mod 256) @ '')'')
           (w1\<lparr>v1_passive := sock, v1_usePassive := True, v1_trace := h\<rparr>))"

definition v1_port :: "string \<Rightarrow> v1 \<Rightarrow> v1 outcome" where
  "v1_port argument w =
     (case v1_parsePort argument of
        Inl e \<Rightarrow> Throws e w
      | Inr (ip, port) \<Rightarrow>
          Done (v1_reply ''200 PORT command successful''
            (drop_passive (w\<lparr>v1_activeIp := ip, v1_activePort := port, v1_usePassive := False\<rparr>))))"

text \<open>Open the data connection, answer 425 when there is none, otherwise go on.\<close>

definition v1_with_data :: "os \<Rightarrow> (v1 \<Rightarrow> v1) \<Rightarrow> (int \<Rightarrow> v1 \<Rightarrow> v1 outcome) \<Rightarrow> v1 \<Rightarrow> v1 outcome" where
  "v1_with_data os giveup body w =
     (case getDataSocket os w of
        (None, w1) \<Rightarrow> Hangs w1
      | (Some s, w1) \<Rightarrow>
          if s = INVALID_SOCKET then Done (giveup (v1_reply ''425 Cannot open data connection'' w1))
          else body s w1)"

text \<open>Send a listing, close both sockets and report.\<close>

definition v1_finish :: "string \<Rightarrow> int \<Rightarrow> v1 \<Rightarrow> v1" where
  "v1_finish report s w = v1_reply report (drop_passive (v1_close s w))"

definition v1_listing :: "(os \<Rightarrow> string \<Rightarrow> hist \<Rightarrow> string \<times> hist) \<Rightarrow> string \<Rightarrow> string \<Rightarrow> os \<Rightarrow> v1 \<Rightarrow> v1 outcome" where
  "v1_listing listing_of opening report os w =
     v1_with_data os id
       (\<lambda>s w1. let (listing, h) = listing_of os (v1_dir w1) (v1_trace w1)
               in Done (v1_finish report s (w1\<lparr>v1_trace := h @ [Ev_send s listing]\<rparr>)))
       (v1_reply opening w)"

definition v1_list :: "os \<Rightarrow> v1 \<Rightarrow> v1 outcome" where
  "v1_list = v1_listing getDirectoryListing ''150 Opening data connection for LIST'' ''226 Directory listing complete''"

definition v1_nlst :: "os \<Rightarrow> v1 \<Rightarrow> v1 outcome" where
  "v1_nlst = v1_listing getNameListing ''150 Opening data connection for NLST'' ''226 Name listing complete''"

function v1_send_file :: "int \<Rightarrow> string \<Rightarrow> string \<Rightarrow> hist \<Rightarrow> hist" where
  "v1_send_file s path left h =
     (let buf = take 4096 left; h1 = h @ [Ev_fread path (length buf)]
      in if buf = [] then h1 else v1_send_file s path (drop 4096 left) (h1 @ [Ev_send s buf]))"
  by pat_completeness auto
termination
  by (relation "measure (\<lambda>(s, path, left, h). length left)") auto

declare v1_send_file.simps [simp del]

definition v1_retr :: "os \<Rightarrow> string \<Rightarrow> v1 \<Rightarrow> v1 outcome" where
  "v1_retr os argument w =
     (let filePath = below_dir argument w;
          w1 = w\<lparr>v1_trace := v1_trace w @ [Ev_fopen filePath ''rb'']\<rparr>
      in if \<not> os_fopen os (v1_trace w) filePath ''rb'' then Done (v1_reply ''550 File not found'' w1)
         else v1_with_data os (\<lambda>w2. w2\<lparr>v1_trace := v1_trace w2 @ [Ev_fclose filePath]\<rparr>)
           (\<lambda>s w2. let content = os_content os (v1_trace w2) filePath;
                       h = v1_send_file s filePath content (v1_trace w2)
                   in Done (v1_finish ''226 File transfer complete'' s (w2\<lparr>v1_trace := h @ [Ev_fclose filePath]\<rparr>)))
           (v1_reply ''150 Opening data connection for file download'' w1))"

definition v1_stor :: "os \<Rightarrow> string \<Rightarrow> v1 \<Rightarrow> v1 outcome" where
  "v1_stor os argument w =
     (let filePath = below_dir argument w;
          w1 = w\<lparr>v1_trace := v1_trace w @ [Ev_fopen filePath ''wb'']\<rparr>
      in if \<not> os_fopen os (v1_trace w) filePath ''wb'' then Done (v1_reply ''550 Cannot create file'' w1)
         else v1_with_data os (\<lambda>w2. w2\<lparr>v1_trace := v1_trace w2 @ [Ev_fclose filePath]\<rparr>)
           (\<lambda>s w2. case recv_all 4096 (os_incoming os (v1_trace w2) s) of
                     None \<Rightarrow> Hangs w2
                   | Some bufs \<Rightarrow> Done (v1_finish ''226 File upload complete'' s
                       (w2\<lparr>v1_trace := v1_trace w2 @ map (Ev_fwrite filePath) bufs @ [Ev_fclose filePath]\<rparr>)))
           (v1_reply ''150 Opening data connection for file upload'' w1))"

definition v1_dele :: "os \<Rightarrow> string \<Rightarrow> v1 \<Rightarrow> v1" where
  "v1_dele os argument w =
     (let filePath = below_dir argument w
      in v1_reply (if os_remove os (v1_trace w) filePath then ''250 File deleted successfully''
                   else ''550 Could not delete file'')
           (w\<lparr>v1_trace := v1_trace w @ [Ev_remove filePath]\<rparr>))"

definition v1_mkd :: "os \<Rightarrow> string \<Rightarrow> v1 \<Rightarrow> v1" where
  "v1_mkd os argument w =
     (let dirPath = below_dir argument w
      in v1_reply (if os_mkdir os (v1_trace w) dirPath then ''257 '' @ [CHR 0x22] @ dirPath @ [CHR 0x22] @ '' directory created''
                   else ''550 Could not create directory'')
           (w\<lparr>v1_trace := v1_trace w @ [Ev_mkdir dirPath]\<rparr>))"

definition v1_rmd :: "os \<Rightarrow> string \<Rightarrow> v1 \<Rightarrow> v1" where
  "v1_rmd os argument w =
     (let dirPath = below_dir argument w
      in v1_reply (if os_rmdir os (v1_trace w) dirPath then ''250 Directory removed successfully''
                   else ''550 Could not remove directory'')
           (w\<lparr>v1_trace := v1_trace w @ [Ev_rmdir dirPath]\<rparr>))"

definition v1_rnfr :: "os \<Rightarrow> string \<Rightarrow> v1 \<Rightarrow> v1" where
  "v1_rnfr os argument w =
     (let oldPath = below_dir argument w;
          w1 = w\<lparr>v1_trace := v1_trace w @ [Ev_stat oldPath]\<rparr>
      in if os_stat os (v1_trace w) oldPath = None then v1_reply ''550 File not found'' w1
         else v1_reply ''350 Ready for destination name'' (w1\<lparr>v1_renameFrom := oldPath\<rparr>))"

definition v1_rnto :: "os \<Rightarrow> string \<Rightarrow> v1 \<Rightarrow> v1" where
  "v1_rnto os argument w =
     (if v1_renameFrom w = [] then v1_reply ''503 Send RNFR first'' w
      else let newPath = below_dir argument w;
               w1 = w\<lparr>v1_trace := v1_trace w @ [Ev_rename (v1_renameFrom w) newPath]\<rparr>
           in (v1_reply (if os_rename os (v1_trace w) (v1_renameFrom w) newPath then ''250 File renamed successfully''
                         else ''550 Could not rename file'') w1)\<lparr>v1_renameFrom := []\<rparr>)"

section \<open>The command loop\<close>

text \<open>What follows the login check.\<close>

definition v1_dispatch :: "os \<Rightarrow> string \<Rightarrow> string \<Rightarrow> v1 \<Rightarrow> v1 outcome" where
  "v1_dispatch os verb argument w =
     (if verb = ''SYST'' then Done (v1_reply ''215 Windows_NT'' w)
      else if verb = ''TYPE'' then Done (v1_reply (''200 Type set to '' @ argument) w)
      else if verb = ''PWD'' then Done (v1_reply (''257 '' @ [CHR 0x22] @ v1_dir w @ [CHR 0x22] @ '' is current directory'') w)
      else if verb = ''CWD'' then Done (v1_cwd os argument w)
      else if verb = ''CDUP'' then Done (v1_cdup w)
      else if verb = ''PASV'' then Done (v1_pasv os w)
      else if verb = ''PORT'' then v1_port argument w
      else if verb = ''LIST'' then v1_list os w
      else if verb = ''NLST'' then v1_nlst os w
      else if verb = ''RETR'' then v1_retr os argument w
      else if verb = ''STOR'' then v1_stor os argument w
      else if verb = ''DELE'' then Done (v1_dele os argument w)
      else if verb = ''MKD'' then Done (v1_mkd os argument w)
      else if verb = ''RMD'' then Done (v1_rmd os argument w)
      else if verb = ''RNFR'' then Done (v1_rnfr os argument w)
      else if verb = ''RNTO'' then Done (v1_rnto os argument w)
      else Done (v1_reply ''202 Command not implemented yet'' w))"

text \<open>One command; \<open>QUIT\<close> is left to the loop.\<close>

definition v1_command :: "os \<Rightarrow> string \<Rightarrow> string \<Rightarrow> v1 \<Rightarrow> v1 outcome" where
  "v1_command os verb argument w =
     (if verb = ''OPTS'' \<or> verb = ''NOOP'' then Done (v1_reply ''200 OK'' w)
      else if verb = ''USER'' then
        Done (v1_reply (''331 Password required for '' @ argument) (w\<lparr>currentUser := argument\<rparr>))
      else if verb = ''PASS'' then
        Done (if currentUser w = VALID_USER \<and> argument = VALID_PASS
              then v1_reply ''230 Login successful'' (w\<lparr>loggedIn := True\<rparr>)
              else v1_reply ''530 Login incorrect'' w)
      else if \<not> loggedIn w then Done (v1_reply ''530 Please login first'' w)
      else v1_dispatch os verb argument w)"

text \<open>
  The received bytes are read as a C string: up to the first NUL, and past the end of the
  buffer when all of its 4096 bytes are filled without one.
\<close>

definition c_buffer :: "string \<Rightarrow> string option" where
  "c_buffer raw =
     (if CHR 0x00 \<in> set raw \<or> length raw < 4096 then Some (takeWhile (\<lambda>c. c \<noteq> CHR 0x00) raw) else None)"

function v1_loop :: "os \<Rightarrow> net_in \<Rightarrow> v1 \<Rightarrow> v1 outcome" where
  "v1_loop os inp w =
     (case recvData 4096 inp of
        (R_end, inp') \<Rightarrow> Done w
      | (R_blocks, inp') \<Rightarrow> Hangs w
      | (R_data raw, inp') \<Rightarrow>
          (case c_buffer raw of
             None \<Rightarrow> Throws Undefined_behaviour w
           | Some str \<Rightarrow>
               (let (verb, argument) = v1_split (v1_clean str)
                in if verb = ''QUIT'' then Done (v1_reply ''221 Goodbye'' w)
                   else bind_outcome (v1_command os verb argument w) (v1_loop os inp'))))"
  by pat_completeness auto
termination
  by (relation "measure (\<lambda>(os, inp, w). sum_list (map length (fst inp)))")
     (auto dest!: recvData_decreases[OF sym])

declare v1_loop.simps [simp del]

definition new_v1 :: "int \<Rightarrow> hist \<Rightarrow> v1" where
  "new_v1 clientSocket h =
     \<lparr>v1_client = clientSocket, loggedIn = False, currentUser = [], v1_dir = ROOT_DIR, v1_renameFrom = [],
      v1_passive = INVALID_SOCKET, v1_usePassive = False, v1_activeIp = [], v1_activePort = 0,
      v1_trace = h\<rparr>"

definition v1_handleClient :: "os \<Rightarrow> int \<Rightarrow> hist \<Rightarrow> v1 outcome" where
  "v1_handleClient os clientSocket h =
     bind_outcome
       (let w = v1_reply ''220 Welcome to My FTP Server'' (new_v1 clientSocket h)
        in v1_loop os (os_incoming os (v1_trace w) clientSocket) w)
       (\<lambda>w. Done (v1_close clientSocket (drop_passive w)))"

text \<open>
  The program: it listens on port 21 and starts a thread with \<open>handleClient\<close> for whatever \<open>accept\<close>
  returns, without looking at it; no result is checked. \<open>None\<close>: \<open>accept\<close> waits.
\<close>

definition v1_listen :: "os \<Rightarrow> hist \<Rightarrow> int \<times> hist" where
  "v1_listen os h = (let s = os_socket os h in (s, h @ [Ev_socket s, Ev_bind s 21, Ev_listen s 5]))"

definition v1_accept :: "os \<Rightarrow> int \<Rightarrow> hist \<Rightarrow> (hist \<Rightarrow> v1 outcome) option \<times> hist" where
  "v1_accept os serverSocket h =
     (case os_accept os h serverSocket of
        Accepted clientSocket \<Rightarrow> (Some (v1_handleClient os clientSocket), h @ [Ev_accept serverSocket clientSocket])
      | Accept_blocks \<Rightarrow> (None, h @ [Ev_accept_wait serverSocket]))"

section \<open>Sockets\<close>

text \<open>The descriptors of the trace but for the passive socket the session still holds.\<close>

definition v1_balance :: "int \<Rightarrow> v1 \<Rightarrow> int" where
  "v1_balance x w = held x (v1_trace w) - (if v1_passive w = x then 1 else 0)"

lemma v1_balance_simps [simp]:
  "v1_balance x (v1_reply r w) = v1_balance x w"
  "v1_balance x (w\<lparr>v1_dir := d\<rparr>) = v1_balance x w"
  "v1_balance x (w\<lparr>v1_renameFrom := d\<rparr>) = v1_balance x w"
  "v1_balance x (w\<lparr>loggedIn := b\<rparr>) = v1_balance x w"
  "v1_balance x (w\<lparr>currentUser := d\<rparr>) = v1_balance x w"
  "v1_balance x (v1_close s w) = v1_balance x w - (if s = x then 1 else 0)"
  by (simp_all add: v1_balance_def v1_reply_def v1_close_def)

lemma v1_balance_trace:
  "v1_balance x (w\<lparr>v1_trace := v1_trace w @ es\<rparr>) = v1_balance x w + held x es"
  by (simp add: v1_balance_def)

lemma drop_passive_balance [simp]: "0 \<le> x \<Longrightarrow> v1_balance x (drop_passive w) = v1_balance x w"
  by (auto simp: drop_passive_def v1_balance_def v1_close_def INVALID_SOCKET_def)

lemma drop_passive_none: "v1_passive (drop_passive w) = INVALID_SOCKET"
  by (simp add: drop_passive_def)

lemma v1_passive_frame [simp]:
  "v1_passive (v1_reply r w) = v1_passive w" "v1_client (v1_reply r w) = v1_client w"
  "v1_trace (v1_reply r w) = v1_trace w @ [Ev_send (v1_client w) (r @ crlf)]"
  by (simp_all add: v1_reply_def)

lemma v1_pasv_balance: "0 \<le> x \<Longrightarrow> v1_balance x (v1_pasv os w) = v1_balance x w"
  by (auto simp: v1_pasv_def openPassiveSocket_def Let_def v1_balance_def v1_close_def INVALID_SOCKET_def)

lemma getDataSocket_balance:
  assumes "0 \<le> x"
  shows "v1_balance x (snd (getDataSocket os w)) =
    v1_balance x w + (if fst (getDataSocket os w) = Some x then 1 else 0)"
  using assms
  by (auto simp: getDataSocket_def connectToClient_def v1_balance_def Let_def INVALID_SOCKET_def
      split: accept_result.split)

text \<open>A transfer that finishes gives the data socket back.\<close>

lemma v1_with_data_balance:
  assumes "0 \<le> x" and "v1_with_data os giveup body w = Done w'"
    and "\<And>w. v1_balance x (giveup w) = v1_balance x w"
    and "\<And>s w1 w2. body s w1 = Done w2 \<Longrightarrow> v1_balance x w2 = v1_balance x w1 - (if s = x then 1 else 0)"
  shows "v1_balance x w' = v1_balance x w"
proof -
  obtain r w1 where g: "getDataSocket os w = (r, w1)" by fastforce
  with getDataSocket_balance[OF assms(1), of os w]
  have b: "v1_balance x w1 = v1_balance x w + (if r = Some x then 1 else 0)" by simp
  show ?thesis
  proof (cases r)
    case None
    with g assms(2) show ?thesis by (simp add: v1_with_data_def)
  next
    case (Some s)
    show ?thesis
    proof (cases "s = INVALID_SOCKET")
      case True
      with Some g b assms(1,2) show ?thesis by (auto simp: v1_with_data_def INVALID_SOCKET_def assms(3))
    next
      case False
      with Some g assms(2) have "body s w1 = Done w'" by (simp add: v1_with_data_def)
      from assms(4)[OF this] b Some show ?thesis by auto
    qed
  qed
qed

lemma v1_finish_balance:
  "0 \<le> x \<Longrightarrow> v1_balance x (v1_finish report s w) = v1_balance x w - (if s = x then 1 else 0)"
  by (simp add: v1_finish_def)

lemma v1_listing_balance:
  assumes "0 \<le> x" and "v1_listing f opening report os w = Done w'"
    and "\<And>path h. \<exists>e. snd (f os path h) = h @ [e] \<and> sock_delta x e = 0"
  shows "v1_balance x w' = v1_balance x w"
proof -
  have "v1_balance x w' = v1_balance x (v1_reply opening w)"
    using assms(2) unfolding v1_listing_def
  proof (rule v1_with_data_balance[OF assms(1)])
    fix s w1 w2
    assume d: "(let (listing, h) = f os (v1_dir w1) (v1_trace w1)
      in Done (v1_finish report s (w1\<lparr>v1_trace := h @ [Ev_send s listing]\<rparr>))) = Done w2"
    obtain e where e: "snd (f os (v1_dir w1) (v1_trace w1)) = v1_trace w1 @ [e]" "sock_delta x e = 0"
      using assms(3) by blast
    with d show "v1_balance x w2 = v1_balance x w1 - (if s = x then 1 else 0)"
      by (auto simp: split_beta v1_finish_balance[OF assms(1)] v1_balance_trace)
  qed simp
  then show ?thesis by simp
qed

lemma v1_send_file_trace:
  "\<exists>es. v1_send_file s path left h = h @ es \<and> held x es = 0 \<and> concat (sent_on s es) = left"
proof (induction s path left h rule: v1_send_file.induct)
  case (1 s path left h)
  show ?case
  proof (cases "left = []")
    case True
    then show ?thesis by (subst v1_send_file.simps) simp
  next
    case False
    let ?buf = "take 4096 left" and ?h1 = "h @ [Ev_fread path (length (take 4096 left))]"
    from 1[OF refl refl] False obtain es where
      "v1_send_file s path (drop 4096 left) (?h1 @ [Ev_send s ?buf]) = (?h1 @ [Ev_send s ?buf]) @ es"
      "held x es = 0" "concat (sent_on s es) = drop 4096 left" by auto
    with False show ?thesis
      by (subst v1_send_file.simps)
         (auto simp: Let_def intro!: exI[of _ "Ev_fread path (length ?buf) # Ev_send s ?buf # es"])
  qed
qed

lemma v1_retr_balance:
  assumes "0 \<le> x" and "v1_retr os argument w = Done w'"
  shows "v1_balance x w' = v1_balance x w"
proof (cases "os_fopen os (v1_trace w) (below_dir argument w) ''rb''")
  case False
  with assms show ?thesis by (auto simp: v1_retr_def v1_balance_trace)
next
  case True
  let ?f = "below_dir argument w"
  let ?w1 = "v1_reply ''150 Opening data connection for file download''
    (w\<lparr>v1_trace := v1_trace w @ [Ev_fopen ?f ''rb'']\<rparr>)"
  have data: "v1_with_data os (\<lambda>w2. w2\<lparr>v1_trace := v1_trace w2 @ [Ev_fclose ?f]\<rparr>)
      (\<lambda>s w2. Done (v1_finish ''226 File transfer complete'' s
        (w2\<lparr>v1_trace := v1_send_file s ?f (os_content os (v1_trace w2) ?f) (v1_trace w2) @ [Ev_fclose ?f]\<rparr>))) ?w1
      = Done w'"
    using assms(2) True by (simp add: v1_retr_def Let_def)
  have "v1_balance x w' = v1_balance x ?w1"
  proof (rule v1_with_data_balance[OF assms(1) data])
    fix s :: int and w1 w2 :: v1
    let ?c = "os_content os (v1_trace w1) ?f"
    assume d: "Done (v1_finish ''226 File transfer complete'' s
      (w1\<lparr>v1_trace := v1_send_file s ?f ?c (v1_trace w1) @ [Ev_fclose ?f]\<rparr>)) = Done w2"
    obtain es where "v1_send_file s ?f ?c (v1_trace w1) = v1_trace w1 @ es" "held x es = 0"
      using v1_send_file_trace by blast
    with d show "v1_balance x w2 = v1_balance x w1 - (if s = x then 1 else 0)"
      by (auto simp: v1_finish_balance[OF assms(1)] v1_balance_trace)
  qed (simp add: v1_balance_trace)
  then show ?thesis by (simp add: v1_balance_trace)
qed

lemma v1_stor_balance:
  assumes "0 \<le> x" and "v1_stor os argument w = Done w'"
  shows "v1_balance x w' = v1_balance x w"
proof (cases "os_fopen os (v1_trace w) (below_dir argument w) ''wb''")
  case False
  with assms show ?thesis by (auto simp: v1_stor_def v1_balance_trace)
next
  case True
  let ?f = "below_dir argument w"
  let ?w1 = "v1_reply ''150 Opening data connection for file upload''
    (w\<lparr>v1_trace := v1_trace w @ [Ev_fopen ?f ''wb'']\<rparr>)"
  have h: "held x (map (Ev_fwrite p) bufs) = 0" for p bufs by (induction bufs) simp_all
  have data: "v1_with_data os (\<lambda>w2. w2\<lparr>v1_trace := v1_trace w2 @ [Ev_fclose ?f]\<rparr>)
      (\<lambda>s w2. case recv_all 4096 (os_incoming os (v1_trace w2) s) of
          None \<Rightarrow> Hangs w2
        | Some bufs \<Rightarrow> Done (v1_finish ''226 File upload complete'' s
            (w2\<lparr>v1_trace := v1_trace w2 @ map (Ev_fwrite ?f) bufs @ [Ev_fclose ?f]\<rparr>))) ?w1
      = Done w'"
    using assms(2) True by (simp add: v1_stor_def Let_def)
  have "v1_balance x w' = v1_balance x ?w1"
  proof (rule v1_with_data_balance[OF assms(1) data])
    fix s :: int and w1 w2 :: v1
    assume "(case recv_all 4096 (os_incoming os (v1_trace w1) s) of
                     None \<Rightarrow> Hangs w1
                   | Some bufs \<Rightarrow> Done (v1_finish ''226 File upload complete'' s
                       (w1\<lparr>v1_trace := v1_trace w1 @ map (Ev_fwrite ?f) bufs @ [Ev_fclose ?f]\<rparr>))) = Done w2"
    with h show "v1_balance x w2 = v1_balance x w1 - (if s = x then 1 else 0)"
      by (auto simp: v1_finish_balance[OF assms(1)] v1_balance_trace split: option.splits)
  qed (simp add: v1_balance_trace)
  then show ?thesis by (simp add: v1_balance_trace)
qed

lemma listing_events:
  "\<exists>e. snd (getDirectoryListing os path h) = h @ [e] \<and> sock_delta x e = 0"
  "\<exists>e. snd (getNameListing os path h) = h @ [e] \<and> sock_delta x e = 0"
  by (simp_all add: getDirectoryListing_def getNameListing_def)

lemma v1_listings_balance:
  assumes "0 \<le> x"
  shows "v1_list os w = Done w' \<Longrightarrow> v1_balance x w' = v1_balance x w"
    and "v1_nlst os w = Done w' \<Longrightarrow> v1_balance x w' = v1_balance x w"
  unfolding v1_list_def v1_nlst_def by (erule v1_listing_balance[OF assms], rule listing_events)+

lemma v1_port_balance: "0 \<le> x \<Longrightarrow> v1_port a w = Done w' \<Longrightarrow> v1_balance x w' = v1_balance x w"
  by (auto simp: v1_port_def split: sum.splits) (simp add: v1_balance_def)

lemma v1_plain_balance:
  "v1_balance x (v1_cwd os a w) = v1_balance x w"
  "v1_balance x (v1_cdup w) = v1_balance x w"
  "v1_balance x (v1_dele os a w) = v1_balance x w"
  "v1_balance x (v1_mkd os a w) = v1_balance x w"
  "v1_balance x (v1_rmd os a w) = v1_balance x w"
  "v1_balance x (v1_rnfr os a w) = v1_balance x w"
  "v1_balance x (v1_rnto os a w) = v1_balance x w"
  by (simp_all add: v1_cwd_def v1_cdup_def v1_dele_def v1_mkd_def v1_rmd_def v1_rnfr_def v1_rnto_def
      Let_def v1_balance_trace split: option.split)

lemmas v1_balances = v1_plain_balance v1_listings_balance v1_port_balance v1_pasv_balance
  v1_retr_balance v1_stor_balance

lemma v1_dispatch_balance:
  "0 \<le> x \<Longrightarrow> v1_dispatch os verb a w = Done w' \<Longrightarrow> v1_balance x w' = v1_balance x w"
  by (auto simp: v1_dispatch_def v1_balances split: if_splits)

lemma v1_command_balance:
  "0 \<le> x \<Longrightarrow> v1_command os verb a w = Done w' \<Longrightarrow> v1_balance x w' = v1_balance x w"
  by (auto simp: v1_command_def v1_dispatch_balance split: if_splits)

lemma v1_loop_balance:
  assumes "0 \<le> x"
  shows "v1_loop os inp w = Done w' \<Longrightarrow> v1_balance x w' = v1_balance x w"
proof (induction os inp w arbitrary: w' rule: v1_loop.induct)
  case (1 os inp w)
  obtain r inp' where r: "recvData 4096 inp = (r, inp')" by (cases "recvData 4096 inp")
  have step: "w' = v1_reply ''221 Goodbye'' w \<or>
      (\<exists>w1. v1_command os verb a w = Done w1 \<and> v1_loop os inp' w1 = Done w')"
    if "r = R_data raw" "c_buffer raw = Some str" "v1_split (v1_clean str) = (verb, a)" for raw str verb a
    using "1.prems" r that by (subst (asm) v1_loop.simps) (auto simp: bind_outcome_simps split: if_splits)
  show ?case
  proof (cases r)
    case (R_data raw)
    with "1.prems" r obtain str where str: "c_buffer raw = Some str"
      by (subst (asm) v1_loop.simps) (auto split: option.splits)
    obtain verb a where va: "v1_split (v1_clean str) = (verb, a)" by fastforce
    show ?thesis
    proof (cases "verb = ''QUIT''")
      case True
      with "1.prems" r R_data str va have "w' = v1_reply ''221 Goodbye'' w"
        by (subst (asm) v1_loop.simps) simp
      then show ?thesis by simp
    next
      case False
      with step[OF R_data str va] "1.prems" r R_data str va obtain w1 where
        w1: "v1_command os verb a w = Done w1" "v1_loop os inp' w1 = Done w'"
        by (subst (asm) v1_loop.simps) (auto simp: bind_outcome_simps)
      from "1.IH"[OF r[symmetric] R_data str refl va[symmetric] False w1(2)]
        v1_command_balance[OF assms w1(1)] show ?thesis by simp
    qed
  qed (use "1.prems" r in \<open>simp_all add: v1_loop.simps\<close>)
qed

section \<open>Properties\<close>

text \<open>C34. A session of the first version that ends in the ordinary way has closed every socket it opened
  and the client's, each once: the balance of every descriptor is what it was, less one for
  the client's socket.\<close>

theorem v1_session_closes_sockets:
  assumes "0 \<le> x" and "v1_handleClient os sock h = Done w"
  shows "held x (v1_trace w) = held x h - (if x = sock then 1 else 0)"
proof -
  let ?w0 = "v1_reply ''220 Welcome to My FTP Server'' (new_v1 sock h)"
  from assms(2) obtain w1 where
    w1: "v1_loop os (os_incoming os (v1_trace ?w0) sock) ?w0 = Done w1"
    and w: "w = v1_close sock (drop_passive w1)"
    by (auto simp: v1_handleClient_def Let_def bind_outcome_simps)
  from v1_loop_balance[OF assms(1) w1] assms(1) have "v1_balance x w1 = held x h"
    by (simp add: v1_balance_def new_v1_def INVALID_SOCKET_def)
  with w assms(1) have "v1_balance x w = held x h - (if x = sock then 1 else 0)" by auto
  moreover have "v1_passive w = INVALID_SOCKET" using w by (simp add: v1_close_def drop_passive_none)
  ultimately show ?thesis using assms(1) by (simp add: v1_balance_def INVALID_SOCKET_def)
qed

definition v1_demo_os :: os where
  "v1_demo_os = demo_os\<lparr>os_incoming := \<lambda>h s. ([''USER admin'', ''PASS 1234'', ''PASV'', ''QUIT''], Peer_silent)\<rparr>"

theorem v1_session_closes_sockets_witness:
  "\<exists>w. v1_handleClient v1_demo_os 9 [Ev_accept 3 9] = Done w \<and> held 9 (v1_trace w) = 0 \<and>
     held 7 (v1_trace w) = 0 \<and> Ev_socket 7 \<in> set (v1_trace w)"
proof -
  obtain w where w: "v1_handleClient v1_demo_os 9 [Ev_accept 3 9] = Done w" "Ev_socket 7 \<in> set (v1_trace w)"
    by (simp add: v1_handleClient_def v1_demo_os_def demo_os_def v1_loop.simps c_buffer_def v1_clean_def
        v1_split_def toupper_def v1_command_def v1_dispatch_def v1_reply_def
        new_v1_def VALID_USER_def VALID_PASS_def v1_pasv_def openPassiveSocket_def v1_close_def drop_passive_def
        INVALID_SOCKET_def)
  with v1_session_closes_sockets[OF _ w(1), of 9] v1_session_closes_sockets[OF _ w(1), of 7]
  show ?thesis by simp
qed

text \<open>Before login a command of the first version does nothing but send one reply on the client's
  socket, and the session is logged in by the one pair of credentials in the source only, in whatever
  order and however often the client tries: failures are neither counted nor delayed.\<close>

theorem v1_login_guard:
  assumes "\<not> loggedIn w"
  shows "\<exists>w' reply. v1_command os verb argument w = Done w' \<and>
     v1_trace w' = v1_trace w @ [Ev_send (v1_client w) (reply @ crlf)] \<and>
     (loggedIn w' \<longleftrightarrow> verb = ''PASS'' \<and> currentUser w = ''admin'' \<and> argument = ''1234'')"
  using assms by (auto simp: v1_command_def v1_reply_def VALID_USER_def VALID_PASS_def)

theorem v1_login_guard_witness:
  "\<exists>w' reply. v1_command os ''PASS'' ''1234'' (new_v1 7 []\<lparr>currentUser := ''admin''\<rparr>) = Done w' \<and>
     v1_trace w' = [Ev_send 7 (reply @ crlf)] \<and> loggedIn w'"
proof -
  have "\<not> loggedIn (new_v1 7 []\<lparr>currentUser := ''admin''\<rparr>)" by (simp add: new_v1_def)
  from v1_login_guard[OF this, of os "''PASS''" "''1234''"] show ?thesis by (simp add: new_v1_def)
qed

end
