(* ===== verification/V1_Paths.thy ===== *)
theory V1_Paths
  imports V1_Server
begin

text \<open>
  The paths a session of the first version uses: a well-formedness invariant of its state, kept by
  every command.
\<close>

section \<open>Paths below the root\<close>

definition in_root :: "string \<Rightarrow> bool" where
  "in_root p \<longleftrightarrow> prefix ROOT_DIR p"

text \<open>The type of the session's state: both paths it keeps begin with the root directory, and so does every path it has used.\<close>

definition v1_wf :: "v1 \<Rightarrow> bool" where
  "v1_wf w \<longleftrightarrow>
     (v1_dir w = ROOT_DIR \<or> prefix (ROOT_DIR @ [CHR 0x5C]) (v1_dir w)) \<and>
     (v1_renameFrom w = [] \<or> in_root (v1_renameFrom w)) \<and> paths_ok in_root (v1_trace w)"

lemma v1_wf_simps [simp]:
  "v1_wf (v1_reply r w) = v1_wf w" "v1_wf (v1_close s w) = v1_wf w" "v1_wf (drop_passive w) = v1_wf w"
  "v1_wf (w\<lparr>loggedIn := b\<rparr>) = v1_wf w" "v1_wf (w\<lparr>currentUser := u\<rparr>) = v1_wf w"
  "v1_wf (w\<lparr>v1_passive := s\<rparr>) = v1_wf w" "v1_wf (w\<lparr>v1_usePassive := b\<rparr>) = v1_wf w"
  "v1_wf (w\<lparr>v1_activeIp := u\<rparr>) = v1_wf w" "v1_wf (w\<lparr>v1_activePort := s\<rparr>) = v1_wf w"
  by (simp_all add: v1_wf_def v1_reply_def v1_close_def drop_passive_def)

lemma v1_wf_trace:
  "v1_wf w \<Longrightarrow> v1_wf (w\<lparr>v1_trace := h\<rparr>) \<longleftrightarrow> paths_ok in_root h"
  by (simp add: v1_wf_def)

lemma v1_wf_paths: "v1_wf w \<Longrightarrow> paths_ok in_root (v1_trace w)"
  by (simp add: v1_wf_def)

lemma below_dir_root:
  assumes "v1_wf w"
  shows "prefix (ROOT_DIR @ [CHR 0x5C]) (below_dir a w)" and "in_root (below_dir a w)"
  using assms by (auto simp: v1_wf_def below_dir_def in_root_def prefix_def)

lemma v1_dir_root: "v1_wf w \<Longrightarrow> in_root (find_pattern (v1_dir w))"
  by (auto simp: v1_wf_def find_pattern_def in_root_def prefix_def)

lemma v1_cdup_wf: "v1_wf w \<Longrightarrow> v1_wf (v1_cdup w)"
proof -
  assume w: "v1_wf w"
  have "v1_wf (w\<lparr>v1_dir := take pos (v1_dir w)\<rparr>)"
    if pos: "rfind_char CHR 0x5C (v1_dir w) = Some pos" and dir: "v1_dir w \<noteq> ROOT_DIR" for pos
  proof -
    from w dir obtain t where t: "v1_dir w = ROOT_DIR @ CHR 0x5C # t" by (auto simp: v1_wf_def prefix_def)
    show ?thesis
    proof (cases "rfind_char CHR 0x5C t")
      case None
      with pos t have "pos = length ROOT_DIR" by (simp add: rfind_char_append)
      with w t show ?thesis by (simp add: v1_wf_def)
    next
      case (Some i)
      with pos t have "pos = length ROOT_DIR + Suc i" by (simp add: rfind_char_append)
      with w t show ?thesis by (simp add: v1_wf_def)
    qed
  qed
  with w show ?thesis by (auto simp: v1_cdup_def Let_def split: option.split)
qed

lemma v1_plain_wf:
  assumes "v1_wf w"
  shows "v1_wf (v1_pasv os w)" "v1_wf (v1_dele os a w)" "v1_wf (v1_mkd os a w)" "v1_wf (v1_rmd os a w)"
    "v1_wf (outcome_state (v1_port a w))"
  using assms below_dir_root[OF assms]
  by (auto simp: v1_pasv_def v1_dele_def v1_mkd_def v1_rmd_def v1_port_def openPassiveSocket_def Let_def
      v1_wf_trace v1_wf_paths split: sum.split)

lemma v1_path_changes_wf:
  assumes "v1_wf w"
  shows "v1_wf (v1_cwd os a w)" "v1_wf (v1_rnfr os a w)" "v1_wf (v1_rnto os a w)"
  using assms below_dir_root[OF assms]
  by (auto simp: v1_cwd_def v1_rnfr_def v1_rnto_def v1_wf_def v1_reply_def Let_def split: option.split)

lemma getDataSocket_wf: "v1_wf w \<Longrightarrow> v1_wf (snd (getDataSocket os w))"
  by (auto simp: getDataSocket_def connectToClient_def Let_def v1_wf_trace v1_wf_paths split: accept_result.split)

lemma v1_with_data_wf:
  assumes "v1_wf w" and "\<And>w. v1_wf w \<Longrightarrow> v1_wf (giveup w)"
    and "\<And>s w. v1_wf w \<Longrightarrow> v1_wf (outcome_state (body s w))"
  shows "v1_wf (outcome_state (v1_with_data os giveup body w))"
  using getDataSocket_wf[OF assms(1), of os] assms(2,3)
  by (auto simp: v1_with_data_def split: prod.split option.split)

lemma v1_listing_wf:
  assumes "v1_wf w" and "\<And>path h. snd (f os path h) = h @ [Ev_readdir (find_pattern path)]"
  shows "v1_wf (outcome_state (v1_listing f opening report os w))"
  unfolding v1_listing_def
  by (rule v1_with_data_wf)
     (use assms in \<open>simp_all add: v1_finish_def split_beta v1_wf_trace v1_wf_paths v1_dir_root\<close>)

lemma v1_send_file_paths: "P path \<Longrightarrow> paths_ok P h \<Longrightarrow> paths_ok P (v1_send_file s path left h)"
  by (induction s path left h rule: v1_send_file.induct) (subst v1_send_file.simps, simp add: Let_def)

lemma v1_transfers_wf:
  assumes "v1_wf w"
  shows "v1_wf (outcome_state (v1_retr os a w))" and "v1_wf (outcome_state (v1_stor os a w))"
proof -
  let ?f = "below_dir a w"
  note f = below_dir_root(2)[OF assms, of a]
  have fw: "paths_ok in_root (map (Ev_fwrite ?f) bufs)" for bufs using f by (induction bufs) simp_all
  have opened: "v1_wf (w\<lparr>v1_trace := v1_trace w @ [Ev_fopen ?f m]\<rparr>)" for m
    using assms f by (simp add: v1_wf_trace v1_wf_paths)
  show "v1_wf (outcome_state (v1_retr os a w))"
    unfolding v1_retr_def Let_def using opened f
    by (auto intro!: v1_with_data_wf simp: v1_finish_def v1_wf_trace v1_wf_paths v1_send_file_paths)
  show "v1_wf (outcome_state (v1_stor os a w))"
    unfolding v1_stor_def Let_def using opened f fw
    by (auto intro!: v1_with_data_wf simp: v1_finish_def v1_wf_trace v1_wf_paths split: option.split)
qed

lemma v1_dispatch_wf: "v1_wf w \<Longrightarrow> v1_wf (outcome_state (v1_dispatch os verb a w))"
  by (simp add: v1_dispatch_def v1_plain_wf v1_path_changes_wf v1_cdup_wf v1_transfers_wf v1_list_def v1_nlst_def
      v1_listing_wf getDirectoryListing_def getNameListing_def)

lemma v1_command_wf: "v1_wf w \<Longrightarrow> v1_wf (outcome_state (v1_command os verb a w))"
  by (simp add: v1_command_def v1_dispatch_wf)

lemma v1_loop_wf: "v1_wf w \<Longrightarrow> v1_wf (outcome_state (v1_loop os inp w))"
proof (induction os inp w rule: v1_loop.induct)
  case (1 os inp w)
  obtain r inp' where r: "recvData 4096 inp = (r, inp')" by (cases "recvData 4096 inp")
  show ?case
  proof (cases r)
    case (R_data raw)
    show ?thesis
    proof (cases "c_buffer raw")
      case None
      with r R_data "1.prems" show ?thesis by (subst v1_loop.simps) simp
    next
      case (Some str)
      obtain verb a where va: "v1_split (v1_clean str) = (verb, a)" by (cases "v1_split (v1_clean str)")
      note wf = v1_command_wf[OF "1.prems", of os verb a]
      have "v1_wf (outcome_state (v1_loop os inp' w1))"
        if "verb \<noteq> ''QUIT''" "v1_command os verb a w = Done w1" for w1
        using "1.IH"[OF r[symmetric] R_data Some refl va[symmetric] that(1)] wf that(2) by simp
      with r R_data Some va wf "1.prems" show ?thesis
        by (subst v1_loop.simps) (cases "v1_command os verb a w", simp_all)
    qed
  qed (use "1.prems" r in \<open>simp_all add: v1_loop.simps\<close>)
qed

text \<open>C35. The session state of the first version is well-formed at every moment, however the session ends or if it never
  does: the working directory is the root directory or a text that begins with it and a separator, a
  pending \<open>RNFR\<close> names a path of that kind, and so does every path ever passed to the system. (What
  follows the root may be any number of parent directories: nothing resolves or refuses them.)\<close>

theorem v1_session_state_type:
  assumes "paths_ok in_root h"
  shows "v1_wf (outcome_state (v1_handleClient os sock h))"
proof -
  let ?w = "v1_reply ''220 Welcome to My FTP Server'' (new_v1 sock h)"
  have "v1_wf ?w" using assms unfolding v1_wf_simps by (simp add: v1_wf_def new_v1_def)
  from v1_loop_wf[OF this, of os "os_incoming os (v1_trace ?w) sock"] show ?thesis
    by (simp add: v1_handleClient_def Let_def split: outcome.split)
       (cases "v1_loop os (os_incoming os (v1_trace ?w) sock) ?w"; simp)
qed

text \<open>A parent directory is passed on.\<close>

theorem v1_session_state_type_witness:
  "v1_wf (outcome_state (v1_handleClient v1_demo_os 9 []))"
  by (rule v1_session_state_type) simp

lemma v1_parent_directory:
  "v1_trace (v1_dele os (''..'' @ [CHR 0x5C] @ ''secret'') (new_v1 s h)) =
     h @ [Ev_remove (ROOT_DIR @ [CHR 0x5C] @ ''..'' @ [CHR 0x5C] @ ''secret''),
          Ev_send s ((if os_remove os h (ROOT_DIR @ [CHR 0x5C] @ ''..'' @ [CHR 0x5C] @ ''secret'')
            then ''250 File deleted successfully'' else ''550 Could not delete file'') @ crlf)]"
  by (simp add: v1_dele_def v1_reply_def below_dir_def new_v1_def Let_def)

end
