(* ===== verification/V1_Client.thy ===== *)
theory V1_Client
  imports Client_Console V1_Server
begin

text \<open>
  \<open>src/client/main.cpp\<close>: the first version of the client, one file for Windows. The global
  \<open>controlSocket\<close> and what is still to be read from it are the state. A code that is not a number and
  a malformed address throw; nothing catches them.
\<close>

section \<open>Replies\<close>

record v1c =
  controlSocket :: int
  v1c_in :: net_in
  v1c_trace :: hist

definition v1c_sendCommand :: "string \<Rightarrow> v1c \<Rightarrow> v1c" where
  "v1c_sendCommand cmd c = c\<lparr>v1c_trace := v1c_trace c @ [Ev_send (controlSocket c) (cmd @ crlf)]\<rparr>"

text \<open>\<open>readReply\<close>: one line.\<close>

definition v1c_readReply :: "net_in \<Rightarrow> (string \<times> net_in) option" where
  "v1c_readReply inp = read_line inp []"

text \<open>\<open>s[i]\<close>: the terminating NUL at \<open>i = length s\<close>.\<close>

definition char_at :: "string \<Rightarrow> nat \<Rightarrow> char" where
  "char_at s i = (if i < length s then s ! i else CHR 0x00)"

partial_function (option) skip_lines :: "string \<Rightarrow> net_in \<Rightarrow> net_in option" where
  "skip_lines code inp =
     Option.bind (v1c_readReply inp)
       (\<lambda>(line, inp'). if substr 0 3 line = code \<and> char_at line 3 = CHR '' '' then Some inp'
          else skip_lines code inp')"

definition readFullReply :: "net_in \<Rightarrow> (string \<times> net_in) option" where
  "readFullReply inp =
     Option.bind (v1c_readReply inp)
       (\<lambda>(reply, inp'). if 4 \<le> length reply \<and> reply ! 3 = CHR ''-''
          then map_option (Pair reply) (skip_lines (substr 0 3 reply) inp')
          else Some (reply, inp'))"

definition v1c_getReplyCode :: "string \<Rightarrow> cxx_exn + int" where
  "v1c_getReplyCode reply = (if 3 \<le> length reply then stoi (substr 0 3 reply) else Inr 0)"

definition v1c_read :: "v1c \<Rightarrow> (string \<times> v1c) option" where
  "v1c_read c = map_option (\<lambda>(r, i). (r, c\<lparr>v1c_in := i\<rparr>)) (readFullReply (v1c_in c))"

definition v1c_exchange :: "string \<Rightarrow> v1c \<Rightarrow> (string \<times> v1c) option" where
  "v1c_exchange cmd c = v1c_read (v1c_sendCommand cmd c)"

section \<open>The passive data connection\<close>

text \<open>The position as an \<open>int\<close>: \<open>npos\<close> becomes -1.\<close>

definition int_find :: "char \<Rightarrow> string \<Rightarrow> int" where
  "int_find ch s = (case find_char ch s of Some i \<Rightarrow> int i | None \<Rightarrow> - 1)"

text \<open>\<open>reply.substr(start + 1, end - start - 1)\<close>: a negative length, as \<open>size_t\<close>, is more than there is.\<close>

definition addrStr :: "string \<Rightarrow> string" where
  "addrStr reply =
     (let start = int_find CHR ''('' reply; end_pos = int_find CHR '')'' reply;
          len = end_pos - start - 1
      in if len < 0 then drop (nat (start + 1)) reply else substr (nat (start + 1)) (nat len) reply)"

definition v1c_address :: "string \<Rightarrow> cxx_exn + string \<times> int" where
  "v1c_address text =
     (case parse_numbers text (replicate 6 0) 0 [] of
        Inl e \<Rightarrow> Inl e
      | Inr nums \<Rightarrow> host_port nums)"

definition v1c_connect :: "os \<Rightarrow> string \<Rightarrow> int \<Rightarrow> hist \<Rightarrow> int \<times> int \<times> hist" where
  "v1c_connect os ip port h =
     (let sock = os_socket os h;
          p = (word_of_int port :: 16 word);
          h1 = h @ [Ev_socket sock];
          r = os_connect os h1 sock ip p
      in (r, sock, h1 @ [Ev_connect sock ip p r]))"

definition v1c_openDataConnection :: "os \<Rightarrow> v1c \<Rightarrow> (cxx_exn + int \<times> v1c) option" where
  "v1c_openDataConnection os c =
     map_option (\<lambda>(reply, c1).
       case v1c_getReplyCode reply of
         Inl e \<Rightarrow> Inl e
       | Inr code \<Rightarrow>
           if code \<noteq> 227 then Inr (INVALID_SOCKET, c1)
           else (case v1c_address (addrStr reply) of
                   Inl e \<Rightarrow> Inl e
                 | Inr (ip, port) \<Rightarrow>
                     (let (r, sock, h) = v1c_connect os ip port (v1c_trace c1)
                      in if r = SOCKET_ERROR then Inr (INVALID_SOCKET, c1\<lparr>v1c_trace := h @ [Ev_close sock]\<rparr>)
                         else Inr (sock, c1\<lparr>v1c_trace := h\<rparr>))))
       (v1c_exchange ''PASV'' c)"

section \<open>Operations\<close>

definition v1c_event :: "event list \<Rightarrow> v1c \<Rightarrow> v1c" where
  "v1c_event es c = c\<lparr>v1c_trace := v1c_trace c @ es\<rparr>"

text \<open>\<open>doList\<close> gives the listing it prints; without a data connection nothing is printed.\<close>

definition doList :: "os \<Rightarrow> v1c \<Rightarrow> (cxx_exn + string option \<times> v1c) option" where
  "doList os c =
     bind_res (v1c_openDataConnection os c) (\<lambda>(ds, c1).
       if ds = INVALID_SOCKET then Some (Inr (None, c1))
       else Option.bind (v1c_exchange ''LIST'' c1) (\<lambda>(r150, c2).
         Option.bind (recv_all 4096 (os_incoming os (v1c_trace c2) ds)) (\<lambda>bufs.
           map_option (\<lambda>(r226, c3). Inr (Some (concat bufs), c3)) (v1c_read (v1c_event [Ev_close ds] c2)))))"

definition doDownload :: "os \<Rightarrow> string \<Rightarrow> v1c \<Rightarrow> (cxx_exn + v1c) option" where
  "doDownload os filename c =
     bind_res (v1c_openDataConnection os c) (\<lambda>(ds, c1).
       if ds = INVALID_SOCKET then Some (Inr c1)
       else Option.bind (v1c_exchange (''RETR '' @ filename) c1) (\<lambda>(reply, c2).
         case v1c_getReplyCode reply of
           Inl e \<Rightarrow> Some (Inl e)
         | Inr code \<Rightarrow>
             if code \<noteq> 150 then Some (Inr (v1c_event [Ev_close ds] c2))
             else let c3 = v1c_event [Ev_fopen filename ''wb''] c2
                  in if \<not> os_fopen os (v1c_trace c2) filename ''wb''
                     then Some (Inr (v1c_event [Ev_close ds] c3))
                     else Option.bind (recv_all 4096 (os_incoming os (v1c_trace c3) ds)) (\<lambda>bufs.
                       map_option (\<lambda>(r226, c4). Inr c4)
                         (v1c_read (v1c_event (map (Ev_fwrite filename) bufs @ [Ev_fclose filename, Ev_close ds]) c3)))))"

definition doUpload :: "os \<Rightarrow> string \<Rightarrow> v1c \<Rightarrow> (cxx_exn + v1c) option" where
  "doUpload os filename c =
     (let c0 = v1c_event [Ev_fopen filename ''rb''] c
      in if \<not> os_fopen os (v1c_trace c) filename ''rb'' then Some (Inr c0)
         else bind_res (v1c_openDataConnection os c0) (\<lambda>(ds, c1).
           if ds = INVALID_SOCKET then Some (Inr (v1c_event [Ev_fclose filename] c1))
           else Option.bind (v1c_exchange (''STOR '' @ filename) c1) (\<lambda>(reply, c2).
             case v1c_getReplyCode reply of
               Inl e \<Rightarrow> Some (Inl e)
             | Inr code \<Rightarrow>
                 if code \<noteq> 150 then Some (Inr (v1c_event [Ev_close ds, Ev_fclose filename] c2))
                 else let content = os_content os (v1c_trace c2) filename;
                          c3 = c2\<lparr>v1c_trace := v1_send_file ds filename content (v1c_trace c2)\<rparr>
                      in map_option (\<lambda>(r226, c4). Inr c4)
                           (v1c_read (v1c_event [Ev_fclose filename, Ev_close ds] c3)))))"

section \<open>The program\<close>

text \<open>The word read next is the argument of a command; the reply is read and not looked at.\<close>

definition v1c_simple :: "string \<Rightarrow> string \<Rightarrow> v1c \<Rightarrow> (cxx_exn + string \<times> v1c) option" where
  "v1c_simple cmd inp c =
     (let (word, inp') = cin_word inp [] in map_option (\<lambda>(r, c'). Inr (inp', c')) (v1c_exchange (cmd @ word) c))"

definition v1c_with_word :: "string \<Rightarrow> (string \<Rightarrow> (cxx_exn + v1c) option) \<Rightarrow> (cxx_exn + string \<times> v1c) option" where
  "v1c_with_word inp operation =
     (let (word, inp') = cin_word inp [] in bind_res (operation word) (\<lambda>c. Some (Inr (inp', c))))"

definition v1c_run :: "os \<Rightarrow> string \<Rightarrow> string \<Rightarrow> v1c \<Rightarrow> (cxx_exn + string \<times> v1c) option" where
  "v1c_run os input inp c =
     (if input = ''ls'' \<or> input = ''dir'' then bind_res (doList os c) (\<lambda>(listing, c'). Some (Inr (inp, c')))
      else if input = ''get'' then v1c_with_word inp (\<lambda>f. doDownload os f c)
      else if input = ''put'' then v1c_with_word inp (\<lambda>f. doUpload os f c)
      else if input = ''mkdir'' then v1c_simple ''MKD '' inp c
      else if input = ''rmdir'' then v1c_simple ''RMD '' inp c
      else if input = ''delete'' then v1c_simple ''DELE '' inp c
      else if input = ''rename'' then
        (let (old, inp1) = cin_word inp []; (new, inp2) = cin_word inp1 []
         in Option.bind (v1c_exchange (''RNFR '' @ old) c) (\<lambda>(r1, c1).
              map_option (\<lambda>(r2, c2). Inr (inp2, c2)) (v1c_exchange (''RNTO '' @ new) c1)))
      else if input = ''cd'' then v1c_simple ''CWD '' inp c
      else if input = ''pwd'' then map_option (\<lambda>(r, c'). Inr (inp, c')) (v1c_exchange ''PWD'' c)
      else Some (Inr (inp, c)))"

partial_function (option) v1c_loop :: "os \<Rightarrow> string \<Rightarrow> string \<Rightarrow> v1c \<Rightarrow> (cxx_exn + v1c) option" where
  "v1c_loop os previous inp c =
     (let (word, inp') = cin_word inp previous; input = map tolower word
      in if input = ''bye'' \<or> input = ''quit'' \<or> input = ''exit''
         then map_option (\<lambda>(r, c'). Inr c') (v1c_exchange ''QUIT'' c)
         else bind_res (v1c_run os input inp' c) (\<lambda>(inp'', c'). v1c_loop os input inp'' c'))"

text \<open>The exit code and what the program leaves behind; the two early exits differ in what they close.\<close>

definition v1c_main :: "os \<Rightarrow> string \<Rightarrow> hist \<Rightarrow> (cxx_exn + int \<times> v1c) option" where
  "v1c_main os inp h =
     (let (host, inp1) = cin_word inp [];
          (r, sock, h1) = v1c_connect os host 21 h;
          c0 = \<lparr>controlSocket = sock, v1c_in = os_incoming os h1 sock, v1c_trace = h1\<rparr>
      in if r = SOCKET_ERROR then Some (Inr (1, c0))
         else Option.bind (v1c_read c0) (\<lambda>(r220, c1).
           let (user, inp2) = cin_word inp1 []
           in Option.bind (v1c_exchange (''USER '' @ user) c1) (\<lambda>(r331, c2).
             let (password, inp3) = cin_word inp2 []
             in Option.bind (v1c_exchange (''PASS '' @ password) c2) (\<lambda>(loginReply, c3).
               case v1c_getReplyCode loginReply of
                 Inl e \<Rightarrow> Some (Inl e)
               | Inr code \<Rightarrow>
                   if code \<noteq> 230 then Some (Inr (1, v1c_event [Ev_close (controlSocket c3)] c3))
                   else bind_res (v1c_loop os [] inp3 c3)
                          (\<lambda>c4. Some (Inr (0, v1c_event [Ev_close (controlSocket c4)] c4)))))))"

section \<open>Properties\<close>

lemma last_line_test:
  "length code = 3 \<Longrightarrow>
     substr 0 3 line = code \<and> char_at line 3 = CHR '' '' \<longleftrightarrow> ends_reply code line"
  by (auto simp: substr_def char_at_def ends_reply_def)

lemma skip_lines_read_rest:
  assumes "length code = 3"
  shows "skip_lines code inp = read_rest code inp"
proof -
  have to_rest: "read_rest code inp = Some y" if "skip_lines code inp = Some y" for y
  proof -
    let ?Q = "\<lambda>code inp y. length code = 3 \<longrightarrow> read_rest code inp = Some y"
    have "?Q code inp y"
    proof (rule skip_lines.raw_induct[where P = ?Q, OF _ that], intro impI)
      fix f code inp y
      assume IH: "\<And>code inp y. f code inp = Some y \<Longrightarrow> ?Q code inp y"
        and y: "Option.bind (v1c_readReply inp) (\<lambda>(line, inp'). if substr 0 3 line = code \<and> char_at line 3 = CHR '' ''
            then Some inp' else f code inp') = Some y"
        and code: "length code = 3"
      from y obtain line inp' where r: "read_line inp [] = Some (line, inp')"
        by (cases "read_line inp []") (auto simp: v1c_readReply_def)
      with y IH code show "read_rest code inp = Some y"
        by (subst read_rest.simps)
           (cases "ends_reply code line", simp_all add: v1c_readReply_def last_line_test)
    qed
    with assms show ?thesis by simp
  qed
  have from_rest: "skip_lines code inp = Some y" if "read_rest code inp = Some y" for y
  proof -
    let ?Q = "\<lambda>code inp y. length code = 3 \<longrightarrow> skip_lines code inp = Some y"
    have "?Q code inp y"
    proof (rule read_rest.raw_induct[where P = ?Q, OF _ that], intro impI)
      fix f code inp y
      assume IH: "\<And>code inp y. f code inp = Some y \<Longrightarrow> ?Q code inp y"
        and y: "Option.bind (read_line inp []) (\<lambda>(line, inp'). if ends_reply code line
            then Some inp' else f code inp') = Some y"
        and code: "length code = 3"
      from y obtain line inp' where r: "read_line inp [] = Some (line, inp')"
        by (cases "read_line inp []") (auto simp: v1c_readReply_def)
      with y IH code show "skip_lines code inp = Some y"
        by (subst skip_lines.simps)
           (cases "ends_reply code line", simp_all add: v1c_readReply_def last_line_test)
    qed
    with assms show ?thesis by simp
  qed
  show ?thesis by (cases "skip_lines code inp"; cases "read_rest code inp") (auto dest: to_rest from_rest)
qed

text \<open>C24. The two versions of the client read replies in the same way, whatever arrives and however it is cut:
  the same reply, the same bytes left, and the same replies never read to their end. The codes agree
  wherever the first version gets one; where it throws, the second takes 0. The text taken for the address is the
  same when the reply has both parentheses; without one of them, where the second version gives up,
  the first goes on with whatever there is.\<close>

theorem clients_read_alike:
  "readFullReply inp = readReply inp \<and>
   getReplyCode reply = (case v1c_getReplyCode reply of Inl e \<Rightarrow> 0 | Inr code \<Rightarrow> code) \<and>
   addrStr reply =
     (case between_parens reply of
        Some text \<Rightarrow> text
      | None \<Rightarrow> (case (find_char CHR ''('' reply, find_char CHR '')'' reply) of
                   (Some s, _) \<Rightarrow> drop (Suc s) reply
                 | (None, Some e) \<Rightarrow> take e reply
                 | (None, None) \<Rightarrow> reply))"
proof (intro conjI)
  have "skip_lines (take 3 r) i = read_rest (take 3 r) i" if "4 \<le> length r" for r i
    using that by (simp add: skip_lines_read_rest)
  then show "readFullReply inp = readReply inp"
    by (auto simp: readFullReply_def readReply_def v1c_readReply_def starts_multi_def substr_def
        split: option.splits intro!: Option.bind_cong)
  show "getReplyCode reply = (case v1c_getReplyCode reply of Inl e \<Rightarrow> 0 | Inr code \<Rightarrow> code)"
    by (simp add: getReplyCode_def v1c_getReplyCode_def substr_def split: sum.split)
  have "nat (int i + 1) = Suc i" for i by simp
  then show "addrStr reply =
     (case between_parens reply of
        Some text \<Rightarrow> text
      | None \<Rightarrow> (case (find_char CHR ''('' reply, find_char CHR '')'' reply) of
                   (Some s, _) \<Rightarrow> drop (Suc s) reply
                 | (None, Some e) \<Rightarrow> take e reply
                 | (None, None) \<Rightarrow> reply))"
    by (auto simp: addrStr_def int_find_def between_parens_def Let_def substr_def nat_diff_distrib
        split: option.split)
qed

end
