(* ===== verification/Hash_Tool.thy ===== *)
theory Hash_Tool
  imports Auth
begin

text \<open>
  \<open>tools/hash_password.cpp\<close>: the program that prints a line for \<open>users.conf\<close>, and what becomes
  of the line when the server loads it.
\<close>

text \<open>
  The exit code and the line. The arguments are those after the program's name; \<open>now\<close> is what
  \<open>time\<close> returns.
\<close>

definition tool_salt :: "string list \<Rightarrow> int \<Rightarrow> string" where
  "tool_salt args now = (if 3 \<le> length args then args ! 2 else ''FTP'' @ int_str (now mod 65536))"

definition hash_password_main :: "string list \<Rightarrow> int \<Rightarrow> int \<times> string option" where
  "hash_password_main args now =
     (if length args < 2 then (1, None)
      else let username = args ! 0; password = args ! 1; salt = tool_salt args now;
               digest = sha256Salted salt password;
               entry = username @ ''=sha256:'' @ salt @ '':'' @ digest;
               ok = (sha256Salted salt password = digest)
           in (if ok then 0 else 1, Some entry))"

text \<open>C30. A line that the tool prints, pasted below a \<open>users.conf\<close> that is otherwise arbitrary, lets the user in
  with the password given to the tool and with no password of another salted digest - whatever the
  password consists of, provided the name and a salt given by hand have none of the separators.\<close>

theorem pasted_entry_logs_in:
  assumes "hash_password_main args now = (code, Some entry)"
    and "u = args ! 0" and "u \<noteq> []" and "hd u \<noteq> CHR ''#''" and "CHR ''='' \<notin> set u" and "newline \<notin> set u"
    and "tool_salt args now \<noteq> []" and "CHR '':'' \<notin> set (tool_salt args now)"
    and "newline \<notin> set (tool_salt args now)"
    and "\<forall>l\<in>set ls. newline \<notin> set l"
    and "am' = snd (loadUsers (Some (concat (map (\<lambda>l. l @ [newline]) (ls @ [entry])))) am)"
  shows "code = 0 \<and> authenticate u (args ! 1) am' \<and>
    (authenticate u q am' \<longleftrightarrow> sha256Salted (tool_salt args now) q = sha256Salted (tool_salt args now) (args ! 1))"
proof -
  let ?cr = "(u, tool_salt args now, args ! 1)"
  have entry: "code = 0" "entry = user_line ?cr"
    using assms(1,2,7) by (auto simp: hash_password_main_def Let_def user_line_def hashPassword_def split: if_splits)
  have valid: "valid_credential ?cr" using assms(3-9) by (simp add: valid_credential_def)
  have "getlines (concat (map (\<lambda>l. l @ [newline]) (ls @ [entry]))) = ls @ [entry]"
    using assms(10) newline_free_user_line[OF valid] entry(2) by (intro getlines_concat) auto
  then have "users am' u = Some (snd (hashed_record ?cr))"
    using assms(11) entry(2)
    by (cases "foldl load_line (Map.empty, 0) ls") (simp add: loadUsers_def load_line_credential[OF valid, unfolded One_nat_def])
  with entry(1) show ?thesis by (simp add: authenticate_def hashed_record_def)
qed

text \<open>The salt the tool makes up is always usable.\<close>

lemma generated_tool_salt:
  "length args < 3 \<Longrightarrow> tool_salt args now \<noteq> [] \<and> CHR '':'' \<notin> set (tool_salt args now) \<and>
     newline \<notin> set (tool_salt args now)"
  by (simp add: tool_salt_def int_str_no_char is_digit_def)

theorem pasted_entry_logs_in_witness:
  "\<exists>entry. hash_password_main [''ann'', ''p:w=1''] 1700000000 = (0, Some entry) \<and>
     authenticate ''ann'' ''p:w=1'' (snd (loadUsers (Some (concat (map (\<lambda>l. l @ [newline]) [''# users'', entry]))) new_auth))"
proof -
  let ?args = "[''ann'', ''p:w=1'']"
  obtain code entry where run: "hash_password_main ?args 1700000000 = (code, Some entry)"
    by (simp add: hash_password_main_def Let_def)
  have "code = 0 \<and> authenticate ''ann'' (?args ! 1)
      (snd (loadUsers (Some (concat (map (\<lambda>l. l @ [newline]) ([''# users''] @ [entry])))) new_auth)) \<and>
    (authenticate ''ann'' [] (snd (loadUsers (Some (concat (map (\<lambda>l. l @ [newline]) ([''# users''] @ [entry])))) new_auth)) \<longleftrightarrow>
      sha256Salted (tool_salt ?args 1700000000) [] = sha256Salted (tool_salt ?args 1700000000) (?args ! 1))"
    by (rule pasted_entry_logs_in[OF run, where ls = "[''# users'']"])
       (use generated_tool_salt[of ?args 1700000000] in simp_all)
  with run show ?thesis by simp
qed

end
