(* ===== verification/Sha256_Spec.thy ===== *)
theory Sha256_Spec
  imports Sha256
begin

unbundle bit_operations_syntax

text \<open>
  The reference definition of SHA-256, in the terms of FIPS 180-4, and the proof that
  \<open>src/common/sha256.h\<close> computes it. The reference has no loop over a buffer: the message
  schedule, the working variables and the hash values are recurrences in their index,
  rotations are those of the word library, the length is a number in base 256 and the
  constants are fractional parts of roots of primes.
\<close>

section \<open>The reference\<close>

definition sigma0 :: "u32 \<Rightarrow> u32" where
  "sigma0 x = word_rotr 7 x XOR word_rotr 18 x XOR drop_bit 3 x"

definition sigma1 :: "u32 \<Rightarrow> u32" where
  "sigma1 x = word_rotr 17 x XOR word_rotr 19 x XOR drop_bit 10 x"

definition Sigma0 :: "u32 \<Rightarrow> u32" where
  "Sigma0 x = word_rotr 2 x XOR word_rotr 13 x XOR word_rotr 22 x"

definition Sigma1 :: "u32 \<Rightarrow> u32" where
  "Sigma1 x = word_rotr 6 x XOR word_rotr 11 x XOR word_rotr 25 x"

text \<open>Word \<open>i\<close> of a block: four bytes, the most significant first.\<close>

definition fips_M :: "string \<Rightarrow> nat \<Rightarrow> u32" where
  "fips_M blk i = word_of_nat (foldl (\<lambda>n j. 256 * n + of_char (blk ! (4 * i + j))) 0 [0, 1, 2, 3])"

fun fips_W :: "string \<Rightarrow> nat \<Rightarrow> u32" where
  "fips_W blk t =
     (if t < 16 then fips_M blk t
      else sigma1 (fips_W blk (t - 2)) + fips_W blk (t - 7) + sigma0 (fips_W blk (t - 15)) + fips_W blk (t - 16))"

declare fips_W.simps [simp del]

definition fips_Ch :: "u32 \<Rightarrow> u32 \<Rightarrow> u32 \<Rightarrow> u32" where
  "fips_Ch x y z = (x AND y) XOR (NOT x AND z)"

definition fips_Maj :: "u32 \<Rightarrow> u32 \<Rightarrow> u32 \<Rightarrow> u32" where
  "fips_Maj x y z = (x AND y) XOR (x AND z) XOR (y AND z)"

fun fips_step :: "u32 \<Rightarrow> u32 \<Rightarrow> state8 \<Rightarrow> state8" where
  "fips_step k w (a, b, c, d, e, f, g, h) =
     (let T1 = h + Sigma1 e + fips_Ch e f g + k + w; T2 = Sigma0 a + fips_Maj a b c
      in (T1 + T2, a, b, c, d + T1, e, f, g))"

text \<open>The working variables after \<open>t\<close> rounds.\<close>

primrec fips_vars :: "state8 \<Rightarrow> string \<Rightarrow> nat \<Rightarrow> state8" where
  "fips_vars st blk 0 = st"
| "fips_vars st blk (Suc t) = fips_step (K256 ! t) (fips_W blk t) (fips_vars st blk t)"

text \<open>The padded message: the smallest \<open>k\<close> that makes \<open>length + 1 + k\<close> bytes equal 56 modulo 64.\<close>

definition fips_length :: "nat \<Rightarrow> string" where
  "fips_length bits = map (\<lambda>i. char_of (bits div 256 ^ (7 - i))) [0..<8]"

definition fips_pad :: "string \<Rightarrow> string" where
  "fips_pad s =
     (let k = hd (filter (\<lambda>k. (length s + 1 + k) mod 64 = 56) [0..<64])
      in s @ [CHR 0x80] @ replicate k (CHR 0x00) @ fips_length (8 * length s))"

primrec fips_H :: "string \<Rightarrow> nat \<Rightarrow> state8" where
  "fips_H m 0 = initial_hash"
| "fips_H m (Suc i) =
     add_state (fips_H m i) (fips_vars (fips_H m i) (take 64 (drop (64 * i) m)) 64)"

definition fips_word_hex :: "u32 \<Rightarrow> string" where
  "fips_word_hex w = map (\<lambda>i. ''0123456789abcdef'' ! (unat w div 16 ^ (7 - i) mod 16)) [0..<8]"

fun fips_digest :: "state8 \<Rightarrow> string" where
  "fips_digest (a, b, c, d, e, f, g, h) = concat (map fips_word_hex [a, b, c, d, e, f, g, h])"

definition fips_sha256 :: "string \<Rightarrow> string" where
  "fips_sha256 s = (let m = fips_pad s in fips_digest (fips_H m (length m div 64)))"

section \<open>Schedule and rounds\<close>

lemma or_byte: "push_bit 8 x OR byte c = 256 * x + byte c"
proof -
  have "push_bit 8 x AND byte c = 0"
  proof (rule bit_word_eqI)
    fix n assume "n < LENGTH(32)"
    have "\<not> bit (byte c) n" if "8 \<le> n"
    proof -
      have "(of_char c :: nat) < 256" by (rule nat_of_char_less_256)
      also have "256 \<le> (2 :: nat) ^ n" using power_increasing[OF that, of "2::nat"] by simp
      finally have "\<not> bit (of_char c :: nat) n" by (simp add: bit_iff_odd)
      then show ?thesis by (simp add: byte_def bit_simps)
    qed
    then show "bit (push_bit 8 x AND byte c) n = bit (0 :: u32) n" by (auto simp: bit_simps)
  qed
  then have "push_bit 8 x OR byte c = push_bit 8 x + byte c" by (rule disjunctive_add_eq_or[symmetric])
  then show ?thesis by (simp add: push_bit_eq_mult mult.commute)
qed

lemma be_word_fips: "be_word blk i = fips_M blk i"
proof -
  let ?b = "\<lambda>j. byte (blk ! (i * 4 + j))"
  have "be_word blk i = push_bit 8 (push_bit 8 (push_bit 8 (?b 0) OR ?b 1) OR ?b 2) OR ?b 3"
    by (simp add: be_word_def push_bit_or push_bit_push_bit or.assoc)
  also have "\<dots> = 256 * (256 * (256 * ?b 0 + ?b 1) + ?b 2) + ?b 3"
    by (simp only: or_byte)
  finally show ?thesis by (simp add: fips_M_def byte_def mult.commute)
qed

lemma schedule_step: "schedule_next w = sigma1 (w ! (length w - 2)) + w ! (length w - 7) +
    sigma0 (w ! (length w - 15)) + w ! (length w - 16)"
  by (simp add: schedule_next_def sigma0_def sigma1_def rotr32_rotates Let_def add_ac)

lemma extend_schedule_fips:
  "w = map (fips_W blk) [0..<length w] \<Longrightarrow> 16 \<le> length w \<Longrightarrow>
     extend_schedule n w = map (fips_W blk) [0..<length w + n]"
proof (induction n arbitrary: w)
  case (Suc n)
  let ?l = "length w"
  have nth: "w ! i = fips_W blk i" if "i < ?l" for i
    using that Suc.prems(1) by (metis add_0 nth_map_upt minus_nat.diff_0)
  have "schedule_next w = fips_W blk ?l"
    using Suc.prems(2) by (subst fips_W.simps) (simp add: schedule_step nth)
  then have "w @ [schedule_next w] = map (fips_W blk) [0..<length (w @ [schedule_next w])]"
    using Suc.prems(1) by simp
  from Suc.IH[OF this] Suc.prems(2) show ?case by simp
qed simp

lemma schedule_fips: "schedule blk = map (fips_W blk) [0..<64]"
proof -
  have "map (be_word blk) [0..<16] = map (fips_W blk) [0..<16]"
    by (simp add: be_word_fips fips_W.simps)
  then show ?thesis
    using extend_schedule_fips[of "map (be_word blk) [0..<16]" blk 48] by (simp add: schedule_def)
qed

lemma sha_round_fips: "sha_round st (k, w) = fips_step k w st"
  by (cases "(st, k, w)" rule: sha_round.cases) (simp add: Sigma0_def Sigma1_def fips_Ch_def fips_Maj_def ch_def maj_def rotr32_rotates Let_def)

lemma rounds_fips:
  assumes "n \<le> 64"
  shows "foldl sha_round st (take n (zip K256 (schedule blk))) = fips_vars st blk n"
  using assms
proof (induction n)
  case (Suc n)
  then have "take (Suc n) (zip K256 (schedule blk)) =
      take n (zip K256 (schedule blk)) @ [(K256 ! n, fips_W blk n)]"
    by (simp add: take_Suc_conv_app_nth schedule_fips)
  with Suc show ?case by (simp add: sha_round_fips)
qed simp

lemma compress_fips: "compress st blk = add_state st (fips_vars st blk 64)"
  using rounds_fips[of 64 st blk] by (simp add: compress_def)

section \<open>Padding, blocks and output\<close>

lemma process_blocks_fips:
  "length m = 64 * n \<Longrightarrow> process_blocks (fips_H m' i) m = fips_H m' (i + n)"
  if "m = drop (64 * i) m'"
  using that
proof (induction n arbitrary: m i)
  case (Suc n)
  then have m: "m \<noteq> []" by auto
  have "process_blocks (fips_H m' i) m = process_blocks (fips_H m' (Suc i)) (drop 64 m)"
    using m Suc.prems(2) by (subst process_blocks.simps) (simp add: compress_fips)
  also have "\<dots> = fips_H m' (Suc i + n)"
    using Suc.prems by (intro Suc.IH) (simp_all add: add.commute)
  finally show ?case by simp
qed simp

lemma zero_fill_fips: "hd (filter (\<lambda>k. (n + 1 + k) mod 64 = 56) [0..<64]) = zero_fill (n + 1)"
proof -
  let ?z = "zero_fill (n + 1)"
  have z: "?z < 64" by (simp add: zero_fill_def)
  have iff: "(n + 1 + k) mod 64 = 56 \<longleftrightarrow> k = ?z" if k: "k < 64" for k
  proof -
    define r where "r = (n + 1) mod 64"
    have r: "r < 64" by (simp add: r_def)
    have "(n + 1 + k) mod 64 = (r + k) mod 64" by (simp only: r_def mod_add_left_eq)
    also have "\<dots> = (if r + k < 64 then r + k else r + k - 64)" using r k by (simp add: mod_if)
    finally show ?thesis using r k unfolding zero_fill_eq r_def[symmetric] by (auto split: if_splits)
  qed
  have "filter (\<lambda>k. (n + 1 + k) mod 64 = 56) [0..<64] = filter (\<lambda>k. k = ?z) [0..<64]"
    by (rule filter_cong) (simp_all only: set_upt atLeastLessThan_iff iff)
  moreover have "[0..<64] = [0..<?z] @ ?z # [Suc ?z..<64]"
    using z upt_add_eq_append[of 0 ?z "64 - ?z"] by (simp add: upt_conv_Cons)
  then have "filter (\<lambda>k. k = ?z) [0..<64] = [?z]" by (simp add: filter_False)
  ultimately show ?thesis by simp
qed

lemma big_endian: "map f (rev [0..<8]) = map (\<lambda>i. f (7 - i)) [0..<8]"
  by (simp add: upt_conv_Cons eval_nat_numeral)

lemma hex_digit_table: "d < 16 \<Longrightarrow> hex_digit d = ''0123456789abcdef'' ! d"
proof -
  have "list_all (\<lambda>d. hex_digit d = ''0123456789abcdef'' ! d) [0..<16]"
    by (simp add: upt_conv_Cons hex_digit_def char_of_def bit_iff_odd)
  then show "d < 16 \<Longrightarrow> hex_digit d = ''0123456789abcdef'' ! d" by (simp add: list_all_iff)
qed

text \<open>Digit \<open>i\<close> of a word in base \<open>2 ^ k\<close>.\<close>

lemma unat_digit: "unat (take_bit k (drop_bit (i * k) x)) = unat x div (2 ^ k) ^ i mod 2 ^ k"
  for x :: "'a::len word"
  unfolding unsigned_take_bit_eq unat_drop_bit_eq
  by (simp only: take_bit_eq_mod drop_bit_eq_div power_mult[symmetric] mult.commute[of k i])

lemma hex8_fips: "hex8 x = fips_word_hex x"
proof -
  have "unat (drop_bit (i * 4) x AND 15) = unat x div 16 ^ i mod 16" for i
  proof -
    have "drop_bit (i * 4) x AND 15 = take_bit 4 (drop_bit (i * 4) x)"
      by (simp add: take_bit_eq_mask mask_eq_exp_minus_1)
    then show ?thesis using unat_digit[of 4 i x] by simp
  qed
  then show ?thesis by (simp add: hex8_def fips_word_hex_def big_endian hex_digit_table)
qed

lemma hex_state_fips: "hex_state st = fips_digest st"
  by (cases st rule: hex_state.cases) (simp add: hex8_fips)

lemma length_bytes_fips:
  assumes "n < 2 ^ 61"
  shows "length_bytes n = fips_length (8 * n)"
proof -
  have b: "unat (word_of_nat n * 8 :: 64 word) = 8 * n"
    using assms by (simp add: unat_word_ariths unat_of_nat take_bit_eq_mod)
  have "char_of (unat (drop_bit (i * 8) (word_of_nat n * 8 :: 64 word) AND 255)) = char_of (8 * n div 256 ^ i)" for i
  proof -
    have "drop_bit (i * 8) (word_of_nat n * 8 :: 64 word) AND 255 =
        take_bit 8 (drop_bit (i * 8) (word_of_nat n * 8))"
      by (simp add: take_bit_eq_mask mask_eq_exp_minus_1)
    then have "unat (drop_bit (i * 8) (word_of_nat n * 8 :: 64 word) AND 255) = 8 * n div 256 ^ i mod 256"
      using b unat_digit[of 8 i "word_of_nat n * 8 :: 64 word"] by simp
    then show ?thesis by simp
  qed
  then show ?thesis by (simp add: length_bytes_def fips_length_def Let_def big_endian)
qed

lemma pad_message_fips:
  assumes "length s < 2 ^ 61"
  shows "pad_message s = fips_pad s"
  using zero_fill_fips[of "length s"] length_bytes_fips[OF assms]
  by (simp add: pad_message_def fips_pad_def Let_def)

section \<open>Equivalence\<close>

text \<open>The first 32 bits of the fractional part of the root of degree \<open>n\<close> of \<open>p\<close>: with the integer part
  \<open>a\<close> in front they are the root of \<open>p * 2 ^ (32 * n)\<close>, rounded down.\<close>

definition root_fraction :: "nat \<Rightarrow> nat \<Rightarrow> u32 \<Rightarrow> bool" where
  "root_fraction n p k \<longleftrightarrow>
     list_ex (\<lambda>a. let r = a * 2 ^ 32 + unat k in r ^ n \<le> p * 2 ^ (32 * n) \<and> p * 2 ^ (32 * n) < (r + 1) ^ n)
       [1, 2, 3, 4, 5, 6]"

definition primes_311 :: "nat list" where
  "primes_311 =
    [2, 3, 5, 7, 11, 13, 17, 19, 23, 29, 31, 37, 41, 43, 47, 53,
     59, 61, 67, 71, 73, 79, 83, 89, 97, 101, 103, 107, 109, 113, 127, 131,
     137, 139, 149, 151, 157, 163, 167, 173, 179, 181, 191, 193, 197, 199, 211, 223,
     227, 229, 233, 239, 241, 251, 257, 263, 269, 271, 277, 281, 283, 293, 307, 311]"

fun state_words :: "state8 \<Rightarrow> u32 list" where
  "state_words (a, b, c, d, e, f, g, h) = [a, b, c, d, e, f, g, h]"

text \<open>The constants are the ones of the standard: the table holds the fractional parts of the cube roots of
  the first 64 primes, the initial hash those of the square roots of the first eight.\<close>

theorem sha256_constants:
  "list_all2 (root_fraction 3) primes_311 K256 \<and>
   list_all2 (root_fraction 2) (take 8 primes_311) (state_words initial_hash)"
  by (simp add: primes_311_def K256_def initial_hash_def root_fraction_def Let_def)

text \<open>C11. On every message the standard admits - less than \<open>2 ^ 61\<close> bytes - the code computes SHA-256: the loops
  over the byte buffer give the digest of the recurrences of the standard.\<close>

theorem sha256_is_fips:
  assumes "length s < 2 ^ 61"
  shows "sha256 s = fips_sha256 s"
proof -
  let ?m = "fips_pad s"
  have "length ?m mod 64 = 0" using pad_message_blocks[of s] by (simp add: pad_message_fips[OF assms])
  then have "length ?m = 64 * (length ?m div 64)" by presburger
  then have "process_blocks (fips_H ?m 0) ?m = fips_H ?m (length ?m div 64)"
    using process_blocks_fips[of ?m 0 ?m "length ?m div 64"] by simp
  then show ?thesis
    by (simp add: sha256_def fips_sha256_def pad_message_fips[OF assms] hex_state_fips Let_def)
qed

end
