(* ===== verification/Sha256_Vectors.thy ===== *)
theory Sha256_Vectors
  imports Sha256_Spec
begin

text \<open>
  The two digests that \<open>src/tests/test_security.cpp\<close> asks for, evaluated in the kernel.
\<close>

lemma vector_empty: "sha256 [] = ''e3b0c44298fc1c149afbf4c8996fb92427ae41e4649b934ca495991b7852b855''"
  by code_simp

lemma vector_hello: "sha256 ''hello'' = ''2cf24dba5fb0a30e26e83b2ac5b9e29e1b161e5c1fa7425e73043362938b9824''"
  by code_simp

text \<open>The model gives the digests that the repository's own test of SHA-256 expects, of the empty message and
  of \<open>hello\<close>.\<close>

theorem sha256_test_vectors:
  "sha256 [] = ''e3b0c44298fc1c149afbf4c8996fb92427ae41e4649b934ca495991b7852b855'' \<and>
   sha256 ''hello'' = ''2cf24dba5fb0a30e26e83b2ac5b9e29e1b161e5c1fa7425e73043362938b9824''"
  by (simp add: vector_empty vector_hello)

text \<open>The reference definition gives the second one too.\<close>

theorem sha256_is_fips_witness:
  "fips_sha256 ''hello'' = ''2cf24dba5fb0a30e26e83b2ac5b9e29e1b161e5c1fa7425e73043362938b9824''"
  using sha256_is_fips[of "''hello''"] vector_hello by simp

end
