(* ===== verification/Auth_Overlap.thy ===== *)
theory Auth_Overlap
  imports Auth
begin

text \<open>
  Sessions that overlap at the login limiter. \<open>handlePass\<close> asks the limiter, checks the password and
  then records the failure; each of the calls takes the limiter's mutex for itself, so between the
  question and the record of one session those of other workers can come.
\<close>

section \<open>The budget under single calls\<close>

context attempt_limiter
begin

lemma budget_check:
  assumes "t < T + window"
  shows "budget T (snd (check t ip a)) ip = budget T a ip"
  using assms check_blocked[of t ip a ip] check_refuses[of t ip a] limit_pos
  by (auto simp: budget_def check_attempts)

lemma budget_passes: "t < T + window \<Longrightarrow> \<not> fst (check t ip a) \<Longrightarrow> budget T a ip \<noteq> 0"
  using limit_pos by (auto simp: budget_def check_refuses)

lemma budget_fail: "T \<le> t \<Longrightarrow> budget T (fail t ip a) ip \<le> max 0 (budget T a ip - 1)"
  using limit_pos by (auto simp: budget_def fail_attempts fail_blocked)

lemma attempts_nonneg:
  assumes "0 \<le> attempts a ip"
  shows "0 \<le> attempts (snd (check t ip' a)) ip" and "0 \<le> attempts (fail t ip' a) ip"
  using assms by (simp_all add: check_attempts fail_attempts)

end

section \<open>Interleaved attempts\<close>

text \<open>
  \<open>Ask\<close> is the question of a session that holds a wrong password, \<open>Record\<close> the record of the failure.
  The number of passwords of \<open>ip\<close> that are checked, with \<open>p\<close> sessions of that address between the two and at
  most \<open>n\<close> workers; \<open>None\<close> for sequences that no \<open>n\<close> workers can produce.
\<close>

datatype guess_event = Ask (guess_time: int) string | Record (guess_time: int) string

fun overlapped_guesses ::
    "nat \<Rightarrow> string \<Rightarrow> guess_event list \<Rightarrow> AuthManager \<Rightarrow> nat \<Rightarrow> nat option" where
  "overlapped_guesses n ip [] am p = Some 0"
| "overlapped_guesses n ip (Ask now who # es) am p =
     (let (refused, am') = isRateLimited now who am
      in if refused \<or> who \<noteq> ip then overlapped_guesses n ip es am' p
         else if p < n then map_option Suc (overlapped_guesses n ip es am' (Suc p))
         else None)"
| "overlapped_guesses n ip (Record now who # es) am p =
     (let am' = recordFailedAttempt now who am
      in if who \<noteq> ip then overlapped_guesses n ip es am' p
         else if 0 < p then overlapped_guesses n ip es am' (p - 1)
         else None)"

text \<open>What is left for \<open>ip\<close>: its budget but one, and the idle workers, until the budget is used up.\<close>

definition allowance :: "nat \<Rightarrow> int \<Rightarrow> AuthManager \<Rightarrow> string \<Rightarrow> nat \<Rightarrow> int" where
  "allowance n T am ip p = (if lim.budget T am ip = 0 then 0 else lim.budget T am ip - 1 + int (n - p))"

lemma allowance_nonneg: "0 \<le> attemptsOf am ip \<Longrightarrow> 0 \<le> allowance n T am ip p"
  using lim.budget_bounds[of am ip T] by (auto simp: allowance_def)

lemma allowance_cong:
  "lim.budget T am' ip = lim.budget T am ip \<Longrightarrow> allowance n T am' ip p = allowance n T am ip p"
  by (simp add: allowance_def)

lemma allowance_Record:
  assumes "lim.budget T am' ip \<le> max 0 (lim.budget T am ip - 1)" and "0 \<le> lim.budget T am' ip"
    and "0 \<le> attemptsOf am ip" and "0 < p" and "p \<le> n"
  shows "allowance n T am' ip (p - 1) \<le> allowance n T am ip p"
proof (cases "lim.budget T am' ip = 0")
  case True
  then show ?thesis using allowance_nonneg[OF assms(3)] by (simp add: allowance_def)
next
  case False
  with assms(1,2) have "lim.budget T am ip \<noteq> 0" "lim.budget T am' ip \<le> lim.budget T am ip - 1"
    by linarith+
  moreover have "int (n - (p - 1)) = int (n - p) + 1" using assms(4,5) by linarith
  ultimately show ?thesis using False by (simp only: allowance_def if_False)
qed

lemma overlapped_guesses_allowance:
  assumes "\<forall>e\<in>set es. T \<le> guess_time e \<and> guess_time e < T + kBlockSecs"
    and "0 \<le> attemptsOf am ip" and "p \<le> n" and "overlapped_guesses n ip es am p = Some g"
  shows "int g \<le> allowance n T am ip p"
  using assms
proof (induction es arbitrary: am p g)
  case Nil
  then show ?case using allowance_nonneg by simp
next
  case (Cons e es)
  show ?case
  proof (cases e)
    case (Ask now who)
    obtain refused am' where am': "isRateLimited now who am = (refused, am')"
      by (cases "isRateLimited now who am")
    have t: "now < T + kBlockSecs" using Cons.prems(1) Ask by simp
    have a: "0 \<le> attemptsOf am' ip" using lim.attempts_nonneg(1)[OF Cons.prems(2), of now who] am' by simp
    have b: "lim.budget T am' ip = lim.budget T am ip"
      using lim.budget_check[OF t, of who am] lim.budget_other(1)[of ip who T now am] am'
      by (cases "who = ip") auto
    note IH = Cons.IH[OF _ a] and same = allowance_cong[OF b]
    show ?thesis
    proof (cases "refused \<or> who \<noteq> ip")
      case True
      then show ?thesis using IH[of p g] Cons.prems Ask am' same by simp
    next
      case False
      with Cons.prems Ask am' obtain g' where
        g': "overlapped_guesses n ip es am' (Suc p) = Some g'" "g = Suc g'" "p < n"
        by (auto split: if_splits)
      have "lim.budget T am ip \<noteq> 0"
        using lim.budget_passes[OF t, of ip am] False am' by simp
      then have "allowance n T am ip (Suc p) = allowance n T am ip p - 1"
        using g'(3) by (simp add: allowance_def)
      then show ?thesis using IH[of "Suc p" g'] Cons.prems(1) g' same by simp
    qed
  next
    case (Record now who)
    let ?am = "recordFailedAttempt now who am"
    have t: "T \<le> now" using Cons.prems(1) Record by simp
    note IH = Cons.IH[OF _ lim.attempts_nonneg(2)[OF Cons.prems(2), of now who]]
    show ?thesis
    proof (cases "who = ip")
      case False
      have "lim.budget T ?am ip = lim.budget T am ip" using lim.budget_other(2)[of ip who T now am] False by simp
      note same = allowance_cong[OF this]
      show ?thesis using IH[of p g] Cons.prems Record False same by simp
    next
      case True
      with Cons.prems Record have p: "0 < p" and g: "overlapped_guesses n ip es ?am (p - 1) = Some g"
        by (auto simp: Let_def split: if_splits)
      have "lim.budget T ?am ip \<le> max 0 (lim.budget T am ip - 1)"
        using lim.budget_fail[OF t, of ip am] True by simp
      then have "allowance n T ?am ip (p - 1) \<le> allowance n T am ip p"
        using lim.budget_bounds[OF lim.attempts_nonneg(2)[OF Cons.prems(2), of now who], of T]
        by (intro allowance_Record) (use Cons.prems(2,3) p in simp_all)
      moreover have "int g \<le> allowance n T ?am ip (p - 1)"
        using Cons.prems(1,3) g by (intro IH) auto
      ultimately show ?thesis by (rule order_trans[rotated])
    qed
  qed
qed



end
