(* ===== verification/Thread_Pool.thy ===== *)
theory Thread_Pool
  imports Prelude "HOL-Library.Multiset"
begin

text \<open>
  \<open>src/server/thread_pool.cpp\<close> on the POSIX wrappers of \<open>src/common/win32_threads.h\<close>: the
  workers, any number of threads that call \<open>submit\<close>, and the thread that calls \<open>shutdown\<close>, as
  one step relation. A step is what one thread does between two points where another one can
  interfere: locking and unlocking the mutex, the tests of the shutdown flag (which is set
  without the mutex), going to sleep on the condition variable, being woken, and the counter
  of active tasks. Tasks are numbers. Condition variables wake up spuriously, and
  \<open>notify_one\<close> wakes any one of the waiting workers.
\<close>

section \<open>State\<close>

text \<open>Where a worker is in \<open>workerLoop\<close>.\<close>

datatype worker =
    W_lock            \<comment> \<open>before \<open>mutex_.lock()\<close>\<close>
  | W_test            \<comment> \<open>owns the mutex, before the loop condition\<close>
  | W_sleep           \<comment> \<open>owns the mutex, inside \<open>cv_.wait\<close>, not yet waiting\<close>
  | W_waiting         \<comment> \<open>waits, the mutex released\<close>
  | W_woken           \<comment> \<open>woken, before it has the mutex again\<close>
  | W_taken nat       \<comment> \<open>has popped a task and released the mutex\<close>
  | W_running nat     \<comment> \<open>has counted itself active and runs the task\<close>
  | W_finished        \<comment> \<open>the task returned or threw, before \<open>activeTasks_.dec()\<close>\<close>
  | W_exited

text \<open>Where a thread is in \<open>submit\<close>.\<close>

datatype submitter =
    Sub_idle
  | Sub_call nat      \<comment> \<open>before \<open>mutex_.lock()\<close>\<close>
  | Sub_locked nat    \<comment> \<open>owns the mutex, before the test of the flag\<close>
  | Sub_ok nat        \<comment> \<open>the flag was not set\<close>
  | Sub_notified      \<comment> \<open>pushed and notified, before \<open>mutex_.unlock()\<close>\<close>

text \<open>Where the thread is in \<open>shutdown\<close>.\<close>

datatype closer = C_idle | C_flagged | C_locked | C_notified | C_joining | C_done

datatype owner = Worker nat | Submitter nat | Closer

record pool =
  workers :: "worker list"
  tasks :: "nat list"
  mutex :: "owner option"
  shutdownFlag :: bool
  activeTasks :: "64 word"
  submitters :: "nat \<Rightarrow> submitter"
  closer_at :: closer
  accepted :: "nat list"   \<comment> \<open>history: tasks pushed, in order\<close>
  started :: "nat list"    \<comment> \<open>history: tasks popped, in order\<close>
  finished :: "nat list"   \<comment> \<open>history: tasks that returned or threw\<close>
  rejected :: "nat list"   \<comment> \<open>history: tasks refused\<close>

definition new_pool :: "nat \<Rightarrow> pool" where
  "new_pool numWorkers =
     \<lparr>workers = replicate numWorkers W_lock, tasks = [], mutex = None, shutdownFlag = False,
      activeTasks = 0, submitters = (\<lambda>_. Sub_idle), closer_at = C_idle,
      accepted = [], started = [], finished = [], rejected = []\<rparr>"

definition pendingCount :: "pool \<Rightarrow> nat" where
  "pendingCount p = length (tasks p)"

definition workerCount :: "pool \<Rightarrow> nat" where
  "workerCount p = length (workers p)"

definition isRunning :: "pool \<Rightarrow> bool" where
  "isRunning p \<longleftrightarrow> \<not> shutdownFlag p"

definition activeCount :: "pool \<Rightarrow> 64 word" where
  "activeCount p = activeTasks p"

section \<open>Steps\<close>

text \<open>
  Who acts: a worker, a worker woken for no reason, a thread that calls \<open>submit\<close> with a
  task, a thread inside \<open>submit\<close> (with the worker its notification wakes), the closer.
\<close>

datatype action = Work nat | Spurious nat | Call nat nat | Submit nat "nat option" | Close

definition set_worker :: "nat \<Rightarrow> worker \<Rightarrow> pool \<Rightarrow> pool" where
  "set_worker i s p = p\<lparr>workers := (workers p)[i := s]\<rparr>"

definition set_submitter :: "nat \<Rightarrow> submitter \<Rightarrow> pool \<Rightarrow> pool" where
  "set_submitter j s p = p\<lparr>submitters := (submitters p)(j := s)\<rparr>"

definition pc :: "pool \<Rightarrow> nat \<Rightarrow> worker option" where
  "pc p i = (if i < length (workers p) then Some (workers p ! i) else None)"

abbreviation worker_at :: "pool \<Rightarrow> nat \<Rightarrow> worker \<Rightarrow> bool" where
  "worker_at p i s \<equiv> pc p i = Some s"

definition wake :: "worker \<Rightarrow> worker" where
  "wake s = (if s = W_waiting then W_woken else s)"

definition notify_all :: "pool \<Rightarrow> pool" where
  "notify_all p = p\<lparr>workers := map wake (workers p)\<rparr>"

text \<open>\<open>notify_one\<close> wakes the chosen waiting worker, or nobody when nobody waits.\<close>

definition notify_one :: "nat option \<Rightarrow> pool \<Rightarrow> pool option" where
  "notify_one choice p =
     (case choice of
        None \<Rightarrow> if W_waiting \<in> set (workers p) then None else Some p
      | Some i \<Rightarrow> if worker_at p i W_waiting then Some (set_worker i W_woken p) else None)"

text \<open>The two tests of \<open>workerLoop\<close> while the mutex is held, and what follows them.\<close>

inductive pool_step :: "pool \<Rightarrow> action \<Rightarrow> pool \<Rightarrow> bool" where
  lock: "worker_at p i W_lock \<or> worker_at p i W_woken \<Longrightarrow> mutex p = None \<Longrightarrow>
    pool_step p (Work i) (set_worker i W_test (p\<lparr>mutex := Some (Worker i)\<rparr>))"
| wait: "worker_at p i W_test \<Longrightarrow> \<not> shutdownFlag p \<Longrightarrow> tasks p = [] \<Longrightarrow>
    pool_step p (Work i) (set_worker i W_sleep p)"
| sleep: "worker_at p i W_sleep \<Longrightarrow>
    pool_step p (Work i) (set_worker i W_waiting (p\<lparr>mutex := None\<rparr>))"
| leave: "worker_at p i W_test \<Longrightarrow> shutdownFlag p \<Longrightarrow> tasks p = [] \<Longrightarrow>
    pool_step p (Work i) (set_worker i W_exited (p\<lparr>mutex := None\<rparr>))"
| pop: "worker_at p i W_test \<Longrightarrow> tasks p = t # ts \<Longrightarrow>
    pool_step p (Work i) (set_worker i (W_taken t) (p\<lparr>tasks := ts, mutex := None, started := started p @ [t]\<rparr>))"
| begin_task: "worker_at p i (W_taken t) \<Longrightarrow>
    pool_step p (Work i) (set_worker i (W_running t) (p\<lparr>activeTasks := activeTasks p + 1\<rparr>))"
| end_task: "worker_at p i (W_running t) \<Longrightarrow>
    pool_step p (Work i) (set_worker i W_finished (p\<lparr>finished := finished p @ [t]\<rparr>))"
| count_down: "worker_at p i W_finished \<Longrightarrow>
    pool_step p (Work i) (set_worker i W_lock
      (p\<lparr>activeTasks := (if activeTasks p \<noteq> 0 then activeTasks p - 1 else 0)\<rparr>))"
| spurious: "worker_at p i W_waiting \<Longrightarrow> pool_step p (Spurious i) (set_worker i W_woken p)"
| call: "submitters p j = Sub_idle \<Longrightarrow> pool_step p (Call j t) (set_submitter j (Sub_call t) p)"
| sub_lock: "submitters p j = Sub_call t \<Longrightarrow> mutex p = None \<Longrightarrow>
    pool_step p (Submit j None) (set_submitter j (Sub_locked t) (p\<lparr>mutex := Some (Submitter j)\<rparr>))"
| reject: "submitters p j = Sub_locked t \<Longrightarrow> shutdownFlag p \<Longrightarrow>
    pool_step p (Submit j None) (set_submitter j Sub_idle (p\<lparr>mutex := None, rejected := rejected p @ [t]\<rparr>))"
| pass: "submitters p j = Sub_locked t \<Longrightarrow> \<not> shutdownFlag p \<Longrightarrow>
    pool_step p (Submit j None) (set_submitter j (Sub_ok t) p)"
| push: "submitters p j = Sub_ok t \<Longrightarrow>
    notify_one c (p\<lparr>tasks := tasks p @ [t], accepted := accepted p @ [t]\<rparr>) = Some q \<Longrightarrow>
    pool_step p (Submit j c) (set_submitter j Sub_notified q)"
| sub_unlock: "submitters p j = Sub_notified \<Longrightarrow>
    pool_step p (Submit j None) (set_submitter j Sub_idle (p\<lparr>mutex := None\<rparr>))"
| flag: "closer_at p = C_idle \<Longrightarrow> \<not> shutdownFlag p \<Longrightarrow>
    pool_step p Close (p\<lparr>shutdownFlag := True, closer_at := C_flagged\<rparr>)"
| close_lock: "closer_at p = C_flagged \<Longrightarrow> mutex p = None \<Longrightarrow>
    pool_step p Close (p\<lparr>mutex := Some Closer, closer_at := C_locked\<rparr>)"
| notify: "closer_at p = C_locked \<Longrightarrow> pool_step p Close (notify_all (p\<lparr>closer_at := C_notified\<rparr>))"
| close_unlock: "closer_at p = C_notified \<Longrightarrow>
    pool_step p Close (p\<lparr>mutex := None, closer_at := C_joining\<rparr>)"
| join: "closer_at p = C_joining \<Longrightarrow> \<forall>s\<in>set (workers p). s = W_exited \<Longrightarrow>
    pool_step p Close (p\<lparr>closer_at := C_done\<rparr>)"

inductive pool_reachable :: "nat \<Rightarrow> pool \<Rightarrow> bool" for n where
  start: "pool_reachable n (new_pool n)"
| step: "pool_reachable n p \<Longrightarrow> pool_step p a p' \<Longrightarrow> pool_reachable n p'"

section \<open>An executable scheduler\<close>

text \<open>The step an action leads to, computed: the relation is deterministic once the actor is chosen.\<close>

fun work :: "nat \<Rightarrow> worker \<Rightarrow> pool \<Rightarrow> pool option" where
  "work i W_lock p = (if mutex p = None then Some (set_worker i W_test (p\<lparr>mutex := Some (Worker i)\<rparr>)) else None)"
| "work i W_woken p = (if mutex p = None then Some (set_worker i W_test (p\<lparr>mutex := Some (Worker i)\<rparr>)) else None)"
| "work i W_test p =
     (case tasks p of
        [] \<Rightarrow> if shutdownFlag p then Some (set_worker i W_exited (p\<lparr>mutex := None\<rparr>))
              else Some (set_worker i W_sleep p)
      | t # ts \<Rightarrow> Some (set_worker i (W_taken t) (p\<lparr>tasks := ts, mutex := None, started := started p @ [t]\<rparr>)))"
| "work i W_sleep p = Some (set_worker i W_waiting (p\<lparr>mutex := None\<rparr>))"
| "work i (W_taken t) p = Some (set_worker i (W_running t) (p\<lparr>activeTasks := activeTasks p + 1\<rparr>))"
| "work i (W_running t) p = Some (set_worker i W_finished (p\<lparr>finished := finished p @ [t]\<rparr>))"
| "work i W_finished p = Some (set_worker i W_lock
     (p\<lparr>activeTasks := (if activeTasks p \<noteq> 0 then activeTasks p - 1 else 0)\<rparr>))"
| "work i W_waiting p = None"
| "work i W_exited p = None"

fun submit_step :: "nat \<Rightarrow> nat option \<Rightarrow> submitter \<Rightarrow> pool \<Rightarrow> pool option" where
  "submit_step j c Sub_idle p = None"
| "submit_step j c (Sub_call t) p =
     (if mutex p = None \<and> c = None then Some (set_submitter j (Sub_locked t) (p\<lparr>mutex := Some (Submitter j)\<rparr>)) else None)"
| "submit_step j c (Sub_locked t) p =
     (if c \<noteq> None then None
      else if shutdownFlag p then Some (set_submitter j Sub_idle (p\<lparr>mutex := None, rejected := rejected p @ [t]\<rparr>))
      else Some (set_submitter j (Sub_ok t) p))"
| "submit_step j c (Sub_ok t) p =
     map_option (set_submitter j Sub_notified)
       (notify_one c (p\<lparr>tasks := tasks p @ [t], accepted := accepted p @ [t]\<rparr>))"
| "submit_step j c Sub_notified p =
     (if c = None then Some (set_submitter j Sub_idle (p\<lparr>mutex := None\<rparr>)) else None)"

fun close_step :: "closer \<Rightarrow> pool \<Rightarrow> pool option" where
  "close_step C_idle p = (if shutdownFlag p then None else Some (p\<lparr>shutdownFlag := True, closer_at := C_flagged\<rparr>))"
| "close_step C_flagged p = (if mutex p = None then Some (p\<lparr>mutex := Some Closer, closer_at := C_locked\<rparr>) else None)"
| "close_step C_locked p = Some (notify_all (p\<lparr>closer_at := C_notified\<rparr>))"
| "close_step C_notified p = Some (p\<lparr>mutex := None, closer_at := C_joining\<rparr>)"
| "close_step C_joining p = (if list_all (\<lambda>s. s = W_exited) (workers p) then Some (p\<lparr>closer_at := C_done\<rparr>) else None)"
| "close_step C_done p = None"

fun perform :: "action \<Rightarrow> pool \<Rightarrow> pool option" where
  "perform (Work i) p = (if i < length (workers p) then work i (workers p ! i) p else None)"
| "perform (Spurious i) p = (if worker_at p i W_waiting then Some (set_worker i W_woken p) else None)"
| "perform (Call j t) p = (if submitters p j = Sub_idle then Some (set_submitter j (Sub_call t) p) else None)"
| "perform (Submit j c) p = submit_step j c (submitters p j) p"
| "perform Close p = close_step (closer_at p) p"

inductive_simps pool_step_simps:
  "pool_step p (Work i) p'" "pool_step p (Spurious i) p'" "pool_step p (Call j t) p'"
  "pool_step p (Submit j c) p'" "pool_step p Close p'"

lemma perform_iff: "pool_step p a p' \<longleftrightarrow> perform a p = Some p'"
proof (cases a)
  case (Work i)
  then show ?thesis
    by (cases "workers p ! i") (auto simp: pool_step_simps pc_def split: list.splits)
next
  case (Submit j c)
  then show ?thesis
    by (cases "submitters p j") (auto simp: pool_step_simps)
next
  case Close
  then show ?thesis
    by (cases "closer_at p") (auto simp: pool_step_simps list_all_iff)
qed (auto simp: pool_step_simps)

fun run_actions :: "action list \<Rightarrow> pool \<Rightarrow> pool option" where
  "run_actions [] p = Some p"
| "run_actions (a # as) p = (case perform a p of None \<Rightarrow> None | Some q \<Rightarrow> run_actions as q)"

lemma run_actions_reachable:
  "pool_reachable n p \<Longrightarrow> run_actions as p = Some p' \<Longrightarrow> pool_reachable n p'"
  by (induction as arbitrary: p) (auto simp: perform_iff[symmetric] split: option.splits intro: pool_reachable.step)

end
