(* ===== verification/Pool_Invariants.thy ===== *)
theory Pool_Invariants
  imports Thread_Pool
begin

text \<open>
  The invariants of the thread pool, one predicate per concern with one preservation lemma
  each: who owns the mutex, where the closer excludes sleeping workers and pushing submitters,
  and the accounting of tasks and of the counter of active tasks. \<open>pool_inv\<close> collects them;
  every reachable state has it.
\<close>

section \<open>Threads and the state\<close>

lemma pc_set_worker [simp]:
  "pc (set_worker i s p) k = (if k = i \<and> pc p i \<noteq> None then Some s else pc p k)"
  by (auto simp: pc_def set_worker_def nth_list_update)

lemma pc_notify_all [simp]: "pc (notify_all p) i = map_option wake (pc p i)"
  by (auto simp: pc_def notify_all_def)

lemma wake_simps [simp]:
  "wake s \<noteq> W_waiting" "wake s = W_test \<longleftrightarrow> s = W_test" "wake s = W_sleep \<longleftrightarrow> s = W_sleep"
  "wake s = W_exited \<longleftrightarrow> s = W_exited"
  by (auto simp: wake_def)

lemma set_worker_frame [simp]:
  "tasks (set_worker i s p) = tasks p" "mutex (set_worker i s p) = mutex p"
  "shutdownFlag (set_worker i s p) = shutdownFlag p" "submitters (set_worker i s p) = submitters p"
  "closer_at (set_worker i s p) = closer_at p" "length (workers (set_worker i s p)) = length (workers p)"
  "accepted (set_worker i s p) = accepted p" "started (set_worker i s p) = started p"
  "finished (set_worker i s p) = finished p" "activeTasks (set_worker i s p) = activeTasks p"
  by (simp_all add: set_worker_def)

lemma set_submitter_frame [simp]:
  "tasks (set_submitter j s p) = tasks p" "mutex (set_submitter j s p) = mutex p"
  "shutdownFlag (set_submitter j s p) = shutdownFlag p" "workers (set_submitter j s p) = workers p"
  "submitters (set_submitter j s p) = (submitters p)(j := s)"
  "closer_at (set_submitter j s p) = closer_at p" "pc (set_submitter j s p) = pc p"
  "accepted (set_submitter j s p) = accepted p" "started (set_submitter j s p) = started p"
  "finished (set_submitter j s p) = finished p" "activeTasks (set_submitter j s p) = activeTasks p"
  by (simp_all add: set_submitter_def pc_def fun_eq_iff)

lemma pc_frame [simp]:
  "pc (p\<lparr>tasks := a\<rparr>) = pc p" "pc (p\<lparr>mutex := b\<rparr>) = pc p" "pc (p\<lparr>started := c\<rparr>) = pc p"
  "pc (p\<lparr>accepted := c\<rparr>) = pc p" "pc (p\<lparr>finished := c\<rparr>) = pc p" "pc (p\<lparr>rejected := c\<rparr>) = pc p"
  "pc (p\<lparr>activeTasks := d\<rparr>) = pc p" "pc (p\<lparr>closer_at := e\<rparr>) = pc p"
  "pc (p\<lparr>shutdownFlag := g\<rparr>) = pc p"
  by (simp_all add: pc_def fun_eq_iff)

lemma notify_all_frame [simp]:
  "tasks (notify_all p) = tasks p" "mutex (notify_all p) = mutex p"
  "shutdownFlag (notify_all p) = shutdownFlag p" "submitters (notify_all p) = submitters p"
  "closer_at (notify_all p) = closer_at p" "accepted (notify_all p) = accepted p"
  "started (notify_all p) = started p" "finished (notify_all p) = finished p"
  "activeTasks (notify_all p) = activeTasks p" "length (workers (notify_all p)) = length (workers p)"
  by (simp_all add: notify_all_def)

lemma notify_one_cases:
  assumes "notify_one c p = Some q"
  obtains (nobody) "q = p" and "W_waiting \<notin> set (workers p)"
  | (woken) i where "worker_at p i W_waiting" and "q = set_worker i W_woken p"
proof (cases c)
  case None
  with assms nobody show thesis by (simp add: notify_one_def split: if_splits)
next
  case (Some i)
  with assms woken[of i] show thesis by (simp add: notify_one_def split: if_splits)
qed

section \<open>Who owns the mutex\<close>

definition holds_mutex :: "submitter \<Rightarrow> bool" where
  "holds_mutex s = (case s of Sub_idle \<Rightarrow> False | Sub_call t \<Rightarrow> False | _ \<Rightarrow> True)"

lemma holds_mutex_simps [simp]:
  "\<not> holds_mutex Sub_idle" "\<not> holds_mutex (Sub_call t)" "holds_mutex (Sub_locked t)"
  "holds_mutex (Sub_ok t)" "holds_mutex Sub_notified"
  by (simp_all add: holds_mutex_def)

definition mutex_ok :: "pool \<Rightarrow> bool" where
  "mutex_ok p \<longleftrightarrow>
     (\<forall>i. worker_at p i W_test \<or> worker_at p i W_sleep \<longrightarrow> mutex p = Some (Worker i)) \<and>
     (\<forall>j. holds_mutex (submitters p j) \<longrightarrow> mutex p = Some (Submitter j)) \<and>
     (closer_at p = C_locked \<or> closer_at p = C_notified \<longrightarrow> mutex p = Some Closer)"

lemma mutex_owner:
  assumes "mutex_ok p"
  shows "worker_at p i W_test \<Longrightarrow> mutex p = Some (Worker i)"
    and "worker_at p i W_sleep \<Longrightarrow> mutex p = Some (Worker i)"
    and "holds_mutex (submitters p j) \<Longrightarrow> mutex p = Some (Submitter j)"
    and "closer_at p = C_locked \<Longrightarrow> mutex p = Some Closer"
    and "closer_at p = C_notified \<Longrightarrow> mutex p = Some Closer"
  using assms by (auto simp: mutex_ok_def)

lemma mutex_excludes:
  assumes "mutex_ok p" and "mutex p = Some w"
  shows "w \<noteq> Worker k \<Longrightarrow> pc p k \<noteq> Some W_test \<and> pc p k \<noteq> Some W_sleep"
    and "w \<noteq> Submitter j \<Longrightarrow> \<not> holds_mutex (submitters p j)"
    and "w \<noteq> Closer \<Longrightarrow> closer_at p \<noteq> C_locked \<and> closer_at p \<noteq> C_notified"
  using mutex_owner(1,2)[OF assms(1), of k] mutex_owner(3)[OF assms(1), of j]
    mutex_owner(4,5)[OF assms(1)] assms(2) by auto

lemma mutex_ok_step: "pool_step p a p' \<Longrightarrow> mutex_ok p \<Longrightarrow> mutex_ok p'"
proof (induction rule: pool_step.induct)
  case (wait p i)
  then have "mutex p = Some (Worker i)" by (intro mutex_owner(1)) simp_all
  with mutex_excludes[OF wait(4)] wait(1) show ?case by (auto simp: mutex_ok_def)
next
  case (sleep p i)
  then have "mutex p = Some (Worker i)" by (intro mutex_owner(2)) simp_all
  with mutex_excludes[OF sleep(2)] sleep(1) show ?case by (auto simp: mutex_ok_def)
next
  case (leave p i)
  then have "mutex p = Some (Worker i)" by (intro mutex_owner(1)) simp_all
  with mutex_excludes[OF leave(4)] leave(1) show ?case by (auto simp: mutex_ok_def)
next
  case (pop p i t ts)
  then have "mutex p = Some (Worker i)" by (intro mutex_owner(1)) simp_all
  with mutex_excludes[OF pop(3)] pop(1) show ?case by (auto simp: mutex_ok_def)
next
  case (reject p j t)
  then have "mutex p = Some (Submitter j)" by (intro mutex_owner(3)) simp_all
  with mutex_excludes[OF reject(3)] reject(1) show ?case by (auto simp: mutex_ok_def)
next
  case (pass p j t)
  then have "mutex p = Some (Submitter j)" by (intro mutex_owner(3)) simp_all
  with mutex_excludes[OF pass(3)] pass(1) show ?case by (auto simp: mutex_ok_def)
next
  case (sub_unlock p j)
  then have "mutex p = Some (Submitter j)" by (intro mutex_owner(3)) simp_all
  with mutex_excludes[OF sub_unlock(2)] sub_unlock(1) show ?case by (auto simp: mutex_ok_def)
next
  case (notify p)
  then have "mutex p = Some (Closer)" by (intro mutex_owner(4)) simp_all
  with mutex_excludes[OF notify(2)] notify(1) show ?case by (auto simp: mutex_ok_def)
next
  case (close_unlock p)
  then have "mutex p = Some (Closer)" by (intro mutex_owner(5)) simp_all
  with mutex_excludes[OF close_unlock(2)] close_unlock(1) show ?case by (auto simp: mutex_ok_def)
next
  case (push p j t c q)
  then have m: "mutex p = Some (Submitter j)" by (intro mutex_owner(3)) simp_all
  note ex = mutex_excludes[OF push(3) m]
  from push(2) show ?case
    by (rule notify_one_cases) (use push(1) m ex in \<open>auto simp: mutex_ok_def\<close>)
qed (auto simp: mutex_ok_def)

section \<open>What shutting down excludes\<close>

text \<open>
  The flag is set exactly from the first step of \<open>shutdown\<close> on. A worker about to wait decided so
  on an empty queue and before the closer notifies; a worker that has left saw an empty queue,
  and no submitter can still push.
\<close>

definition flag_ok :: "pool \<Rightarrow> bool" where
  "flag_ok p \<longleftrightarrow> shutdownFlag p = (closer_at p \<noteq> C_idle)"

definition sleep_ok :: "pool \<Rightarrow> bool" where
  "sleep_ok p \<longleftrightarrow>
     (\<forall>i. worker_at p i W_sleep \<longrightarrow> tasks p = [] \<and> closer_at p \<in> {C_idle, C_flagged})"

definition waiting_ok :: "pool \<Rightarrow> bool" where
  "waiting_ok p \<longleftrightarrow>
     (\<forall>i. worker_at p i W_waiting \<longrightarrow> closer_at p \<in> {C_idle, C_flagged, C_locked})"

definition pushing_ok :: "pool \<Rightarrow> bool" where
  "pushing_ok p \<longleftrightarrow> (\<forall>j t. submitters p j = Sub_ok t \<longrightarrow> closer_at p \<in> {C_idle, C_flagged})"

definition exited_ok :: "pool \<Rightarrow> bool" where
  "exited_ok p \<longleftrightarrow>
     (\<forall>i. worker_at p i W_exited \<longrightarrow>
        shutdownFlag p \<and> tasks p = [] \<and> (\<forall>j t. submitters p j \<noteq> Sub_ok t))"

lemma flag_ok_step: "pool_step p a p' \<Longrightarrow> flag_ok p \<Longrightarrow> flag_ok p'"
  by (induction rule: pool_step.induct) (auto simp: flag_ok_def elim: notify_one_cases)

lemma pushing_excludes:
  assumes "mutex_ok p" and "submitters p j = Sub_ok t"
  shows "pc p i \<noteq> Some W_sleep" and "closer_at p \<noteq> C_locked" and "closer_at p \<noteq> C_notified"
    and "k \<noteq> j \<Longrightarrow> submitters p k \<noteq> Sub_ok u"
proof -
  have m: "mutex p = Some (Submitter j)" using assms by (intro mutex_owner(3)) simp_all
  show "pc p i \<noteq> Some W_sleep" "closer_at p \<noteq> C_locked" "closer_at p \<noteq> C_notified"
    using mutex_owner[OF assms(1)] m by fastforce+
  show "k \<noteq> j \<Longrightarrow> submitters p k \<noteq> Sub_ok u"
    using mutex_owner(3)[OF assms(1), of k] m by auto
qed

lemma sleep_ok_step: "pool_step p a p' \<Longrightarrow> mutex_ok p \<Longrightarrow> flag_ok p \<Longrightarrow> sleep_ok p \<Longrightarrow> sleep_ok p'"
proof (induction rule: pool_step.induct)
  case (push p j t c q)
  with pushing_excludes(1)[OF push(3,1)] show ?case
    by (elim notify_one_cases) (simp_all add: sleep_ok_def)
next
  case (close_lock p)
  then have "pc p i \<noteq> Some W_sleep" for i using mutex_owner(2)[of p i] by auto
  then show ?case by (simp add: sleep_ok_def)
next
  case (notify p)
  then have "pc p i \<noteq> Some W_sleep" for i
    using mutex_owner(2)[of p i] mutex_owner(4)[of p] by auto
  then show ?case by (simp add: sleep_ok_def)
qed (auto simp: sleep_ok_def flag_ok_def)

lemma waiting_ok_step: "pool_step p a p' \<Longrightarrow> sleep_ok p \<Longrightarrow> flag_ok p \<Longrightarrow> waiting_ok p \<Longrightarrow> waiting_ok p'"
proof (induction rule: pool_step.induct)
  case (push p j t c q)
  then show ?case by (elim notify_one_cases) (auto simp: waiting_ok_def split: if_splits)
qed (auto simp: waiting_ok_def sleep_ok_def flag_ok_def)

lemma pushing_ok_step: "pool_step p a p' \<Longrightarrow> mutex_ok p \<Longrightarrow> flag_ok p \<Longrightarrow> pushing_ok p \<Longrightarrow> pushing_ok p'"
proof (induction rule: pool_step.induct)
  case (push p j t c q)
  then show ?case by (elim notify_one_cases) (auto simp: pushing_ok_def split: if_splits)
next
  case (close_lock p)
  then have "submitters p j \<noteq> Sub_ok t" for j t using mutex_owner(3)[of p j] by auto
  then show ?case by (simp add: pushing_ok_def)
qed (auto simp: pushing_ok_def flag_ok_def)

lemma exited_ok_step: "pool_step p a p' \<Longrightarrow> mutex_ok p \<Longrightarrow> exited_ok p \<Longrightarrow> exited_ok p'"
proof (induction rule: pool_step.induct)
  case (push p j t c q)
  then show ?case by (elim notify_one_cases) (auto simp: exited_ok_def)
next
  case (leave p i)
  then have "submitters p j \<noteq> Sub_ok t" for j t
    using mutex_owner(1)[of p i] mutex_owner(3)[of p j] by auto
  with leave show ?case by (auto simp: exited_ok_def)
qed (auto simp: exited_ok_def)

section \<open>Tasks are conserved\<close>

definition in_hand :: "worker \<Rightarrow> nat multiset" where
  "in_hand s = (case s of W_taken t \<Rightarrow> {#t#} | W_running t \<Rightarrow> {#t#} | _ \<Rightarrow> {#})"

lemma in_hand_simps [simp]:
  "in_hand W_lock = {#}" "in_hand W_test = {#}" "in_hand W_sleep = {#}" "in_hand W_waiting = {#}"
  "in_hand W_woken = {#}" "in_hand (W_taken t) = {#t#}" "in_hand (W_running t) = {#t#}"
  "in_hand W_finished = {#}" "in_hand W_exited = {#}"
  by (simp_all add: in_hand_def)

definition counted :: "worker \<Rightarrow> nat" where
  "counted s = (case s of W_running t \<Rightarrow> 1 | W_finished \<Rightarrow> 1 | _ \<Rightarrow> 0)"

definition tasks_ok :: "pool \<Rightarrow> bool" where
  "tasks_ok p \<longleftrightarrow> accepted p = started p @ tasks p \<and>
     mset (started p) = mset (finished p) + (\<Sum>s\<leftarrow>workers p. in_hand s)"

lemma sum_list_set_worker:
  fixes g :: "worker \<Rightarrow> 'a::comm_monoid_add"
  assumes "worker_at p i s"
  shows "(\<Sum>s\<leftarrow>workers (set_worker i r p). g s) + g s = (\<Sum>s\<leftarrow>workers p. g s) + g r"
proof -
  from assms have i: "i < length (workers p)" and s: "workers p ! i = s"
    by (auto simp: pc_def split: if_splits)
  obtain xs ys where w: "workers p = xs @ s # ys" and l: "length xs = i"
    using id_take_nth_drop[OF i] s i by force
  then have "(workers p)[i := r] = xs @ r # ys" by (metis list_update_length)
  with w show ?thesis by (simp add: set_worker_def ac_simps)
qed

lemma sum_list_wake:
  assumes "g W_woken = g W_waiting"
  shows "(\<Sum>s\<leftarrow>map wake ws. g s) = (\<Sum>s\<leftarrow>ws. g s)"
  by (induction ws) (auto simp: wake_def assms)

lemma workers_frame [simp]:
  "workers (notify_all p) = map wake (workers p)" "workers (set_submitter j r p) = workers p"
  by (simp_all add: notify_all_def)

lemma in_hand_step:
  assumes "worker_at p i s" and "in_hand s = in_hand r"
  shows "(\<Sum>s\<leftarrow>workers (set_worker i r p). in_hand s) = (\<Sum>s\<leftarrow>workers p. in_hand s)"
  using sum_list_set_worker[OF assms(1), of in_hand r] assms(2) by simp

lemma set_worker_updates [simp]:
  "workers (set_worker i r (p\<lparr>tasks := a\<rparr>)) = workers (set_worker i r p)"
  "workers (set_worker i r (p\<lparr>mutex := b\<rparr>)) = workers (set_worker i r p)"
  "workers (set_worker i r (p\<lparr>started := c\<rparr>)) = workers (set_worker i r p)"
  "workers (set_worker i r (p\<lparr>accepted := c\<rparr>)) = workers (set_worker i r p)"
  "workers (set_worker i r (p\<lparr>finished := c\<rparr>)) = workers (set_worker i r p)"
  "workers (set_worker i r (p\<lparr>activeTasks := d\<rparr>)) = workers (set_worker i r p)"
  by (simp_all add: set_worker_def)

lemma tasks_ok_step: "pool_step p a p' \<Longrightarrow> tasks_ok p \<Longrightarrow> tasks_ok p'"
proof (induction rule: pool_step.induct)
  case (pop p i t ts)
  then show ?case using sum_list_set_worker[OF pop(1), of in_hand "W_taken t"]
    by (simp add: tasks_ok_def)
next
  case (end_task p i t)
  then show ?case using sum_list_set_worker[OF end_task(1), of in_hand W_finished]
    by (simp add: tasks_ok_def)
next
  case (push p j t c q)
  then show ?case
    by (elim notify_one_cases) (simp_all add: tasks_ok_def in_hand_step)
next
  case (lock p i)
  then show ?case
    by (elim disjE) (simp_all add: tasks_ok_def in_hand_step)
next
  case (notify p)
  then show ?case
    using sum_list_wake[of in_hand "workers p"] by (simp add: tasks_ok_def)
qed (simp_all add: tasks_ok_def in_hand_step)

definition active_ok :: "pool \<Rightarrow> bool" where
  "active_ok p \<longleftrightarrow> activeTasks p = of_nat (\<Sum>s\<leftarrow>workers p. counted s)"

lemma counted_simps [simp]:
  "counted W_lock = 0" "counted W_test = 0" "counted W_sleep = 0" "counted W_waiting = 0"
  "counted W_woken = 0" "counted (W_taken t) = 0" "counted (W_running t) = 1"
  "counted W_finished = 1" "counted W_exited = 0"
  by (simp_all add: counted_def)

lemma counted_le_1: "counted s \<le> 1"
  by (cases s) simp_all

lemma counted_bound: "(\<Sum>s\<leftarrow>ws. counted s) \<le> length ws"
proof (induction ws)
  case (Cons s ws)
  with counted_le_1[of s] show ?case by simp
qed simp

lemma counted_step:
  assumes "worker_at p i s" and "counted s = counted r"
  shows "(\<Sum>s\<leftarrow>workers (set_worker i r p). counted s) = (\<Sum>s\<leftarrow>workers p. counted s)"
  using sum_list_set_worker[OF assms(1), of counted r] assms(2) by simp

lemma active_ok_step:
  "pool_step p a p' \<Longrightarrow> length (workers p) < 2 ^ 64 \<Longrightarrow> active_ok p \<Longrightarrow> active_ok p'"
proof (induction rule: pool_step.induct)
  case (begin_task p i t)
  then show ?case using sum_list_set_worker[OF begin_task(1), of counted "W_running t"]
    by (simp add: active_ok_def)
next
  case (count_down p i)
  let ?n = "\<Sum>s\<leftarrow>workers p. counted s"
  have n: "(\<Sum>s\<leftarrow>workers (set_worker i W_lock p). counted s) + 1 = ?n"
    using sum_list_set_worker[OF count_down(1), of counted W_lock] by simp
  have "?n < 2 ^ 64" using counted_bound[of "workers p"] count_down(2) by linarith
  then have "unat (of_nat ?n :: 64 word) = ?n" by (simp add: unat_of_nat)
  with n have "(of_nat ?n :: 64 word) \<noteq> 0" by (metis Suc_eq_plus1 nat.distinct(1) unat_0)
  moreover from n have "(of_nat ?n :: 64 word) - 1 = of_nat (\<Sum>s\<leftarrow>workers (set_worker i W_lock p). counted s)"
    by (metis add_diff_cancel_right' of_nat_1 of_nat_add)
  ultimately show ?case using count_down(3) by (simp add: active_ok_def)
next
  case (push p j t c q)
  then show ?case by (elim notify_one_cases) (simp_all add: active_ok_def counted_step)
next
  case (lock p i)
  then show ?case by (elim disjE) (simp_all add: active_ok_def counted_step)
next
  case (notify p)
  then show ?case using sum_list_wake[of counted "workers p"] by (simp add: active_ok_def)
qed (simp_all add: active_ok_def counted_step)

section \<open>The invariant\<close>

definition pool_inv :: "nat \<Rightarrow> pool \<Rightarrow> bool" where
  "pool_inv n p \<longleftrightarrow> length (workers p) = n \<and> mutex_ok p \<and> flag_ok p \<and> sleep_ok p \<and> waiting_ok p \<and>
     pushing_ok p \<and> exited_ok p \<and> tasks_ok p \<and> (n < 2 ^ 64 \<longrightarrow> active_ok p)"

lemma length_workers_step: "pool_step p a p' \<Longrightarrow> length (workers p') = length (workers p)"
  by (induction rule: pool_step.induct) (auto elim: notify_one_cases)

lemma pc_new_pool [simp]: "pc (new_pool n) i = (if i < n then Some W_lock else None)"
  by (simp add: pc_def new_pool_def)

lemma pool_inv_new: "pool_inv n (new_pool n)"
proof -
  have "(\<Sum>s\<leftarrow>replicate n W_lock. in_hand s) = {#}" "(\<Sum>s\<leftarrow>replicate n W_lock. counted s) = 0"
    by (induction n) simp_all
  then show ?thesis
    by (simp add: pool_inv_def mutex_ok_def flag_ok_def sleep_ok_def waiting_ok_def pushing_ok_def
        exited_ok_def tasks_ok_def active_ok_def) (simp add: new_pool_def sum_list_replicate)
qed

lemma pool_inv_step:
  assumes "pool_step p a p'" and "pool_inv n p"
  shows "pool_inv n p'"
  using assms length_workers_step[OF assms(1)] unfolding pool_inv_def
  by (auto intro: mutex_ok_step flag_ok_step sleep_ok_step waiting_ok_step pushing_ok_step
      exited_ok_step tasks_ok_step active_ok_step)

lemma pool_inv_reachable: "pool_reachable n p \<Longrightarrow> pool_inv n p"
  by (induction rule: pool_reachable.induct) (auto intro: pool_inv_new pool_inv_step)

end
