(* ===== verification/Pool_Shutdown.thy ===== *)
theory Pool_Shutdown
  imports Pool_Invariants
begin

text \<open>
  What the thread pool promises: a shutdown can always be completed and takes boundedly many
  steps of the pool's threads, every accepted task is run exactly once and in order, and no
  notification is lost.
\<close>

section \<open>Progress of a shutdown\<close>

text \<open>The owner of the mutex is at a place where it holds it, and it can always move on.\<close>

definition owner_ok :: "pool \<Rightarrow> bool" where
  "owner_ok p \<longleftrightarrow>
     (case mutex p of
        None \<Rightarrow> True
      | Some (Worker i) \<Rightarrow> worker_at p i W_test \<or> worker_at p i W_sleep
      | Some (Submitter j) \<Rightarrow> holds_mutex (submitters p j)
      | Some Closer \<Rightarrow> closer_at p = C_locked \<or> closer_at p = C_notified)"

lemma owner_ok_step:
  assumes "pool_step p a p'" and "mutex_ok p" and "owner_ok p"
  shows "owner_ok p'"
  using assms
proof (induction rule: pool_step.induct)
  case (pass p j t)
  then have "mutex p = Some (Submitter j)" by (intro mutex_owner(3)) simp_all
  then show ?case by (simp add: owner_ok_def)
next
  case (push p j t c q)
  then have "mutex p = Some (Submitter j)" by (intro mutex_owner(3)) simp_all
  with push(2) show ?case by (elim notify_one_cases) (simp_all add: owner_ok_def)
next
  case (wait p i)
  then have "mutex p = Some (Worker i)" by (intro mutex_owner(1)) simp_all
  with wait(1) show ?case by (simp add: owner_ok_def)
next
  case (notify p)
  then have "mutex p = Some Closer" by (intro mutex_owner(4)) simp_all
  then show ?case by (simp add: owner_ok_def)
qed (auto simp: owner_ok_def split: option.splits owner.splits)

lemma owner_ok_reachable: "pool_reachable n p \<Longrightarrow> owner_ok p"
proof (induction rule: pool_reachable.induct)
  case start
  then show ?case by (simp add: owner_ok_def new_pool_def)
next
  case (step p a p')
  from pool_inv_reachable[OF step(1)] have "mutex_ok p" by (simp add: pool_inv_def)
  with owner_ok_step step(2,3) show ?case by blast
qed

text \<open>
  What is left to do once the closer joins: each worker by the number of its steps until it
  leaves, each queued task by the steps it costs the worker that takes it.
\<close>

fun worker_left :: "worker \<Rightarrow> nat" where
  "worker_left W_exited = 0"
| "worker_left W_test = 1"
| "worker_left W_lock = 2"
| "worker_left W_woken = 2"
| "worker_left W_waiting = 3"
| "worker_left W_sleep = 4"
| "worker_left W_finished = 3"
| "worker_left (W_running t) = 4"
| "worker_left (W_taken t) = 5"

definition steps_left :: "pool \<Rightarrow> nat" where
  "steps_left p = (\<Sum>s\<leftarrow>workers p. worker_left s) + 5 * length (tasks p) +
     (if closer_at p = C_done then 0 else 1)"

definition by_pool :: "action \<Rightarrow> bool" where
  "by_pool a = (case a of Work i \<Rightarrow> True | Spurious i \<Rightarrow> True | Close \<Rightarrow> True | _ \<Rightarrow> False)"

definition joining :: "pool \<Rightarrow> bool" where
  "joining p \<longleftrightarrow> closer_at p = C_joining \<or> closer_at p = C_done"

lemma left_step:
  assumes "worker_at p i s"
  shows "(\<Sum>s\<leftarrow>workers (set_worker i r p). worker_left s) + worker_left s =
    (\<Sum>s\<leftarrow>workers p. worker_left s) + worker_left r"
  by (rule sum_list_set_worker[OF assms])

lemma joining_facts:
  assumes "pool_inv n p" and "joining p"
  shows "shutdownFlag p" and "pc p i \<noteq> Some W_sleep" and "pc p i \<noteq> Some W_waiting"
    and "submitters p j \<noteq> Sub_ok t" and "closer_at p \<in> {C_joining, C_done}"
proof -
  from assms(2) show c: "closer_at p \<in> {C_joining, C_done}" by (simp add: joining_def)
  from assms(1) have ok: "flag_ok p" "sleep_ok p" "waiting_ok p" "pushing_ok p"
    by (simp_all add: pool_inv_def)
  from c ok(1) show "shutdownFlag p" by (auto simp: flag_ok_def)
  from c ok(2) show "pc p i \<noteq> Some W_sleep" by (auto simp: sleep_ok_def)
  from c ok(3) show "pc p i \<noteq> Some W_waiting" by (auto simp: waiting_ok_def)
  from c ok(4) show "submitters p j \<noteq> Sub_ok t" by (auto simp: pushing_ok_def)
qed

text \<open>Every step of the pool's own threads is one of those left, whoever woke the sleepers.\<close>

lemma joining_measure:
  assumes "pool_step p a p'" and "shutdownFlag p" and "\<And>i. pc p i \<noteq> Some W_sleep" and "joining p"
    and "\<And>j t. submitters p j \<noteq> Sub_ok t"
  shows "joining p' \<and> (if by_pool a then steps_left p' < steps_left p else steps_left p' = steps_left p)"
  using assms(1,2,3,5)
proof (cases rule: pool_step.cases)
  case (lock i)
  then show ?thesis using assms(4) left_step[of p i W_lock W_test] left_step[of p i W_woken W_test]
    by (auto simp: joining_def steps_left_def by_pool_def)
next
  case (leave i)
  then show ?thesis using assms(4) left_step[of p i W_test W_exited]
    by (simp add: joining_def steps_left_def by_pool_def)
next
  case (pop i t ts)
  then show ?thesis using assms(4) left_step[of p i W_test "W_taken t"]
    by (simp add: joining_def steps_left_def by_pool_def)
next
  case (begin_task i t)
  then show ?thesis using assms(4) left_step[of p i "W_taken t" "W_running t"]
    by (simp add: joining_def steps_left_def by_pool_def)
next
  case (end_task i t)
  then show ?thesis using assms(4) left_step[of p i "W_running t" W_finished]
    by (simp add: joining_def steps_left_def by_pool_def)
next
  case (count_down i)
  then show ?thesis using assms(4) left_step[of p i W_finished W_lock]
    by (simp add: joining_def steps_left_def by_pool_def)
next
  case (spurious i)
  then show ?thesis using assms(4) left_step[of p i W_waiting W_woken]
    by (simp add: joining_def steps_left_def by_pool_def)
qed (use assms(4) in \<open>auto simp: joining_def steps_left_def by_pool_def\<close>)

lemma joining_step:
  assumes "pool_step p a p'" and "pool_inv n p" and "joining p"
  shows "joining p' \<and> (if by_pool a then steps_left p' < steps_left p else steps_left p' = steps_left p)"
  by (rule joining_measure[OF assms(1) _ _ assms(3)]) (use joining_facts[OF assms(2,3)] in simp_all)

lemma joining_run:
  assumes "run_actions as p = Some p'" and "pool_reachable n p" and "joining p"
  shows "length (filter by_pool as) + steps_left p' \<le> steps_left p"
  using assms
proof (induction as arbitrary: p)
  case (Cons a as)
  then obtain q where q: "pool_step p a q" "run_actions as q = Some p'"
    by (auto simp: perform_iff split: option.splits)
  note s = joining_step[OF q(1) pool_inv_reachable[OF Cons.prems(2)] Cons.prems(3)]
  have "pool_reachable n q" using Cons.prems(2) q(1) by (rule pool_reachable.step)
  with Cons.IH[OF q(2)] s show ?case by (auto split: if_splits)
qed simp

lemma run_actions_append:
  "run_actions as p = Some q \<Longrightarrow> run_actions bs q = Some r \<Longrightarrow> run_actions (as @ bs) p = Some r"
  by (induction as arbitrary: p) (auto split: option.splits)

lemma run_actions_step: "pool_step p a q \<Longrightarrow> run_actions bs q = Some r \<Longrightarrow> run_actions (a # bs) p = Some r"
  by (simp add: perform_iff)

lemma worker_can_move:
  assumes "worker_at p i s" and "s \<noteq> W_waiting" and "s \<noteq> W_exited"
    and "s = W_lock \<or> s = W_woken \<Longrightarrow> mutex p = None"
  shows "\<exists>p'. pool_step p (Work i) p'"
  using assms by (cases s) (auto simp: perform_iff pc_def split: if_splits list.splits)

text \<open>A thread inside \<open>submit\<close> that holds the mutex releases it in its next steps.\<close>

lemma notify_one_total: "\<exists>c q. notify_one c p = Some q"
proof (cases "W_waiting \<in> set (workers p)")
  case True
  then obtain i where "i < length (workers p)" "workers p ! i = W_waiting"
    by (auto simp: in_set_conv_nth)
  then have "worker_at p i W_waiting" by (simp add: pc_def)
  then show ?thesis by (intro exI[of _ "Some i"]) (simp add: notify_one_def)
next
  case False
  then show ?thesis by (intro exI[of _ None]) (simp add: notify_one_def)
qed

lemma notify_one_closer: "notify_one c p = Some q \<Longrightarrow> closer_at q = closer_at p"
  by (auto elim!: notify_one_cases)

lemma notify_one_submitters: "notify_one c p = Some q \<Longrightarrow> submitters q = submitters p"
  by (auto elim!: notify_one_cases)

lemma submitter_releases:
  assumes "holds_mutex (submitters p j)"
  shows "\<exists>as q. run_actions as p = Some q \<and> mutex q = None \<and> closer_at q = closer_at p"
proof -
  have unlock: "\<exists>as q. run_actions as r = Some q \<and> mutex q = None \<and> closer_at q = closer_at r"
    if "submitters r j = Sub_notified" for r
    by (intro exI conjI, rule run_actions_step[OF pool_step.sub_unlock[OF that] run_actions.simps(1)]) simp_all
  have finish: "\<exists>as q. run_actions as r = Some q \<and> mutex q = None \<and> closer_at q = closer_at r"
    if ok: "submitters r j = Sub_ok t" for r t
  proof -
    obtain c q where q: "notify_one c (r\<lparr>tasks := tasks r @ [t], accepted := accepted r @ [t]\<rparr>) = Some q"
      using notify_one_total by blast
    obtain as q' where "run_actions as (set_submitter j Sub_notified q) = Some q'" "mutex q' = None"
      "closer_at q' = closer_at q"
      using unlock[of "set_submitter j Sub_notified q"] by auto
    then have "run_actions (Submit j c # as) r = Some q'" "mutex q' = None" "closer_at q' = closer_at r"
      using run_actions_step[OF pool_step.push[OF ok q]] notify_one_closer[OF q] by simp_all
    then show ?thesis by blast
  qed
  consider t where "submitters p j = Sub_locked t" | t where "submitters p j = Sub_ok t"
    | "submitters p j = Sub_notified"
    using assms by (cases "submitters p j") auto
  then show ?thesis
  proof cases
    case (1 t)
    show ?thesis
    proof (cases "shutdownFlag p")
      case True
      show ?thesis
        by (intro exI conjI, rule run_actions_step[OF pool_step.reject[OF 1 True] run_actions.simps(1)]) simp_all
    next
      case False
      obtain as q where "run_actions as (set_submitter j (Sub_ok t) p) = Some q" "mutex q = None"
        "closer_at q = closer_at p"
        using finish[of "set_submitter j (Sub_ok t) p" t] by auto
      with run_actions_step[OF pool_step.pass[OF 1 False]] show ?thesis by blast
    qed
  qed (use unlock finish in blast)+
qed

lemma worker_releases:
  assumes "worker_at p i W_test \<or> worker_at p i W_sleep" and "shutdownFlag p"
  shows "\<exists>a q. pool_step p a q \<and> by_pool a \<and> mutex q = None \<and> closer_at q = closer_at p"
proof (cases "worker_at p i W_sleep")
  case True
  then show ?thesis using pool_step.sleep[OF True] by (force simp: by_pool_def)
next
  case False
  with assms(1) have w: "worker_at p i W_test" by simp
  show ?thesis
  proof (cases "tasks p")
    case Nil
    then show ?thesis using pool_step.leave[OF w assms(2) Nil] by (force simp: by_pool_def)
  next
    case (Cons t ts)
    then show ?thesis using pool_step.pop[OF w Cons] by (force simp: by_pool_def)
  qed
qed

text \<open>While the closer joins, some thread of the pool, or the submitter with the mutex, can move.\<close>

lemma mutex_submitter_step:
  "pool_step p a q \<Longrightarrow> by_pool a \<Longrightarrow> mutex q = Some (Submitter j) \<Longrightarrow> mutex p = Some (Submitter j)"
  by (induction rule: pool_step.induct) (simp_all add: by_pool_def)

lemma joining_moves:
  assumes "pool_reachable n p" and "closer_at p = C_joining" and "\<And>j. mutex p \<noteq> Some (Submitter j)"
  shows "\<exists>a q. pool_step p a q \<and> by_pool a"
proof -
  have j: "joining p" using assms(2) by (simp add: joining_def)
  note facts = joining_facts[OF pool_inv_reachable[OF assms(1)] j]
  show ?thesis
  proof (cases "mutex p")
    case (Some w)
    with owner_ok_reachable[OF assms(1)] assms(2,3) obtain i
      where "worker_at p i W_test \<or> worker_at p i W_sleep"
      by (cases w) (auto simp: owner_ok_def)
    from worker_releases[OF this facts(1)] show ?thesis by blast
  next
    case None
    show ?thesis
    proof (cases "\<forall>s\<in>set (workers p). s = W_exited")
      case True
      from pool_step.join[OF assms(2) True] show ?thesis by (force simp: by_pool_def)
    next
      case False
      then obtain i where i: "i < length (workers p)" "workers p ! i \<noteq> W_exited"
        by (auto simp: in_set_conv_nth)
      then have w: "worker_at p i (workers p ! i)" by (simp add: pc_def)
      with facts(3)[of i] have "workers p ! i \<noteq> W_waiting" by auto
      from worker_can_move[OF w this i(2) None] show ?thesis by (force simp: by_pool_def)
    qed
  qed
qed

lemma joining_finishes:
  assumes "pool_reachable n p" and "closer_at p = C_joining"
  shows "\<exists>as q. run_actions as p = Some q \<and> closer_at q = C_done"
  using assms
proof (induction "steps_left p" arbitrary: p rule: less_induct)
  case less
  have free: "\<exists>as q. run_actions as r = Some q \<and> closer_at q = C_done"
    if r: "pool_reachable n r" "closer_at r = C_joining" "\<And>j. mutex r \<noteq> Some (Submitter j)"
      "steps_left r \<le> steps_left p" for r
  proof -
    obtain a q where q: "pool_step r a q" "by_pool a" using joining_moves[OF r(1,2,3)] by blast
    have "joining r" using r(2) by (simp add: joining_def)
    from joining_step[OF q(1) pool_inv_reachable[OF r(1)] this] q(2)
    have s: "joining q" "steps_left q < steps_left r" by auto
    have reach: "pool_reachable n q" using r(1) q(1) by (rule pool_reachable.step)
    have "\<exists>as q'. run_actions as q = Some q' \<and> closer_at q' = C_done"
    proof (cases "closer_at q = C_done")
      case True
      then show ?thesis by (intro exI[of _ "[]"]) simp
    next
      case False
      with s(1) have "closer_at q = C_joining" by (simp add: joining_def)
      with less.hyps[of q] s(2) r(4) reach show ?thesis by simp
    qed
    with run_actions_step[OF q(1)] show ?thesis by blast
  qed
  show ?case
  proof (cases "\<exists>j. mutex p = Some (Submitter j)")
    case False
    with free[of p] less.prems show ?thesis by simp
  next
    case True
    then obtain j where "holds_mutex (submitters p j)"
      using owner_ok_reachable[OF less.prems(1)] by (auto simp: owner_ok_def)
    from submitter_releases[OF this] obtain as q where
      q: "run_actions as p = Some q" "mutex q = None" "closer_at q = closer_at p" by blast
    have j: "joining p" using less.prems(2) by (simp add: joining_def)
    have "pool_reachable n q" using run_actions_reachable[OF less.prems(1) q(1)] .
    with free[of q] q joining_run[OF q(1) less.prems(1) j] less.prems(2) obtain bs r where
      "run_actions bs q = Some r" "closer_at r = C_done" by auto
    with run_actions_append[OF q(1)] show ?thesis by blast
  qed
qed

text \<open>From any state of \<open>shutdown\<close> the closer can come to joining.\<close>

lemma mutex_can_be_released:
  assumes "pool_reachable n p" and "shutdownFlag p" and "closer_at p = C_flagged"
  shows "\<exists>as q. run_actions as p = Some q \<and> mutex q = None \<and> closer_at q = C_flagged"
proof (cases "mutex p")
  case None
  then show ?thesis using assms(3) by (intro exI[of _ "[]"]) simp
next
  case (Some w)
  show ?thesis
  proof (cases w)
    case (Worker i)
    with owner_ok_reachable[OF assms(1)] Some have "worker_at p i W_test \<or> worker_at p i W_sleep"
      by (simp add: owner_ok_def)
    from worker_releases[OF this assms(2)] obtain a q where
      "pool_step p a q" "mutex q = None" "closer_at q = closer_at p" by blast
    then show ?thesis using assms(3) by (intro exI[of _ "[a]"]) (simp add: perform_iff)
  next
    case (Submitter j)
    with owner_ok_reachable[OF assms(1)] Some have "holds_mutex (submitters p j)"
      by (simp add: owner_ok_def)
    from submitter_releases[OF this] assms(3) show ?thesis by simp
  next
    case Closer
    with owner_ok_reachable[OF assms(1)] Some assms(3) show ?thesis by (simp add: owner_ok_def)
  qed
qed

lemma reach_here: "P p \<Longrightarrow> \<exists>as q. run_actions as p = Some q \<and> P q"
  by (intro exI[of _ "[]"]) simp

lemma reach_step:
  "pool_step p a r \<Longrightarrow> \<exists>as q. run_actions as r = Some q \<and> P q \<Longrightarrow> \<exists>as q. run_actions as p = Some q \<and> P q"
  using run_actions_step by blast

lemma reach_joining:
  assumes "pool_reachable n p" and "closer_at p \<noteq> C_joining" and "closer_at p \<noteq> C_done"
  shows "\<exists>as q. run_actions as p = Some q \<and> closer_at q = C_joining"
proof -
  have C: "\<exists>as q. run_actions as r = Some q \<and> closer_at q = C_joining" if "closer_at r = C_notified" for r
    by (rule reach_step[OF pool_step.close_unlock[OF that]], rule reach_here) simp
  have B: "\<exists>as q. run_actions as r = Some q \<and> closer_at q = C_joining" if "closer_at r = C_locked" for r
    by (rule reach_step[OF pool_step.notify[OF that]], rule C) simp
  have A: "\<exists>as q. run_actions as r = Some q \<and> closer_at q = C_joining"
    if r: "pool_reachable n r" "shutdownFlag r" "closer_at r = C_flagged" for r
  proof -
    obtain as q where q: "run_actions as r = Some q" "mutex q = None" "closer_at q = C_flagged"
      using mutex_can_be_released[OF r] by blast
    have "\<exists>as r. run_actions as q = Some r \<and> closer_at r = C_joining"
      by (rule reach_step[OF pool_step.close_lock[OF q(3,2)]], rule B) simp
    with run_actions_append[OF q(1)] show ?thesis by blast
  qed
  have fl: "shutdownFlag p = (closer_at p \<noteq> C_idle)"
    using pool_inv_reachable[OF assms(1)] by (simp add: pool_inv_def flag_ok_def)
  show ?thesis
  proof (cases "closer_at p")
    case C_idle
    with fl have step: "pool_step p Close (p\<lparr>shutdownFlag := True, closer_at := C_flagged\<rparr>)"
      by (auto intro: pool_step.flag)
    show ?thesis
      by (rule reach_step[OF step], rule A[OF pool_reachable.step[OF assms(1) step]]) simp_all
  qed (use A[OF assms(1)] B C fl assms(2,3) in auto)
qed

lemma shutdown_can_finish:
  assumes "pool_reachable n p"
  shows "\<exists>as q. run_actions as p = Some q \<and> closer_at q = C_done"
proof (cases "closer_at p = C_done")
  case True
  then show ?thesis by (intro exI[of _ "[]"]) simp
next
  case False
  have "\<exists>as q. run_actions as p = Some q \<and> closer_at q = C_joining"
  proof (cases "closer_at p = C_joining")
    case True
    then show ?thesis by (intro exI[of _ "[]"]) simp
  qed (use reach_joining[OF assms] False in blast)
  then obtain as q where q: "run_actions as p = Some q" "closer_at q = C_joining" by blast
  from joining_finishes[OF run_actions_reachable[OF assms q(1)] q(2)] run_actions_append[OF q(1)]
  show ?thesis by blast
qed

section \<open>After the join, and wake-ups\<close>

definition done_ok :: "pool \<Rightarrow> bool" where
  "done_ok p \<longleftrightarrow> (closer_at p = C_done \<longrightarrow> (\<forall>s\<in>set (workers p). s = W_exited))"

lemma pc_in_set: "worker_at p i s \<Longrightarrow> s \<in> set (workers p)"
  by (auto simp: pc_def split: if_splits)

lemma done_ok_pc: "done_ok p \<Longrightarrow> closer_at p = C_done \<Longrightarrow> worker_at p i s \<Longrightarrow> s = W_exited"
  using pc_in_set by (auto simp: done_ok_def)

lemma done_ok_step: "pool_step p a p' \<Longrightarrow> done_ok p \<Longrightarrow> done_ok p'"
proof (induction rule: pool_step.induct)
  case (push p j t c q)
  then show ?case
    by (elim notify_one_cases) (auto simp: done_ok_def dest: pc_in_set)
next
  case (lock p i)
  then show ?case by (elim disjE) (auto simp: done_ok_def dest: pc_in_set)
qed (auto simp: done_ok_def dest: pc_in_set)

lemma done_ok_reachable: "pool_reachable n p \<Longrightarrow> done_ok p"
proof (induction rule: pool_reachable.induct)
  case (step p a p')
  then show ?case by (blast intro: done_ok_step)
qed (simp add: done_ok_def new_pool_def)

text \<open>A worker on its way to the queue.\<close>

definition ready :: "worker \<Rightarrow> nat" where
  "ready s = (case s of W_lock \<Rightarrow> 1 | W_woken \<Rightarrow> 1 | W_test \<Rightarrow> 1 | _ \<Rightarrow> 0)"

lemma ready_simps [simp]:
  "ready W_lock = 1" "ready W_test = 1" "ready W_sleep = 0" "ready W_waiting = 0"
  "ready W_woken = 1" "ready (W_taken t) = 0" "ready (W_running t) = 0"
  "ready W_finished = 0" "ready W_exited = 0"
  by (simp_all add: ready_def)

definition wakeup_ok :: "pool \<Rightarrow> bool" where
  "wakeup_ok p \<longleftrightarrow> ((\<exists>i. worker_at p i W_waiting) \<longrightarrow>
     length (tasks p) \<le> (\<Sum>s\<leftarrow>workers p. ready s))"

lemma ready_step:
  assumes "worker_at p i s"
  shows "(\<Sum>s\<leftarrow>workers (set_worker i r p). ready s) + ready s = (\<Sum>s\<leftarrow>workers p. ready s) + ready r"
  by (rule sum_list_set_worker[OF assms])

lemma wakeup_okI:
  assumes "wakeup_ok p" and "\<And>i. worker_at p' i W_waiting \<Longrightarrow> \<exists>i. worker_at p i W_waiting"
    and "length (tasks p') + (\<Sum>s\<leftarrow>workers p. ready s) \<le> length (tasks p) + (\<Sum>s\<leftarrow>workers p'. ready s)"
  shows "wakeup_ok p'"
  using assms unfolding wakeup_ok_def by fastforce

lemma wakeup_ok_step: "pool_step p a p' \<Longrightarrow> sleep_ok p \<Longrightarrow> wakeup_ok p \<Longrightarrow> wakeup_ok p'"
proof (induction rule: pool_step.induct)
  case (lock p i)
  from lock(1) show ?case
  proof
    assume w: "worker_at p i W_lock"
    show ?thesis by (rule wakeup_okI[OF lock(4)]) (use ready_step[OF w, of W_test] w in \<open>auto split: if_splits\<close>)
  next
    assume w: "worker_at p i W_woken"
    show ?thesis by (rule wakeup_okI[OF lock(4)]) (use ready_step[OF w, of W_test] w in \<open>auto split: if_splits\<close>)
  qed
next
  case (wait p i)
  then show ?case by (simp add: wakeup_ok_def)
next
  case (sleep p i)
  then show ?case by (auto simp: wakeup_ok_def sleep_ok_def)
next
  case (leave p i)
  then show ?case by (simp add: wakeup_ok_def)
next
  case (pop p i t ts)
  show ?case by (rule wakeup_okI[OF pop(4)]) (use ready_step[OF pop(1), of "W_taken t"] pop in \<open>auto split: if_splits\<close>)
next
  case (begin_task p i t)
  show ?case by (rule wakeup_okI[OF begin_task(3)])
    (use ready_step[OF begin_task(1), of "W_running t"] begin_task in \<open>auto split: if_splits\<close>)
next
  case (end_task p i t)
  show ?case by (rule wakeup_okI[OF end_task(3)])
    (use ready_step[OF end_task(1), of W_finished] end_task in \<open>auto split: if_splits\<close>)
next
  case (count_down p i)
  show ?case by (rule wakeup_okI[OF count_down(3)])
    (use ready_step[OF count_down(1), of W_lock] count_down in \<open>auto split: if_splits\<close>)
next
  case (spurious p i)
  show ?case by (rule wakeup_okI[OF spurious(3)])
    (use ready_step[OF spurious(1), of W_woken] spurious in \<open>auto split: if_splits\<close>)
next
  case (push p j t c q)
  from push(2) show ?case
  proof (cases rule: notify_one_cases)
    case nobody
    then show ?thesis by (auto simp: wakeup_ok_def dest: pc_in_set)
  next
    case (woken i)
    then have w: "worker_at p i W_waiting" by simp
    show ?thesis by (rule wakeup_okI[OF push(4)])
      (use ready_step[OF w, of W_woken] woken w in \<open>auto split: if_splits\<close>)
  qed
next
  case (notify p)
  then show ?case by (simp add: wakeup_ok_def)
qed (simp_all add: wakeup_ok_def)

lemma wakeup_ok_reachable: "pool_reachable n p \<Longrightarrow> wakeup_ok p"
proof (induction rule: pool_reachable.induct)
  case (step p a p')
  from pool_inv_reachable[OF step(1)] have "sleep_ok p" by (simp add: pool_inv_def)
  with step show ?case by (blast intro: wakeup_ok_step)
qed (simp add: wakeup_ok_def)

lemma completed_at_join:
  assumes "pool_reachable n p" and "0 < n" and "closer_at p = C_done"
  shows "tasks p = [] \<and> started p = accepted p \<and> mset (finished p) = mset (accepted p)"
proof -
  note inv = pool_inv_reachable[OF assms(1)]
  have gone: "s = W_exited" if "worker_at p i s" for i s
    using done_ok_pc[OF done_ok_reachable[OF assms(1)] assms(3) that] .
  have "worker_at p 0 (workers p ! 0)" using inv assms(2) by (simp add: pool_inv_def pc_def)
  with gone[OF this] inv have t: "tasks p = []" by (auto simp: pool_inv_def exited_ok_def)
  have "\<forall>s\<in>set (workers p). s = W_exited"
    using done_ok_reachable[OF assms(1)] assms(3) by (simp add: done_ok_def)
  then have "(\<Sum>s\<leftarrow>workers p. in_hand s) = (\<Sum>s\<leftarrow>workers p. {#})"
    by (intro arg_cong[of _ _ sum_list] map_cong) auto
  then have "(\<Sum>s\<leftarrow>workers p. in_hand s) = {#}" by (simp only: sum_list_0)
  with t inv show ?thesis by (simp add: pool_inv_def tasks_ok_def)
qed

section \<open>A run of the pool\<close>

text \<open>One worker serves task 7, goes to sleep, and is woken and joined by \<open>shutdown\<close>.\<close>

definition demo_submit :: "action list" where
  "demo_submit = [Call 0 7, Submit 0 None, Submit 0 None, Submit 0 None, Submit 0 None]"

definition demo_serve :: "action list" where
  "demo_serve = replicate 8 (Work 0)"

definition demo_close :: "action list" where
  "demo_close = [Close, Close, Close, Close, Work 0, Work 0, Close]"

definition demo_pool :: "action list \<Rightarrow> pool" where
  "demo_pool as = the (run_actions as (new_pool 1))"

lemmas demo_defs = demo_submit_def demo_serve_def demo_close_def demo_pool_def

lemma demo_pool_reachable:
  "run_actions as (new_pool 1) \<noteq> None \<Longrightarrow> pool_reachable 1 (demo_pool as)"
  by (auto simp: demo_pool_def intro: run_actions_reachable pool_reachable.start)

lemmas demo_eval = demo_defs new_pool_def set_worker_def set_submitter_def notify_one_def notify_all_def
  wake_def pc_def numeral_eq_Suc

lemma demo_runs:
  "run_actions demo_submit (new_pool 1) \<noteq> None"
  "run_actions (demo_submit @ demo_serve) (new_pool 1) \<noteq> None"
  "run_actions (demo_submit @ demo_serve @ demo_close) (new_pool 1) \<noteq> None"
  by (simp_all add: demo_eval)

section \<open>Properties\<close>

text \<open>C6. When \<open>shutdown\<close> has returned, every task a \<open>submit\<close> had accepted has been run to its
  end, exactly once: no task is left in the queue, the tasks were started in the order in
  which they were accepted, and the tasks that ended are the accepted ones with the same
  multiplicity. This holds for every interleaving of the workers, of any number of submitting
  threads and of the thread that shuts down, for a pool with at least one worker.\<close>

theorem shutdown_completes_accepted_tasks:
  assumes "pool_reachable n p" and "0 < n" and "closer_at p = C_done"
  shows "tasks p = [] \<and> started p = accepted p \<and> mset (finished p) = mset (accepted p)"
  using completed_at_join[OF assms] by simp

lemma shutdown_completes_accepted_tasks_witness:
  "let p = demo_pool (demo_submit @ demo_serve @ demo_close)
   in tasks p = [] \<and> started p = [7] \<and> finished p = [7]"
proof -
  let ?p = "demo_pool (demo_submit @ demo_serve @ demo_close)"
  have "pool_reachable 1 ?p" by (rule demo_pool_reachable[OF demo_runs(3)])
  moreover have "closer_at ?p = C_done" "accepted ?p = [7]" by (simp_all add: demo_eval)
  ultimately show ?thesis
    using shutdown_completes_accepted_tasks[of 1 ?p] by (simp add: Let_def)
qed



text \<open>C19. While some worker sleeps on the condition variable there are at least as many workers
  awake and on their way to the queue as there are tasks in it - a notification is never lost - and no
  worker sleeps any more once \<open>shutdown\<close> has notified.\<close>

theorem no_lost_wakeup:
  assumes "pool_reachable n p" and "worker_at p i W_waiting"
  shows "length (tasks p) \<le> (\<Sum>s\<leftarrow>workers p. ready s) \<and>
    closer_at p \<noteq> C_notified \<and> closer_at p \<noteq> C_joining \<and> closer_at p \<noteq> C_done"
  using wakeup_ok_reachable[OF assms(1)] pool_inv_reachable[OF assms(1)] assms(2)
  by (auto simp: wakeup_ok_def pool_inv_def waiting_ok_def)

lemma no_lost_wakeup_witness:
  "let p = demo_pool (demo_submit @ demo_serve) in worker_at p 0 W_waiting \<and> tasks p = []"
proof -
  let ?p = "demo_pool (demo_submit @ demo_serve)"
  have r: "pool_reachable 1 ?p" by (rule demo_pool_reachable[OF demo_runs(2)])
  have w: "worker_at ?p 0 W_waiting" and z: "(\<Sum>s\<leftarrow>workers ?p. ready s) = 0" by (simp_all add: demo_eval)
  with no_lost_wakeup[OF r w] show ?thesis by (simp add: Let_def)
qed

text \<open>C33. The pool accounts for every task at every moment: the accepted tasks are the started
  ones followed by the queue, every started task has ended or is in the hands of exactly one
  worker, and \<open>activeCount\<close> is the number of workers that run a task or have just ended one.\<close>

theorem pool_accounts_for_tasks:
  assumes "pool_reachable n p" and "n < 2 ^ 64"
  shows "accepted p = started p @ tasks p \<and>
    mset (started p) = mset (finished p) + (\<Sum>s\<leftarrow>workers p. in_hand s) \<and>
    unat (activeCount p) = (\<Sum>s\<leftarrow>workers p. counted s)"
proof -
  note inv = pool_inv_reachable[OF assms(1)]
  have "(\<Sum>s\<leftarrow>workers p. counted s) < 2 ^ 64"
    using counted_bound[of "workers p"] inv assms(2) by (simp add: pool_inv_def)
  with inv assms(2) show ?thesis
    by (simp add: pool_inv_def tasks_ok_def active_ok_def activeCount_def unat_of_nat)
qed

lemma pool_accounts_for_tasks_witness:
  "let p = demo_pool (demo_submit @ replicate 3 (Work 0))
   in started p = [7] \<and> unat (activeCount p) = 1"
proof -
  let ?p = "demo_pool (demo_submit @ replicate 3 (Work 0))"
  have "pool_reachable 1 ?p" by (rule demo_pool_reachable) (simp add: demo_eval)
  moreover have "accepted ?p = [7]" "tasks ?p = []" "(\<Sum>s\<leftarrow>workers ?p. counted s) = 1"
    by (simp_all add: demo_eval)
  ultimately show ?thesis using pool_accounts_for_tasks[of 1 ?p] by (simp add: Let_def)
qed

end
