(* ===== verification/Win_Threads.thy ===== *)
theory Win_Threads
  imports Pool_Shutdown
begin

text \<open>
  The thread pool on the Windows branch of \<open>src/common/win32_threads.h\<close>. There the condition variable
  is a semaphore and a count of waiting threads: a notification adds tokens, and a worker inside
  \<open>WaitForSingleObject\<close> goes on when it gets one, so a token can be taken by a worker other than the one
  it was meant for and can outlive the waiter. Everything else of the pool is the code of the other branch,
  hence the steps of \<open>Thread_Pool\<close>.
\<close>

section \<open>The condition variable\<close>

text \<open>\<open>ReleaseSemaphore\<close> changes nothing when the count would pass the semaphore's maximum.\<close>

definition kSemaphoreMax :: nat where
  "kSemaphoreMax = 0x7FFFFFFF"

definition ReleaseSemaphore :: "nat \<Rightarrow> nat \<Rightarrow> nat" where
  "ReleaseSemaphore n held = (if 0 < n \<and> held + n \<le> kSemaphoreMax then held + n else held)"

record win_pool =
  base :: pool
  sema :: nat               \<comment> \<open>the count of \<open>sema_\<close>\<close>
  waiters :: "32 word"      \<comment> \<open>\<open>waiters_\<close>, a \<open>LONG\<close>\<close>

definition new_win_pool :: "nat \<Rightarrow> win_pool" where
  "new_win_pool numWorkers = \<lparr>base = new_pool numWorkers, sema = 0, waiters = 0\<rparr>"

definition cv_notify_one :: "win_pool \<Rightarrow> win_pool" where
  "cv_notify_one w = (if 0 <s waiters w then w\<lparr>sema := ReleaseSemaphore 1 (sema w)\<rparr> else w)"

definition cv_notify_all :: "win_pool \<Rightarrow> win_pool" where
  "cv_notify_all w =
     (if 0 <s waiters w then w\<lparr>sema := ReleaseSemaphore (nat (sint (waiters w))) (sema w)\<rparr> else w)"

section \<open>Steps\<close>

text \<open>
  \<open>enter\<close> to \<open>relock\<close> are \<open>CondVar::wait\<close>: the count goes up and the mutex is released, a token is taken,
  the mutex is taken again and the count goes down. \<open>Spurious i\<close> names the worker that gets a token.
\<close>

inductive win_step :: "win_pool \<Rightarrow> action \<Rightarrow> win_pool \<Rightarrow> bool" where
  enter: "worker_at (base w) i W_sleep \<Longrightarrow> pool_step (base w) (Work i) p \<Longrightarrow>
    win_step w (Work i) (w\<lparr>base := p, waiters := waiters w + 1\<rparr>)"
| token: "worker_at (base w) i W_waiting \<Longrightarrow> 0 < sema w \<Longrightarrow>
    win_step w (Spurious i) (w\<lparr>sema := sema w - 1, base := set_worker i W_woken (base w)\<rparr>)"
| relock: "worker_at (base w) i W_woken \<Longrightarrow> pool_step (base w) (Work i) p \<Longrightarrow>
    win_step w (Work i) (w\<lparr>base := p, waiters := waiters w - 1\<rparr>)"
| work: "worker_at (base w) i s \<Longrightarrow> s \<noteq> W_sleep \<Longrightarrow> s \<noteq> W_woken \<Longrightarrow> pool_step (base w) (Work i) p \<Longrightarrow>
    win_step w (Work i) (w\<lparr>base := p\<rparr>)"
| call: "pool_step (base w) (Call j t) p \<Longrightarrow> win_step w (Call j t) (w\<lparr>base := p\<rparr>)"
| push: "submitters (base w) j = Sub_ok t \<Longrightarrow>
    win_step w (Submit j None) (cv_notify_one (w\<lparr>base := set_submitter j Sub_notified
      (base w\<lparr>tasks := tasks (base w) @ [t], accepted := accepted (base w) @ [t]\<rparr>)\<rparr>))"
| submit: "\<forall>t. submitters (base w) j \<noteq> Sub_ok t \<Longrightarrow> pool_step (base w) (Submit j None) p \<Longrightarrow>
    win_step w (Submit j None) (w\<lparr>base := p\<rparr>)"
| notify: "closer_at (base w) = C_locked \<Longrightarrow>
    win_step w Close (cv_notify_all (w\<lparr>base := base w\<lparr>closer_at := C_notified\<rparr>\<rparr>))"
| close: "closer_at (base w) \<noteq> C_locked \<Longrightarrow> pool_step (base w) Close p \<Longrightarrow>
    win_step w Close (w\<lparr>base := p\<rparr>)"

inductive impl_reachable :: "('s \<Rightarrow> action \<Rightarrow> 's \<Rightarrow> bool) \<Rightarrow> 's \<Rightarrow> 's \<Rightarrow> bool" for move s0 where
  start: "impl_reachable move s0 s0"
| step: "impl_reachable move s0 s \<Longrightarrow> move s a s' \<Longrightarrow> impl_reachable move s0 s'"

abbreviation win_reachable :: "nat \<Rightarrow> win_pool \<Rightarrow> bool" where
  "win_reachable n \<equiv> impl_reachable win_step (new_win_pool n)"

section \<open>Runs\<close>

text \<open>The step of an action, computed.\<close>

fun win_perform :: "action \<Rightarrow> win_pool \<Rightarrow> win_pool option" where
  "win_perform (Work i) w =
     map_option (\<lambda>p. w\<lparr>base := p,
         waiters := (if worker_at (base w) i W_sleep then waiters w + 1
           else if worker_at (base w) i W_woken then waiters w - 1 else waiters w)\<rparr>)
       (perform (Work i) (base w))"
| "win_perform (Spurious i) w =
     (if worker_at (base w) i W_waiting \<and> 0 < sema w
      then Some (w\<lparr>sema := sema w - 1, base := set_worker i W_woken (base w)\<rparr>) else None)"
| "win_perform (Call j t) w = map_option (\<lambda>p. w\<lparr>base := p\<rparr>) (perform (Call j t) (base w))"
| "win_perform (Submit j c) w =
     (if c \<noteq> None then None
      else case submitters (base w) j of
          Sub_ok t \<Rightarrow> Some (cv_notify_one (w\<lparr>base := set_submitter j Sub_notified
            (base w\<lparr>tasks := tasks (base w) @ [t], accepted := accepted (base w) @ [t]\<rparr>)\<rparr>))
        | _ \<Rightarrow> map_option (\<lambda>p. w\<lparr>base := p\<rparr>) (perform (Submit j None) (base w)))"
| "win_perform Close w =
     (if closer_at (base w) = C_locked
      then Some (cv_notify_all (w\<lparr>base := base w\<lparr>closer_at := C_notified\<rparr>\<rparr>))
      else map_option (\<lambda>p. w\<lparr>base := p\<rparr>) (perform Close (base w)))"

lemma win_perform_step: "win_perform a w = Some w' \<Longrightarrow> win_step w a w'"
proof (cases a)
  case (Work i)
  assume "win_perform a w = Some w'"
  with Work obtain p where p: "perform (Work i) (base w) = Some p"
    "w' = w\<lparr>base := p, waiters := (if worker_at (base w) i W_sleep then waiters w + 1
       else if worker_at (base w) i W_woken then waiters w - 1 else waiters w)\<rparr>" by auto
  from p(1) obtain s where "worker_at (base w) i s" by (auto simp: pc_def split: if_splits)
  with p Work show ?thesis
    using win_step.enter[of w i p] win_step.relock[of w i p] win_step.work[of w i s p]
    by (auto simp: perform_iff split: if_splits)
next
  case (Submit j c)
  assume "win_perform a w = Some w'"
  with Submit show ?thesis
    by (cases "submitters (base w) j")
      (auto simp: perform_iff[symmetric] split: if_splits intro: win_step.push win_step.submit simp del: perform.simps)
next
  case (Spurious i)
  assume "win_perform a w = Some w'"
  with Spurious show ?thesis using win_step.token[of w i] by (auto split: if_splits)
qed (auto simp: perform_iff[symmetric] split: if_splits intro: win_step.intros simp del: perform.simps)

inductive win_run :: "win_pool \<Rightarrow> action list \<Rightarrow> win_pool \<Rightarrow> bool" where
  stop: "win_run w [] w"
| move: "win_step w a w' \<Longrightarrow> win_run w' as w'' \<Longrightarrow> win_run w (a # as) w''"

lemma win_run_append: "win_run w as w' \<Longrightarrow> win_run w' bs w'' \<Longrightarrow> win_run w (as @ bs) w''"
  by (induction rule: win_run.induct) (auto intro: win_run.move)

lemma win_run_reachable: "win_run w as w' \<Longrightarrow> win_reachable n w \<Longrightarrow> win_reachable n w'"
  by (induction rule: win_run.induct) (auto intro: impl_reachable.step)

text \<open>Runs from a list of actions.\<close>

fun win_actions :: "action list \<Rightarrow> win_pool \<Rightarrow> win_pool option" where
  "win_actions [] w = Some w"
| "win_actions (a # as) w = (case win_perform a w of None \<Rightarrow> None | Some w' \<Rightarrow> win_actions as w')"

lemma win_actions_run: "win_actions as w = Some w' \<Longrightarrow> win_run w as w'"
  by (induction as arbitrary: w) (auto intro: win_run.intros win_perform_step split: option.splits)

definition win_demo :: "action list \<Rightarrow> win_pool" where
  "win_demo as = the (win_actions as (new_win_pool 1))"

definition win_close :: "action list" where
  "win_close = [Close, Close, Close, Close, Spurious 0, Work 0, Work 0, Close]"

lemma win_demo_reachable:
  "win_actions as (new_win_pool 1) \<noteq> None \<Longrightarrow> win_reachable 1 (win_demo as)"
  using win_run_reachable[OF win_actions_run impl_reachable.start] by (force simp: win_demo_def)

lemma one_waiter: "ReleaseSemaphore (Suc 0) 0 = Suc 0" "0 <s (1 :: 32 word)"
  by (simp_all add: ReleaseSemaphore_def kSemaphoreMax_def word_sless_alt)

lemmas win_eval = demo_eval new_win_pool_def win_demo_def win_close_def cv_notify_one_def cv_notify_all_def
  one_waiter

section \<open>Implementations of the pool\<close>

text \<open>What a caller of the pool and the destructor that joins it can see.\<close>

definition observed :: "pool \<Rightarrow> nat list \<times> closer \<times> nat list \<times> nat list \<times> nat list \<times> nat list" where
  "observed p = (tasks p, closer_at p, accepted p, started p, finished p, rejected p)"

locale pool_implementation =
  fixes init :: "nat \<Rightarrow> 's" and move :: "'s \<Rightarrow> action \<Rightarrow> 's \<Rightarrow> bool"
    and view :: "'s \<Rightarrow> pool" and sim :: "'s \<Rightarrow> pool \<Rightarrow> bool"
  assumes sim_init: "sim (init n) (new_pool n)"
    and sim_step: "move s a s' \<Longrightarrow> sim s p \<Longrightarrow> \<exists>p'. (p' = p \<or> (\<exists>b. pool_step p b p')) \<and> sim s' p'"
    and sim_observed: "sim s p \<Longrightarrow> observed (view s) = observed p"
begin

lemma refines: "impl_reachable move (init n) s \<Longrightarrow> \<exists>p. pool_reachable n p \<and> sim s p"
proof (induction rule: impl_reachable.induct)
  case start
  show ?case using sim_init pool_reachable.start by blast
next
  case (step s a s')
  then obtain p where p: "pool_reachable n p" "sim s p" by blast
  from sim_step[OF step(2) p(2)] obtain p' where "p' = p \<or> (\<exists>b. pool_step p b p')" "sim s' p'" by blast
  with p(1) show ?case by (blast intro: pool_reachable.step)
qed

lemma completes:
  assumes "impl_reachable move (init n) s" and "0 < n" and "closer_at (view s) = C_done"
  shows "tasks (view s) = []" and "started (view s) = accepted (view s)"
    and "mset (finished (view s)) = mset (accepted (view s))"
proof -
  from refines[OF assms(1)] obtain p where p: "pool_reachable n p" "sim s p" by blast
  from sim_observed[OF p(2)] assms(3) completed_at_join[OF p(1) assms(2)]
  show "tasks (view s) = []" "started (view s) = accepted (view s)"
    "mset (finished (view s)) = mset (accepted (view s))" by (simp_all add: observed_def)
qed

end

interpretation posix: pool_implementation new_pool pool_step "\<lambda>p. p" "(=)"
  by unfold_locales blast+

section \<open>The simulation\<close>

text \<open>A worker that waits for its token may count as woken already.\<close>

definition behind :: "worker \<Rightarrow> worker \<Rightarrow> bool" where
  "behind s r \<longleftrightarrow> s = r \<or> s = W_waiting \<and> r = W_woken"

definition pool_like :: "pool \<Rightarrow> pool \<Rightarrow> bool" where
  "pool_like q p \<longleftrightarrow> list_all2 behind (workers q) (workers p) \<and> p = q\<lparr>workers := workers p\<rparr>"

lemma pool_like_frame:
  assumes "pool_like q p"
  shows "tasks p = tasks q" "mutex p = mutex q" "shutdownFlag p = shutdownFlag q"
    "activeTasks p = activeTasks q" "submitters p = submitters q" "closer_at p = closer_at q"
    "accepted p = accepted q" "started p = started q" "finished p = finished q" "rejected p = rejected q"
  using assms by (cases p; cases q; simp add: pool_like_def)+

lemma pool_like_refl: "pool_like p p"
  by (simp add: pool_like_def behind_def list.rel_refl)

lemma pool_like_pc:
  assumes "pool_like q p"
  shows "rel_option behind (pc q i) (pc p i)"
  using assms by (auto simp: pool_like_def pc_def list_all2_conv_all_nth)

lemma pool_like_same:
  assumes "pool_like q p" and "worker_at q i s"
  shows "s \<noteq> W_waiting \<Longrightarrow> worker_at p i s"
    and "s = W_waiting \<Longrightarrow> worker_at p i W_waiting \<or> worker_at p i W_woken"
  using pool_like_pc[OF assms(1), of i] assms(2) by (auto simp: behind_def option_rel_Some1)

lemma pool_like_set_worker:
  assumes "pool_like q p" and "behind s r"
  shows "pool_like (set_worker i s q) (set_worker i r p)"
  using assms by (cases p; cases q) (auto simp: pool_like_def set_worker_def intro: list_all2_update_cong)

lemma pool_like_updates:
  assumes "pool_like q p"
  shows "pool_like (q\<lparr>tasks := a\<rparr>) (p\<lparr>tasks := a\<rparr>)" "pool_like (q\<lparr>mutex := b\<rparr>) (p\<lparr>mutex := b\<rparr>)"
    "pool_like (q\<lparr>started := c\<rparr>) (p\<lparr>started := c\<rparr>)" "pool_like (q\<lparr>accepted := c\<rparr>) (p\<lparr>accepted := c\<rparr>)"
    "pool_like (q\<lparr>finished := c\<rparr>) (p\<lparr>finished := c\<rparr>)" "pool_like (q\<lparr>rejected := c\<rparr>) (p\<lparr>rejected := c\<rparr>)"
    "pool_like (q\<lparr>activeTasks := d\<rparr>) (p\<lparr>activeTasks := d\<rparr>)" "pool_like (q\<lparr>closer_at := e\<rparr>) (p\<lparr>closer_at := e\<rparr>)"
    "pool_like (q\<lparr>shutdownFlag := g\<rparr>) (p\<lparr>shutdownFlag := g\<rparr>)"
    "pool_like (set_submitter j u q) (set_submitter j u p)"
  using assms by (cases p; cases q; simp add: pool_like_def set_submitter_def)+

lemma behind_refl [simp]: "behind s s"
  by (simp add: behind_def)

lemmas pool_like_intros = pool_like_updates pool_like_set_worker behind_refl

lemma sim_work:
  assumes "pool_step q (Work i) q'" and "pool_like q p"
  shows "\<exists>p'. pool_step p (Work i) p' \<and> pool_like q' p'"
proof -
  note like = pool_like_frame[OF assms(2)] pool_like_same(1)[OF assms(2)]
  from assms(1) show ?thesis
  proof (cases rule: pool_step.cases)
    case lock
    then show ?thesis using assms(2) like by (fastforce intro: pool_step.lock pool_like_intros)
  next
    case wait
    then show ?thesis using assms(2) like by (fastforce intro: pool_step.wait pool_like_intros)
  next
    case sleep
    then show ?thesis using assms(2) like by (fastforce intro: pool_step.sleep pool_like_intros)
  next
    case leave
    then show ?thesis using assms(2) like by (fastforce intro: pool_step.leave pool_like_intros)
  next
    case (pop t ts)
    with like have "worker_at p i W_test" "tasks p = t # ts" by simp_all
    from pool_step.pop[OF this] show ?thesis using assms(2) pop like by (auto intro!: pool_like_intros)
  next
    case (begin_task t)
    with like have "worker_at p i (W_taken t)" by simp
    from pool_step.begin_task[OF this] show ?thesis using assms(2) begin_task like by (auto intro!: pool_like_intros)
  next
    case (end_task t)
    with like have "worker_at p i (W_running t)" by simp
    from pool_step.end_task[OF this] show ?thesis using assms(2) end_task like by (auto intro!: pool_like_intros)
  next
    case count_down
    with like have "worker_at p i W_finished" by simp
    from pool_step.count_down[OF this] show ?thesis using assms(2) count_down like by (auto intro!: pool_like_intros)
  qed
qed

lemma sim_call:
  assumes "pool_step q (Call j t) q'" and "pool_like q p"
  shows "\<exists>p'. pool_step p (Call j t) p' \<and> pool_like q' p'"
  using assms pool_like_frame[OF assms(2)]
  by (auto simp: pool_step_simps intro!: pool_like_intros)

lemma sim_submit:
  assumes "pool_step q (Submit j None) q'" and "pool_like q p" and "\<forall>t. submitters q j \<noteq> Sub_ok t"
  shows "\<exists>p'. pool_step p (Submit j None) p' \<and> pool_like q' p'"
  using assms pool_like_frame[OF assms(2)]
  by (auto simp: pool_step_simps intro!: pool_like_intros)

lemma sim_close:
  assumes "pool_step q Close q'" and "pool_like q p" and "closer_at q \<noteq> C_locked"
  shows "\<exists>p'. pool_step p Close p' \<and> pool_like q' p'"
proof -
  have "\<forall>s\<in>set (workers p). s = W_exited" if exited: "\<forall>s\<in>set (workers q). s = W_exited"
  proof
    fix s
    assume "s \<in> set (workers p)"
    moreover have "list_all2 behind (workers q) (workers p)" using assms(2) by (simp add: pool_like_def)
    ultimately obtain r where "r \<in> set (workers q)" "behind r s"
      by (metis in_set_conv_nth list_all2_conv_all_nth)
    with exited show "s = W_exited" by (auto simp: behind_def)
  qed
  note exited = this and like = pool_like_frame[OF assms(2)]
  from assms(1) show ?thesis
  proof (cases rule: pool_step.cases)
    case flag
    with like have "pool_step p Close (p\<lparr>shutdownFlag := True, closer_at := C_flagged\<rparr>)"
      by (simp add: pool_step.flag)
    with flag assms(2) show ?thesis by (auto intro: pool_like_updates)
  next
    case close_lock
    with like have "pool_step p Close (p\<lparr>mutex := Some Closer, closer_at := C_locked\<rparr>)"
      by (simp add: pool_step.close_lock)
    with close_lock assms(2) show ?thesis by (auto intro: pool_like_updates)
  next
    case close_unlock
    with like have "pool_step p Close (p\<lparr>mutex := None, closer_at := C_joining\<rparr>)"
      by (simp add: pool_step.close_unlock)
    with close_unlock assms(2) show ?thesis by (auto intro: pool_like_updates)
  next
    case join
    with like exited have "pool_step p Close (p\<lparr>closer_at := C_done\<rparr>)"
      by (simp add: pool_step.join)
    with join assms(2) show ?thesis by (auto intro: pool_like_updates)
  qed (use assms(3) in simp)
qed

text \<open>A notification leaves the Windows workers where they are; the simulating ones are woken.\<close>

lemma pool_like_wake_one:
  assumes "pool_like q p" and "notify_one c p = Some p'"
  shows "pool_like q p'"
  using assms(2)
proof (cases rule: notify_one_cases)
  case (woken i)
  with assms(1) have "worker_at q i W_waiting"
    using pool_like_pc[OF assms(1), of i] by (auto simp: behind_def option_rel_Some2)
  then have "set_worker i W_waiting q = q"
    by (cases q) (auto simp: set_worker_def pc_def list_update_same_conv split: if_splits)
  then show ?thesis using pool_like_set_worker[OF assms(1), of W_waiting W_woken i] woken(2)
    by (simp add: behind_def)
qed (use assms(1) in simp)

lemma pool_like_wake_all: "pool_like q p \<Longrightarrow> pool_like q (notify_all p)"
  by (cases p; cases q) (auto simp: pool_like_def notify_all_def wake_def behind_def list_all2_conv_all_nth)

lemma sim_push:
  assumes "submitters q j = Sub_ok t" and "pool_like q p"
  shows "\<exists>c p'. pool_step p (Submit j c) p' \<and>
    pool_like (set_submitter j Sub_notified (q\<lparr>tasks := tasks q @ [t], accepted := accepted q @ [t]\<rparr>)) p'"
proof -
  note like = pool_like_frame[OF assms(2)]
  let ?p = "p\<lparr>tasks := tasks p @ [t], accepted := accepted p @ [t]\<rparr>"
  obtain c r where r: "notify_one c ?p = Some r" using notify_one_total by blast
  have "pool_like (q\<lparr>tasks := tasks q @ [t], accepted := accepted q @ [t]\<rparr>) r"
    using r by (rule pool_like_wake_one[rotated]) (use assms(2) like in \<open>simp add: pool_like_updates\<close>)
  moreover have "pool_step p (Submit j c) (set_submitter j Sub_notified r)"
    using assms(1) like r by (auto intro!: pool_step.push)
  ultimately show ?thesis by (blast intro: pool_like_updates)
qed

lemma sim_token:
  assumes "worker_at q i W_waiting" and "pool_like q p"
  shows "\<exists>p'. (p' = p \<or> pool_step p (Spurious i) p') \<and> pool_like (set_worker i W_woken q) p'"
proof -
  have like: "pool_like (set_worker i W_woken q) (set_worker i W_woken p)"
    using assms(2) by (simp add: pool_like_intros)
  from pool_like_same(2)[OF assms(2,1) refl] show ?thesis
  proof
    assume "worker_at p i W_waiting"
    with like show ?thesis by (blast intro: pool_step.spurious)
  next
    assume "worker_at p i W_woken"
    then have "set_worker i W_woken p = p"
      by (cases p) (auto simp: set_worker_def pc_def list_update_same_conv split: if_splits)
    with like show ?thesis by auto
  qed
qed

lemma base_notify [simp]:
  "base (cv_notify_one w) = base w" "base (cv_notify_all w) = base w"
  by (simp_all add: cv_notify_one_def cv_notify_all_def)

lemma win_sim_step:
  assumes "win_step w a w'" and "pool_like (base w) p"
  shows "\<exists>p'. (p' = p \<or> (\<exists>b. pool_step p b p')) \<and> pool_like (base w') p'"
  using assms
proof (induction rule: win_step.induct)
  case (token w i)
  from sim_token[OF token(1,3)] show ?case by auto
next
  case (push w j t)
  from sim_push[OF push] show ?case by auto
next
  case (notify w)
  have "pool_step p Close (notify_all (p\<lparr>closer_at := C_notified\<rparr>))"
    using notify pool_like_frame[OF notify(2)] by (simp add: pool_step.notify)
  moreover have "pool_like (base w\<lparr>closer_at := C_notified\<rparr>) (notify_all (p\<lparr>closer_at := C_notified\<rparr>))"
    using notify(2) by (simp add: pool_like_wake_all pool_like_updates)
  ultimately show ?case by auto
next
  case (call w j t q)
  from sim_call[OF call] show ?case by auto
next
  case (submit w j q)
  from sim_submit[OF submit(2,3,1)] show ?case by auto
next
  case (close w q)
  from sim_close[OF close(2,3,1)] show ?case by auto
next
  case (work w i s q)
  from sim_work[OF work(4,5)] show ?case by auto
next
  case (enter w i q)
  from sim_work[OF enter(2,3)] show ?case by auto
next
  case (relock w i q)
  from sim_work[OF relock(2,3)] show ?case by auto
qed

interpretation windows: pool_implementation new_win_pool win_step base "\<lambda>w. pool_like (base w)"
proof unfold_locales
  show "pool_like (base (new_win_pool n)) (new_pool n)" for n
    by (simp add: new_win_pool_def pool_like_refl)
  show "\<exists>p'. (p' = p \<or> (\<exists>b. pool_step p b p')) \<and> pool_like (base w') p'"
    if "win_step w a w'" "pool_like (base w) p" for w a w' p
    using win_sim_step that .
  show "observed (base w) = observed p" if "pool_like (base w) p" for w p
    using pool_like_frame[OF that] by (simp add: observed_def)
qed

end
