(* ===== verification/Win_Shutdown.thy ===== *)
theory Win_Shutdown
  imports Win_Threads
begin

text \<open>
  What the semaphore guarantees: the count of waiting threads is right, no notification is lost although
  tokens can be taken by other workers, and a shutdown ends. The facts that do not depend on the condition
  variable come from the simulation.
\<close>

section \<open>What the simulation gives\<close>

lemma pool_like_iff:
  "pool_like q p \<Longrightarrow> s \<noteq> W_waiting \<Longrightarrow> s \<noteq> W_woken \<Longrightarrow> worker_at p i s \<longleftrightarrow> worker_at q i s"
  using pool_like_pc[of q p i] by (cases "pc q i"; cases "pc p i") (auto simp: behind_def)

lemma pool_like_length: "pool_like q p \<Longrightarrow> length (workers q) = length (workers p)"
  by (auto simp: pool_like_def dest: list_all2_lengthD)

lemma base_facts:
  assumes "win_reachable n w"
  shows "length (workers (base w)) = n" "sleep_ok (base w)" "owner_ok (base w)" "flag_ok (base w)"
    "pushing_ok (base w)"
proof -
  obtain p where p: "pool_reachable n p" "pool_like (base w) p"
    using windows.refines[OF assms] by blast
  from pool_inv_reachable[OF p(1)] have ok: "length (workers p) = n" "sleep_ok p" "flag_ok p" "pushing_ok p"
    by (simp_all add: pool_inv_def)
  note like = pool_like_frame[OF p(2)] pool_like_iff[OF p(2)]
  from ok(1) show "length (workers (base w)) = n" using pool_like_length[OF p(2)] by simp
  from ok(2) show "sleep_ok (base w)" using like by (simp add: sleep_ok_def)
  from owner_ok_reachable[OF p(1)] show "owner_ok (base w)" using like
    by (simp add: owner_ok_def split: option.splits owner.splits)
  from ok(3) show "flag_ok (base w)" using like by (simp add: flag_ok_def)
  from ok(4) show "pushing_ok (base w)" using like by (simp add: pushing_ok_def)
qed

section \<open>Tokens\<close>

definition blocked :: "worker \<Rightarrow> nat" where
  "blocked s = (if s = W_waiting then 1 else 0)"

definition registered :: "worker \<Rightarrow> nat" where
  "registered s = (if s = W_waiting \<or> s = W_woken then 1 else 0)"

lemma token_simps [simp]:
  "blocked W_waiting = 1" "s \<noteq> W_waiting \<Longrightarrow> blocked s = 0"
  "registered W_waiting = 1" "registered W_woken = 1"
  "s \<noteq> W_waiting \<Longrightarrow> s \<noteq> W_woken \<Longrightarrow> registered s = 0"
  by (simp_all add: blocked_def registered_def)

lemma blocked_pos:
  assumes "worker_at p i W_waiting"
  shows "0 < (\<Sum>s\<leftarrow>workers p. blocked s)"
proof -
  from assms have "i < length (workers p)" "workers p ! i = W_waiting" by (auto simp: pc_def split: if_splits)
  then show ?thesis by (metis blocked_def elem_le_sum_list length_map not_gr_zero nth_map le_zero_eq zero_neq_one)
qed

lemma blocked_le_registered: "(\<Sum>s\<leftarrow>ws. blocked s) \<le> (\<Sum>s\<leftarrow>ws. registered s)"
  by (rule sum_list_mono) (simp add: blocked_def registered_def)

lemma registered_bound: "(\<Sum>s\<leftarrow>ws. registered s) \<le> length ws"
proof (induction ws)
  case (Cons s ws)
  then show ?case by (simp add: registered_def)
qed simp

definition waiters_ok :: "win_pool \<Rightarrow> bool" where
  "waiters_ok w \<longleftrightarrow> waiters w = of_nat (\<Sum>s\<leftarrow>workers (base w). registered s) \<and> sema w \<le> kSemaphoreMax"

definition tokens_ok :: "win_pool \<Rightarrow> bool" where
  "tokens_ok w \<longleftrightarrow>
     (closer_at (base w) \<in> {C_notified, C_joining, C_done} \<longrightarrow> (\<Sum>s\<leftarrow>workers (base w). blocked s) \<le> sema w)"

definition win_wakeup_ok :: "win_pool \<Rightarrow> bool" where
  "win_wakeup_ok w \<longleftrightarrow>
     (\<Sum>s\<leftarrow>workers (base w). blocked s) \<le> sema w \<or>
     length (tasks (base w)) \<le> (\<Sum>s\<leftarrow>workers (base w). ready s) + sema w"

text \<open>The sums after a step of worker \<open>i\<close>.\<close>

lemma worker_sums:
  assumes "worker_at p i s"
  shows "(\<Sum>s\<leftarrow>workers (set_worker i r p). blocked s) + blocked s = (\<Sum>s\<leftarrow>workers p. blocked s) + blocked r"
    and "(\<Sum>s\<leftarrow>workers (set_worker i r p). registered s) + registered s = (\<Sum>s\<leftarrow>workers p. registered s) + registered r"
    and "(\<Sum>s\<leftarrow>workers (set_worker i r p). ready s) + ready s = (\<Sum>s\<leftarrow>workers p. ready s) + ready r"
  by (rule sum_list_set_worker[OF assms])+

text \<open>A step of a worker that neither goes to sleep nor waits.\<close>

lemma work_tokens:
  assumes "pool_step p (Work i) p'" and "worker_at p i s" and "s \<noteq> W_sleep"
  shows "(\<Sum>s\<leftarrow>workers p'. blocked s) = (\<Sum>s\<leftarrow>workers p. blocked s)"
    and "(\<Sum>s\<leftarrow>workers p'. registered s) + registered s = (\<Sum>s\<leftarrow>workers p. registered s)"
    and "length (tasks p') + (\<Sum>s\<leftarrow>workers p. ready s) \<le> length (tasks p) + (\<Sum>s\<leftarrow>workers p'. ready s)
      \<or> tasks p' = []"
    and "closer_at p' = closer_at p"
  using assms worker_sums[OF assms(2), of W_test] worker_sums[OF assms(2), of W_sleep]
    worker_sums[OF assms(2), of W_exited] worker_sums[OF assms(2), of "W_taken t" for t]
    worker_sums[OF assms(2), of "W_running t" for t] worker_sums[OF assms(2), of W_finished]
    worker_sums[OF assms(2), of W_lock]
  by (cases rule: pool_step.cases; fastforce)+

lemma sleep_tokens:
  assumes "worker_at p i W_sleep" and "pool_step p (Work i) p'"
  shows "p' = set_worker i W_waiting (p\<lparr>mutex := None\<rparr>)"
  using assms(2,1) by (cases rule: pool_step.cases) simp_all

lemma cv_frame [simp]:
  "waiters (cv_notify_one w) = waiters w" "waiters (cv_notify_all w) = waiters w"
  by (simp_all add: cv_notify_one_def cv_notify_all_def)

lemma sema_notify_le:
  "sema w \<le> kSemaphoreMax \<Longrightarrow> sema (cv_notify_one w) \<le> kSemaphoreMax"
  "sema w \<le> kSemaphoreMax \<Longrightarrow> sema (cv_notify_all w) \<le> kSemaphoreMax"
  by (simp_all add: cv_notify_one_def cv_notify_all_def ReleaseSemaphore_def)

text \<open>Steps that touch neither the workers nor the queue.\<close>

definition quiet :: "pool \<Rightarrow> pool \<Rightarrow> bool" where
  "quiet p p' \<longleftrightarrow> workers p' = workers p \<and> tasks p' = tasks p \<and>
     (closer_at p' \<in> {C_notified, C_joining, C_done} \<longrightarrow> closer_at p \<in> {C_notified, C_joining, C_done})"

lemma quietD:
  assumes "quiet p p'"
  shows "workers p' = workers p" and "tasks p' = tasks p"
    and "closer_at p' \<in> {C_notified, C_joining, C_done} \<Longrightarrow> closer_at p \<in> {C_notified, C_joining, C_done}"
  using assms by (simp_all add: quiet_def)

lemma quiet_call: "pool_step p (Call j t) p' \<Longrightarrow> quiet p p'"
  by (auto simp: pool_step_simps quiet_def)

lemma quiet_submit: "pool_step p (Submit j c) p' \<Longrightarrow> \<forall>t. submitters p j \<noteq> Sub_ok t \<Longrightarrow> quiet p p'"
  by (cases "submitters p j") (auto simp: pool_step_simps quiet_def)

lemma quiet_close: "pool_step p Close p' \<Longrightarrow> closer_at p \<noteq> C_locked \<Longrightarrow> quiet p p'"
  by (cases "closer_at p") (auto simp: pool_step_simps quiet_def)

lemma waiters_ok_step:
  assumes "win_step w a w'" and "waiters_ok w"
  shows "waiters_ok w'"
  using assms
proof (induction rule: win_step.induct)
  case (enter w i p)
  with sleep_tokens[OF enter(1,2)] worker_sums(2)[OF enter(1), of W_waiting] show ?case
    by (simp add: waiters_ok_def)
next
  case (token w i)
  with worker_sums(2)[OF token(1), of W_woken] show ?case by (auto simp: waiters_ok_def)
next
  case (relock w i p)
  have "(\<Sum>s\<leftarrow>workers (base w). registered s) = (\<Sum>s\<leftarrow>workers p. registered s) + 1"
    using work_tokens(2)[OF relock(2,1)] by simp
  then have "(of_nat (\<Sum>s\<leftarrow>workers (base w). registered s) :: 32 word) =
      of_nat (\<Sum>s\<leftarrow>workers p. registered s) + 1"
    by (simp only: of_nat_add of_nat_1)
  with relock(3) show ?case by (simp add: waiters_ok_def)
next
  case (work w i s p)
  show ?case
  proof (cases "s = W_waiting")
    case True
    with work show ?thesis by (auto simp: pool_step_simps)
  next
    case False
    with work work_tokens(2)[OF work(4,1,2)] show ?thesis by (simp add: waiters_ok_def)
  qed
next
  case (submit w j p)
  then show ?case using quietD[OF quiet_submit[OF submit(2,1)]] by (simp add: waiters_ok_def)
next
  case (close w p)
  then show ?case using quietD[OF quiet_close[OF close(2,1)]] by (simp add: waiters_ok_def)
next
  case (call w j t p)
  then show ?case using quietD[OF quiet_call[OF call(1)]] by (simp add: waiters_ok_def)
qed (simp_all add: waiters_ok_def sema_notify_le)

lemma waiters_ok_reachable: "win_reachable n w \<Longrightarrow> waiters_ok w"
proof (induction rule: impl_reachable.induct)
  case start
  show ?case by (simp add: waiters_ok_def new_win_pool_def new_pool_def sum_list_replicate)
qed (rule waiters_ok_step)

section \<open>Notifications\<close>

text \<open>With at most \<open>2 ^ 30\<close> workers the counter does not overflow, and a notification that the semaphore refuses
  is one for which there are tokens enough.\<close>

lemma waiters_value:
  assumes "waiters_ok w" and "length (workers (base w)) \<le> 2 ^ 30"
  shows "sint (waiters w) = int (\<Sum>s\<leftarrow>workers (base w). registered s)"
    and "0 <s waiters w \<longleftrightarrow> 0 < (\<Sum>s\<leftarrow>workers (base w). registered s)"
proof -
  let ?n = "\<Sum>s\<leftarrow>workers (base w). registered s"
  have n: "?n \<le> 2 ^ 30" using registered_bound[of "workers (base w)"] assms(2) by linarith
  have "sint (of_nat ?n :: 32 word) = int ?n"
    using n by (simp add: sint_uint unsigned_of_nat take_bit_nat_eq_self signed_take_bit_int_eq_self of_nat_take_bit[symmetric])
  then show s: "sint (waiters w) = int ?n" using assms(1) by (simp add: waiters_ok_def)
  show "0 <s waiters w \<longleftrightarrow> 0 < ?n" by (simp add: word_sless_alt s)
qed

lemma notify_all_tokens:
  assumes "waiters_ok w" and "length (workers (base w)) \<le> 2 ^ 30"
  shows "(\<Sum>s\<leftarrow>workers (base w). blocked s) \<le> sema (cv_notify_all w)"
proof -
  let ?n = "\<Sum>s\<leftarrow>workers (base w). registered s"
  have b: "(\<Sum>s\<leftarrow>workers (base w). blocked s) \<le> ?n" by (rule blocked_le_registered)
  have n: "?n \<le> 2 ^ 30" using registered_bound[of "workers (base w)"] assms(2) by linarith
  show ?thesis
  proof (cases "?n = 0")
    case True
    with b have "(\<Sum>s\<leftarrow>workers (base w). blocked s) = 0" by linarith
    then show ?thesis by (simp only: le0)
  next
    case False
    then have "0 <s waiters w" using waiters_value(2)[OF assms] by (metis neq0_conv)
    then have "sema (cv_notify_all w) = ReleaseSemaphore ?n (sema w)"
      using waiters_value(1)[OF assms] by (simp only: cv_notify_all_def) simp
    with False b n show ?thesis by (auto simp: ReleaseSemaphore_def kSemaphoreMax_def)
  qed
qed

lemma notify_one_tokens:
  assumes "waiters_ok w" and "length (workers (base w)) \<le> 2 ^ 30"
  shows "(\<Sum>s\<leftarrow>workers (base w). blocked s) \<le> sema (cv_notify_one w) \<or> sema (cv_notify_one w) = sema w + 1"
proof (cases "(\<Sum>s\<leftarrow>workers (base w). registered s) = 0")
  case True
  with blocked_le_registered[of "workers (base w)"]
  have "(\<Sum>s\<leftarrow>workers (base w). blocked s) = 0" by linarith
  then show ?thesis by (simp only: le0 simp_thms)
next
  case False
  then have "0 <s waiters w" using waiters_value(2)[OF assms] by (metis neq0_conv)
  then have "sema (cv_notify_one w) = ReleaseSemaphore 1 (sema w)" by (simp add: cv_notify_one_def)
  moreover have "(\<Sum>s\<leftarrow>workers (base w). blocked s) \<le> 2 ^ 30"
    using blocked_le_registered[of "workers (base w)"] registered_bound[of "workers (base w)"] assms(2)
    by linarith
  ultimately show ?thesis by (auto simp: ReleaseSemaphore_def kSemaphoreMax_def)
qed

lemma tokens_ok_step:
  assumes "win_step w a w'" and "tokens_ok w" and "waiters_ok w" and "sleep_ok (base w)"
    and "length (workers (base w)) \<le> 2 ^ 30"
  shows "tokens_ok w'"
  using assms
proof (induction rule: win_step.induct)
  case (enter w i p)
  then show ?case using sleep_tokens[OF enter(1,2)] by (auto simp: tokens_ok_def sleep_ok_def)
next
  case (token w i)
  then show ?case using worker_sums(1)[OF token(1), of W_woken] by (auto simp: tokens_ok_def)
next
  case (relock w i p)
  then show ?case using work_tokens[OF relock(2,1)] by (simp add: tokens_ok_def)
next
  case (work w i s p)
  then show ?case using work_tokens(1,4)[OF work(4,1,2)] by (simp add: tokens_ok_def)
next
  case (push w j t)
  let ?w = "w\<lparr>base := set_submitter j Sub_notified
      (base w\<lparr>tasks := tasks (base w) @ [t], accepted := accepted (base w) @ [t]\<rparr>)\<rparr>"
  have "sema w \<le> sema (cv_notify_one ?w)" by (simp add: cv_notify_one_def ReleaseSemaphore_def)
  with push show ?case by (auto simp: tokens_ok_def)
next
  case (notify w)
  show ?case using notify_all_tokens[of "w\<lparr>base := base w\<lparr>closer_at := C_notified\<rparr>\<rparr>"] notify
    by (simp add: tokens_ok_def waiters_ok_def)
next
  case (call w j t p)
  then show ?case using quietD[OF quiet_call[OF call(1)]] by (auto simp: tokens_ok_def)
next
  case (submit w j p)
  then show ?case using quietD[OF quiet_submit[OF submit(2,1)]] by (auto simp: tokens_ok_def)
next
  case (close w p)
  then show ?case using quietD[OF quiet_close[OF close(2,1)]] by (auto simp: tokens_ok_def)
qed

lemma win_wakeup_ok_step:
  assumes "win_step w a w'" and "win_wakeup_ok w" and "waiters_ok w" and "sleep_ok (base w)"
    and "length (workers (base w)) \<le> 2 ^ 30"
  shows "win_wakeup_ok w'"
  using assms
proof (induction rule: win_step.induct)
  case (enter w i p)
  then show ?case using sleep_tokens[OF enter(1,2)] by (auto simp: win_wakeup_ok_def sleep_ok_def)
next
  case (token w i)
  then show ?case using worker_sums(1,3)[OF token(1), of W_woken] by (auto simp: win_wakeup_ok_def)
next
  case (relock w i p)
  then show ?case using work_tokens(1,3)[OF relock(2,1)] by (auto simp: win_wakeup_ok_def)
next
  case (work w i s p)
  then show ?case using work_tokens(1,3)[OF work(4,1,2)] by (auto simp: win_wakeup_ok_def)
next
  case (push w j t)
  show ?case using push notify_one_tokens[of "w\<lparr>base := set_submitter j Sub_notified
      (base w\<lparr>tasks := tasks (base w) @ [t], accepted := accepted (base w) @ [t]\<rparr>)\<rparr>"]
    by (auto simp: win_wakeup_ok_def waiters_ok_def)
next
  case (notify w)
  show ?case using notify_all_tokens[of "w\<lparr>base := base w\<lparr>closer_at := C_notified\<rparr>\<rparr>"] notify
    by (simp add: win_wakeup_ok_def waiters_ok_def)
next
  case (call w j t p)
  then show ?case using quietD[OF quiet_call[OF call(1)]] by (simp add: win_wakeup_ok_def)
next
  case (submit w j p)
  then show ?case using quietD[OF quiet_submit[OF submit(2,1)]] by (simp add: win_wakeup_ok_def)
next
  case (close w p)
  then show ?case using quietD[OF quiet_close[OF close(2,1)]] by (simp add: win_wakeup_ok_def)
qed

lemma win_ok_reachable:
  assumes "win_reachable n w" and "n \<le> 2 ^ 30"
  shows "tokens_ok w" and "win_wakeup_ok w"
proof -
  from assms(1) have "tokens_ok w \<and> win_wakeup_ok w"
  proof (induction rule: impl_reachable.induct)
    case start
    show ?case by (simp add: tokens_ok_def win_wakeup_ok_def new_win_pool_def new_pool_def)
  next
    case (step w a w')
    have "length (workers (base w)) \<le> 2 ^ 30" using base_facts(1)[OF step(1)] assms(2) by simp
    with step tokens_ok_step[OF step(2) _ waiters_ok_reachable[OF step(1)] base_facts(2)[OF step(1)]]
      win_wakeup_ok_step[OF step(2) _ waiters_ok_reachable[OF step(1)] base_facts(2)[OF step(1)]]
    show ?case by blast
  qed
  then show "tokens_ok w" and "win_wakeup_ok w" by simp_all
qed

section \<open>Shutting down\<close>

text \<open>But for notifications, the steps are those of the pool with a waiting worker woken by its token.\<close>

lemma win_step_base:
  assumes "win_step w a w'" and "\<And>j t. submitters (base w) j \<noteq> Sub_ok t" and "closer_at (base w) \<noteq> C_locked"
  shows "pool_step (base w) a (base w')"
  using assms by (cases rule: win_step.cases) (auto intro: pool_step.spurious)

lemma win_joining_facts:
  assumes "win_reachable n w" and "joining (base w)"
  shows "shutdownFlag (base w)" and "pc (base w) i \<noteq> Some W_sleep" and "submitters (base w) j \<noteq> Sub_ok t"
    and "closer_at (base w) \<noteq> C_locked"
  using base_facts(2,4,5)[OF assms(1)] assms(2)
  by (auto simp: joining_def sleep_ok_def flag_ok_def pushing_ok_def)

lemma win_joining_step:
  assumes "win_step w a w'" and "win_reachable n w" and "joining (base w)"
  shows "joining (base w') \<and>
    (if by_pool a then steps_left (base w') < steps_left (base w) else steps_left (base w') = steps_left (base w))"
  using joining_measure[OF win_step_base[OF assms(1)] _ _ assms(3)] win_joining_facts[OF assms(2,3)] by blast

lemma win_joining_run:
  assumes "win_run w as w'" and "win_reachable n w" and "joining (base w)"
  shows "length (filter by_pool as) + steps_left (base w') \<le> steps_left (base w)"
  using assms
proof (induction rule: win_run.induct)
  case (move w a w' as w'')
  note s = win_joining_step[OF move(1,4,5)]
  have "win_reachable n w'" using move(4,1) by (rule impl_reachable.step)
  with move(3) s show ?case by (auto split: if_splits)
qed simp

lemma win_work:
  assumes "pool_step (base w) (Work i) p"
  shows "\<exists>w'. win_step w (Work i) w'"
proof -
  from assms obtain s where "worker_at (base w) i s" by (auto simp: pool_step_simps)
  with assms show ?thesis by (cases "s = W_sleep"; cases "s = W_woken") (auto intro: win_step.intros)
qed

text \<open>While the closer joins, somebody can move.\<close>

lemma win_joining_moves:
  assumes "win_reachable n w" and "n \<le> 2 ^ 30" and "closer_at (base w) = C_joining"
  shows "\<exists>a w'. win_step w a w' \<and> (by_pool a \<or> (\<exists>j. mutex (base w) = Some (Submitter j)) \<and>
    mutex (base w') = None \<and> closer_at (base w') = C_joining)"
proof -
  have j: "joining (base w)" using assms(3) by (simp add: joining_def)
  note facts = win_joining_facts[OF assms(1) j]
  show ?thesis
  proof (cases "mutex (base w)")
    case (Some m)
    show ?thesis
    proof (cases m)
      case (Worker i)
      with base_facts(3)[OF assms(1)] Some facts(2) have "worker_at (base w) i W_test"
        by (auto simp: owner_ok_def)
      then obtain p where "pool_step (base w) (Work i) p"
        using worker_can_move[of "base w" i W_test] by auto
      from win_work[OF this] show ?thesis by (force simp: by_pool_def)
    next
      case (Submitter k)
      with base_facts(3)[OF assms(1)] Some have "holds_mutex (submitters (base w) k)"
        by (simp add: owner_ok_def)
      with facts(3)[of k] consider t where "submitters (base w) k = Sub_locked t"
        | "submitters (base w) k = Sub_notified" by (cases "submitters (base w) k") auto
      then obtain p where "pool_step (base w) (Submit k None) p" "mutex p = None"
        "closer_at p = C_joining"
        using assms(3) by cases (force dest: pool_step.reject[OF _ facts(1)] pool_step.sub_unlock)+
      with facts(3) Some Submitter show ?thesis by (force intro: win_step.submit)
    next
      case Closer
      with base_facts(3)[OF assms(1)] Some assms(3) show ?thesis by (simp add: owner_ok_def)
    qed
  next
    case None
    show ?thesis
    proof (cases "\<forall>s\<in>set (workers (base w)). s = W_exited")
      case True
      from pool_step.join[OF assms(3) True] show ?thesis
        using win_step.close[of w] assms(3) by (force simp: by_pool_def)
    next
      case False
      then obtain i where i: "i < length (workers (base w))" "workers (base w) ! i \<noteq> W_exited"
        by (auto simp: in_set_conv_nth)
      then have w: "worker_at (base w) i (workers (base w) ! i)" by (simp add: pc_def)
      show ?thesis
      proof (cases "workers (base w) ! i = W_waiting")
        case True
        with blocked_pos[of "base w" i] w have "0 < (\<Sum>s\<leftarrow>workers (base w). blocked s)" by simp
        then have "0 < sema w"
          using win_ok_reachable(1)[OF assms(1,2)] assms(3) by (simp add: tokens_ok_def)
        with w True show ?thesis by (force intro: win_step.token simp: by_pool_def)
      next
        case False
        from worker_can_move[OF w False i(2) None] obtain p where "pool_step (base w) (Work i) p" by blast
        from win_work[OF this] show ?thesis by (force simp: by_pool_def)
      qed
    qed
  qed
qed

lemma win_joining_finishes:
  assumes "win_reachable n w" and "n \<le> 2 ^ 30" and "closer_at (base w) = C_joining"
  shows "\<exists>as w'. win_run w as w' \<and> closer_at (base w') = C_done"
  using assms
proof (induction "steps_left (base w)" arbitrary: w rule: less_induct)
  case less
  have next_step: "\<exists>as w'. win_run r as w' \<and> closer_at (base w') = C_done"
    if r: "win_reachable n r" "joining (base r)" "steps_left (base r) < steps_left (base w)" for r
  proof (cases "closer_at (base r) = C_done")
    case False
    with r(2) have "closer_at (base r) = C_joining" by (simp add: joining_def)
    with less.hyps[OF r(3,1) less.prems(2)] show ?thesis by simp
  qed (blast intro: win_run.stop)
  have pool: "\<exists>as w'. win_run r as w' \<and> closer_at (base w') = C_done"
    if r: "win_step r a r'" "by_pool a" "win_reachable n r" "joining (base r)" "steps_left (base r) = steps_left (base w)"
    for r a r'
  proof -
    have "win_reachable n r'" using r(3,1) by (rule impl_reachable.step)
    with next_step[of r'] win_joining_step[OF r(1,3,4)] r(2,5) show ?thesis
      by (auto intro: win_run.move[OF r(1)])
  qed
  have j: "joining (base w)" using less.prems(3) by (simp add: joining_def)
  obtain a w' where w': "win_step w a w'"
    "by_pool a \<or> mutex (base w') = None \<and> closer_at (base w') = C_joining"
    using win_joining_moves[OF less.prems] by blast
  show ?case
  proof (cases "by_pool a")
    case True
    with pool[OF w'(1) _ less.prems(1) j] show ?thesis by simp
  next
    case False
    with win_joining_step[OF w'(1) less.prems(1) j]
    have s: "joining (base w')" "steps_left (base w') = steps_left (base w)" by simp_all
    have reach: "win_reachable n w'" using less.prems(1) w'(1) by (rule impl_reachable.step)
    from w'(2) False have "mutex (base w') = None" "closer_at (base w') = C_joining" by simp_all
    with win_joining_moves[OF reach less.prems(2)] obtain b w''
      where "win_step w' b w''" "by_pool b" by auto
    from pool[OF this reach s] w'(1) show ?thesis by (blast intro: win_run.move)
  qed
qed

text \<open>From any state the closer can come to joining: the mutex can be released, and then it takes it.\<close>

lemma win_submitter_releases:
  assumes "holds_mutex (submitters (base w) j)" and "shutdownFlag (base w)"
  shows "\<exists>as w'. win_run w as w' \<and> mutex (base w') = None \<and> closer_at (base w') = closer_at (base w)"
proof -
  have unlock: "\<exists>as w'. win_run r as w' \<and> mutex (base w') = None \<and> closer_at (base w') = closer_at (base r)"
    if r: "submitters (base r) j = Sub_notified" for r
  proof -
    have "win_step r (Submit j None) (r\<lparr>base := set_submitter j Sub_idle (base r\<lparr>mutex := None\<rparr>)\<rparr>)"
      using r by (intro win_step.submit pool_step.sub_unlock) simp_all
    from win_run.move[OF this win_run.stop] show ?thesis by force
  qed
  consider t where "submitters (base w) j = Sub_locked t" | t where "submitters (base w) j = Sub_ok t"
    | "submitters (base w) j = Sub_notified"
    using assms(1) by (cases "submitters (base w) j") auto
  then show ?thesis
  proof cases
    case (1 t)
    have "win_step w (Submit j None) (w\<lparr>base := set_submitter j Sub_idle
        (base w\<lparr>mutex := None, rejected := rejected (base w) @ [t]\<rparr>)\<rparr>)"
      using 1 assms(2) by (intro win_step.submit pool_step.reject) simp_all
    from win_run.move[OF this win_run.stop] show ?thesis by force
  next
    case (2 t)
    obtain r where r: "win_step w (Submit j None) r" "submitters (base r) j = Sub_notified"
      "closer_at (base r) = closer_at (base w)"
      using win_step.push[OF 2] by force
    from unlock[OF r(2)] r show ?thesis by (auto intro: win_run.move)
  qed (use unlock in blast)
qed

lemma win_mutex_can_be_released:
  assumes "win_reachable n w" and "closer_at (base w) = C_flagged"
  shows "\<exists>as w'. win_run w as w' \<and> mutex (base w') = None \<and> closer_at (base w') = C_flagged"
proof (cases "mutex (base w)")
  case None
  with assms(2) show ?thesis by (blast intro: win_run.stop)
next
  case (Some m)
  have flag: "shutdownFlag (base w)" using base_facts(4)[OF assms(1)] assms(2) by (simp add: flag_ok_def)
  note owner = base_facts(3)[OF assms(1)] Some
  show ?thesis
  proof (cases m)
    case (Worker i)
    with owner have "worker_at (base w) i W_test \<or> worker_at (base w) i W_sleep" by (simp add: owner_ok_def)
    then show ?thesis
    proof
      assume i: "worker_at (base w) i W_sleep"
      from win_step.enter[OF i pool_step.sleep[OF i]] assms(2) show ?thesis
        by (force intro: win_run.move win_run.stop)
    next
      assume i: "worker_at (base w) i W_test"
      obtain p where "pool_step (base w) (Work i) p" "mutex p = None" "closer_at p = C_flagged"
      proof (cases "tasks (base w)")
        case Nil
        with assms(2) show thesis by (intro that[OF pool_step.leave[OF i flag Nil]]) simp_all
      next
        case (Cons t ts)
        with assms(2) show thesis by (intro that[OF pool_step.pop[OF i Cons]]) simp_all
      qed
      with win_step.work[OF i] show ?thesis by (force intro: win_run.move win_run.stop)
    qed
  next
    case (Submitter j)
    with owner have "holds_mutex (submitters (base w) j)" by (simp add: owner_ok_def)
    from win_submitter_releases[OF this flag] assms(2) show ?thesis by simp
  next
    case Closer
    with owner assms(2) show ?thesis by (simp add: owner_ok_def)
  qed
qed

lemma win_close_step:
  assumes "win_step w Close w'" and "\<exists>as w''. win_run w' as w'' \<and> closer_at (base w'') = C_joining"
  shows "\<exists>as w''. win_run w as w'' \<and> closer_at (base w'') = C_joining"
  using assms by (blast intro: win_run.move)

lemma win_reach_joining:
  assumes "win_reachable n w" and "closer_at (base w) \<noteq> C_done"
  shows "\<exists>as w'. win_run w as w' \<and> closer_at (base w') = C_joining"
proof -
  have J: "\<exists>as w'. win_run r as w' \<and> closer_at (base w') = C_joining" if "closer_at (base r) = C_joining" for r
    using that by (blast intro: win_run.stop)
  have C: "\<exists>as w'. win_run r as w' \<and> closer_at (base w') = C_joining" if "closer_at (base r) = C_notified" for r
    by (rule win_close_step[OF win_step.close[OF _ pool_step.close_unlock[OF that]]], use that in simp, rule J) simp
  have L: "\<exists>as w'. win_run r as w' \<and> closer_at (base w') = C_joining" if "closer_at (base r) = C_locked" for r
    by (rule win_close_step[OF win_step.notify[OF that]], rule C) simp
  have F: "\<exists>as w'. win_run r as w' \<and> closer_at (base w') = C_joining"
    if r: "win_reachable n r" "closer_at (base r) = C_flagged" for r
  proof -
    obtain as q where q: "win_run r as q" "mutex (base q) = None" "closer_at (base q) = C_flagged"
      using win_mutex_can_be_released[OF r] by blast
    have "\<exists>as w'. win_run q as w' \<and> closer_at (base w') = C_joining"
      by (rule win_close_step[OF win_step.close[OF _ pool_step.close_lock[OF q(3,2)]]], use q(3) in simp, rule L) simp
    with win_run_append[OF q(1)] show ?thesis by blast
  qed
  show ?thesis
  proof (cases "closer_at (base w)")
    case C_idle
    then have "\<not> shutdownFlag (base w)" using base_facts(4)[OF assms(1)] by (simp add: flag_ok_def)
    from win_step.close[OF _ pool_step.flag[OF C_idle this]] C_idle
    have s: "win_step w Close (w\<lparr>base := base w\<lparr>shutdownFlag := True, closer_at := C_flagged\<rparr>\<rparr>)" by simp
    show ?thesis by (rule win_close_step[OF s], rule F[OF impl_reachable.step[OF assms(1) s]]) simp
  qed (use F[OF assms(1)] L C J assms(2) in auto)
qed

section \<open>Properties\<close>

text \<open>C8. The semaphore of the Windows branch keeps the promises of the pool: whatever an interleaving of the
  Windows threads does to queue, histories and closer, an interleaving of the pool with
  condition variables does too, and when \<open>shutdown\<close> has joined a pool of at least one worker, every accepted
  task has been run to its end exactly once, in the order of the queue.\<close>

theorem windows_pool_refines:
  assumes "impl_reachable win_step (new_win_pool n) w"
  shows "(\<exists>p. pool_reachable n p \<and> observed p = observed (base w)) \<and>
    (0 < n \<and> closer_at (base w) = C_done \<longrightarrow> tasks (base w) = [] \<and>
       started (base w) = accepted (base w) \<and> mset (finished (base w)) = mset (accepted (base w)))"
proof (intro conjI impI)
  from windows.refines[OF assms] obtain p where "pool_reachable n p" "pool_like (base w) p" by blast
  with windows.sim_observed show "\<exists>p. pool_reachable n p \<and> observed p = observed (base w)" by metis
qed (use windows.completes[OF assms] in simp_all)

text \<open>One worker serves task 7 and goes to sleep; \<open>shutdown\<close> gives it a token and joins it.\<close>

theorem windows_pool_refines_witness:
  "let w = win_demo (demo_submit @ demo_serve @ win_close) in tasks (base w) = [] \<and> started (base w) = [7]"
proof -
  let ?w = "win_demo (demo_submit @ demo_serve @ win_close)"
  have "win_reachable 1 ?w" by (rule win_demo_reachable) (simp add: win_eval)
  moreover have "closer_at (base ?w) = C_done" "accepted (base ?w) = [7]" by (simp_all add: win_eval)
  ultimately show ?thesis using windows_pool_refines[of 1 ?w] by (simp add: Let_def)
qed

text \<open>C9. On Windows no notification is lost and a shutdown ends, for pools of at most \<open>2 ^ 30\<close> workers: while a
  worker is blocked on the semaphore with no token to take, at least as many workers are on their way to the
  queue as there are tasks; from every state the threads have a schedule after which the workers are
  joined, and once the closer joins, the pool's threads take at most \<open>steps_left\<close> further steps.\<close>

theorem windows_shutdown_terminates:
  assumes "impl_reachable win_step (new_win_pool n) w" and "n \<le> 2 ^ 30"
  shows "(worker_at (base w) i W_waiting \<and> sema w = 0 \<longrightarrow>
      length (tasks (base w)) \<le> (\<Sum>s\<leftarrow>workers (base w). ready s)) \<and>
    (\<exists>as w'. win_run w as w' \<and> closer_at (base w') = C_done) \<and>
    (\<forall>as w'. joining (base w) \<and> win_run w as w' \<longrightarrow> length (filter by_pool as) \<le> steps_left (base w))"
proof (intro conjI impI allI)
  assume i: "worker_at (base w) i W_waiting \<and> sema w = 0"
  then have "0 < (\<Sum>s\<leftarrow>workers (base w). blocked s)"
    using blocked_pos by blast
  with win_ok_reachable(2)[OF assms] i show "length (tasks (base w)) \<le> (\<Sum>s\<leftarrow>workers (base w). ready s)"
    unfolding win_wakeup_ok_def by linarith
next
  show "\<exists>as w'. win_run w as w' \<and> closer_at (base w') = C_done"
  proof (cases "closer_at (base w) = C_done")
    case False
    from win_reach_joining[OF assms(1) this] obtain as q where
      q: "win_run w as q" "closer_at (base q) = C_joining" by blast
    from win_joining_finishes[OF win_run_reachable[OF q(1) assms(1)] assms(2) q(2)] win_run_append[OF q(1)]
    show ?thesis by blast
  qed (blast intro: win_run.stop)
next
  fix as w'
  assume "joining (base w) \<and> win_run w as w'"
  with win_joining_run[OF _ assms(1)] show "length (filter by_pool as) \<le> steps_left (base w)" by fastforce
qed

theorem windows_shutdown_terminates_witness:
  "let w = win_demo (demo_submit @ demo_serve)
   in tasks (base w) = [] \<and> (\<exists>as w'. win_run w as w' \<and> closer_at (base w') = C_done)"
proof -
  let ?w = "win_demo (demo_submit @ demo_serve)"
  have "win_reachable 1 ?w" by (rule win_demo_reachable) (simp add: win_eval)
  moreover have "worker_at (base ?w) 0 W_waiting" "sema ?w = 0" "(\<Sum>s\<leftarrow>workers (base ?w). ready s) = 0"
    by (simp_all add: win_eval)
  ultimately have "length (tasks (base ?w)) \<le> 0" "\<exists>as w'. win_run ?w as w' \<and> closer_at (base w') = C_done"
    using windows_shutdown_terminates[of 1 ?w 0] by (simp_all only:) simp_all
  then show ?thesis by (simp add: Let_def)
qed

end
