(* ===== verification/Pool_Order.thy ===== *)
theory Pool_Order
  imports Win_Threads
begin

text \<open>
  The order in which the pool runs its tasks, and what happens to tasks that come too late, for both
  implementations of the pool.
\<close>

section \<open>One worker\<close>

definition hand :: "worker \<Rightarrow> nat list" where
  "hand s = (case s of W_taken t \<Rightarrow> [t] | W_running t \<Rightarrow> [t] | _ \<Rightarrow> [])"

lemma hand_simps [simp]:
  "hand W_lock = []" "hand W_test = []" "hand W_sleep = []" "hand W_waiting = []" "hand W_woken = []"
  "hand (W_taken t) = [t]" "hand (W_running t) = [t]" "hand W_finished = []" "hand W_exited = []"
  by (simp_all add: hand_def)

definition order_ok :: "pool \<Rightarrow> bool" where
  "order_ok p \<longleftrightarrow> started p = finished p @ concat (map hand (workers p))"

lemma only_worker:
  assumes "length (workers p) = 1" and "worker_at p i s"
  shows "workers p = [s]" and "workers (set_worker i r p) = [r]"
  using assms by (cases "workers p"; auto simp: pc_def set_worker_def split: if_splits)+

lemma hand_set_worker:
  assumes "length (workers p) = 1" and "worker_at p i s"
  shows "concat (map hand (workers (set_worker i r p))) = hand r" and "concat (map hand (workers p)) = hand s"
  using only_worker[OF assms] by simp_all

lemma hand_wake: "concat (map hand (map wake ws)) = concat (map hand ws)"
  by (induction ws) (simp_all add: wake_def)

lemma order_ok_step: "pool_step p a p' \<Longrightarrow> length (workers p) = 1 \<Longrightarrow> order_ok p \<Longrightarrow> order_ok p'"
proof (induction rule: pool_step.induct)
  case (lock p i)
  then show ?case by (elim disjE) (simp_all add: order_ok_def hand_set_worker)
next
  case (push p j t c q)
  then show ?case by (elim notify_one_cases) (simp_all add: order_ok_def hand_set_worker)
next
  case (notify p)
  then show ?case by (simp add: order_ok_def hand_wake del: map_map)
qed (simp_all add: order_ok_def hand_set_worker)

lemma one_worker_order:
  assumes "pool_reachable 1 p"
  shows "started p = finished p @ concat (map hand (workers p))"
proof -
  from assms have "order_ok p"
  proof (induction rule: pool_reachable.induct)
    case start
    show ?case by (simp add: order_ok_def new_pool_def)
  next
    case (step p a p')
    with order_ok_step pool_inv_reachable[OF step(1)] show ?case by (auto simp: pool_inv_def)
  qed
  then show ?thesis by (simp add: order_ok_def)
qed

section \<open>Tasks that come too late\<close>

text \<open>Once \<open>shutdown\<close> has notified, nothing is accepted any more.\<close>

lemma late_tasks_rejected:
  assumes "pool_step p a p'" and "pool_inv n p" and "closer_at p \<notin> {C_idle, C_flagged}"
  shows "accepted p' = accepted p \<and> closer_at p' \<notin> {C_idle, C_flagged}"
  using assms(1)
proof (cases rule: pool_step.cases)
  case (push j t c q)
  with assms(2,3) show ?thesis by (auto simp: pool_inv_def pushing_ok_def)
qed (use assms(3) in auto)

lemma late_run:
  assumes "run_actions as p = Some p'" and "pool_reachable n p" and "closer_at p \<notin> {C_idle, C_flagged}"
  shows "accepted p' = accepted p"
  using assms
proof (induction as arbitrary: p)
  case (Cons a as)
  then obtain q where q: "pool_step p a q" "run_actions as q = Some p'"
    by (auto simp: perform_iff split: option.splits)
  note l = late_tasks_rejected[OF q(1) pool_inv_reachable[OF Cons.prems(2)] Cons.prems(3)]
  have "pool_reachable n q" using Cons.prems(2) q(1) by (rule pool_reachable.step)
  with Cons.IH[OF q(2)] l show ?case by simp
qed simp

context pool_implementation
begin

lemma in_order:
  assumes "impl_reachable move (init 1) s"
  shows "\<exists>ts. length ts \<le> 1 \<and> accepted (view s) = finished (view s) @ ts @ tasks (view s)"
proof -
  from refines[OF assms] obtain p where p: "pool_reachable 1 p" "sim s p" by blast
  have "length (workers p) = 1" "accepted p = started p @ tasks p"
    using pool_inv_reachable[OF p(1)] by (simp_all add: pool_inv_def tasks_ok_def)
  moreover obtain w where "workers p = [w]" using \<open>length (workers p) = 1\<close> by (cases "workers p") auto
  moreover have "length (hand w) \<le> 1" by (cases w) simp_all
  ultimately show ?thesis using one_worker_order[OF p(1)] sim_observed[OF p(2)]
    by (intro exI[of _ "hand w"]) (simp add: observed_def)
qed

end

lemma pool_impl_reachable: "pool_reachable n p \<Longrightarrow> impl_reachable pool_step (new_pool n) p"
  by (induction rule: pool_reachable.induct) (auto intro: impl_reachable.intros)

text \<open>C20. A pool with one worker runs its tasks one at a time and in the order of submission, with the condition variable and
  with the Windows semaphore: the accepted tasks are those that have ended, in that order, at most one in
  the worker's hands, and the queue. And once \<open>shutdown\<close> has notified, whoever calls
  \<open>submit\<close>, no task is accepted any more.\<close>

theorem one_worker_runs_in_order:
  assumes "pool_reachable 1 p" and "impl_reachable win_step (new_win_pool 1) w"
    and "pool_reachable n q" and "closer_at q \<notin> {C_idle, C_flagged}" and "run_actions as q = Some q'"
  shows "(\<exists>ts. length ts \<le> 1 \<and> accepted p = finished p @ ts @ tasks p) \<and>
    (\<exists>ts. length ts \<le> 1 \<and> accepted (base w) = finished (base w) @ ts @ tasks (base w)) \<and>
    accepted q' = accepted q"
  using posix.in_order[OF pool_impl_reachable[OF assms(1)]] windows.in_order[OF assms(2)]
    late_run[OF assms(5,3,4)] by blast

theorem one_worker_runs_in_order_witness:
  "let p = demo_pool (demo_submit @ demo_serve); w = win_demo demo_submit;
       q = demo_pool (demo_submit @ demo_serve @ demo_close)
   in finished p = [7] \<and> tasks (base w) = [7] \<and> accepted q = [7]"
proof -
  let ?p = "demo_pool (demo_submit @ demo_serve)" and ?w = "win_demo demo_submit"
  let ?q = "demo_pool (demo_submit @ demo_serve @ demo_close)"
  have "pool_reachable 1 ?p" "pool_reachable 1 ?q" by (rule demo_pool_reachable, rule demo_runs)+
  moreover have "win_reachable 1 ?w" by (rule win_demo_reachable) (simp add: win_eval)
  moreover have "closer_at ?q \<notin> {C_idle, C_flagged}" "accepted ?q = [7]" "run_actions [] ?q = Some ?q"
    by (simp_all add: demo_eval)
  ultimately have "(\<exists>ts. length ts \<le> 1 \<and> accepted ?p = finished ?p @ ts @ tasks ?p) \<and>
    (\<exists>ts. length ts \<le> 1 \<and> accepted (base ?w) = finished (base ?w) @ ts @ tasks (base ?w)) \<and>
    accepted ?q = accepted ?q"
    by (intro one_worker_runs_in_order)
  moreover have "finished ?p = [7]" "tasks (base ?w) = [7]" by (simp_all add: win_eval)
  ultimately show ?thesis using \<open>accepted ?q = [7]\<close> by (simp add: Let_def)
qed

end
