(* ===== verification/Atomics.thy ===== *)
theory Atomics
  imports Session
begin

text \<open>
  Counters and thread objects of \<open>src/common/win32_threads.h\<close>: the compare-exchange loop behind
  \<open>AtomicU64::dec\<close> with other threads between its steps, and the Windows \<open>Thread\<close>, whose handle moves from
  object to object.
\<close>

section \<open>AtomicU64\<close>

datatype counter_op = Add "64 word" | Inc | Dec

fun atomic_op :: "counter_op \<Rightarrow> 64 word \<Rightarrow> 64 word" where
  "atomic_op (Add n) v = v + n"
| "atomic_op Inc v = atomic_inc v"
| "atomic_op Dec v = atomic_dec v"

text \<open>Where a thread is: outside, about to do its operation, or in the loop of \<open>dec\<close> with \<open>current\<close>.\<close>

datatype counter_pc = Out | Called counter_op | Loop "64 word"

record counter =
  stored :: "64 word"
  threads :: "nat \<Rightarrow> counter_pc"
  calls :: "(nat \<times> counter_op) list"    \<comment> \<open>history: operations called\<close>
  effects :: "(nat \<times> counter_op) list"  \<comment> \<open>history: operations that have taken effect, in order\<close>

definition new_counter :: "64 word \<Rightarrow> counter" where
  "new_counter v = \<lparr>stored = v, threads = (\<lambda>_. Out), calls = [], effects = []\<rparr>"

text \<open>
  \<open>dec\<close> loads the value and leaves when it is zero; \<open>compare_exchange_weak\<close> stores the value less one when the
  value is still \<open>current\<close>, but may fail then too, and otherwise reads the value into \<open>current\<close>.
\<close>

definition enter_loop :: "nat \<Rightarrow> counter \<Rightarrow> counter" where
  "enter_loop i c =
     (let current = stored c
      in if current > 0 then c\<lparr>threads := (threads c)(i := Loop current)\<rparr>
         else c\<lparr>threads := (threads c)(i := Out), effects := effects c @ [(i, Dec)]\<rparr>)"

inductive counter_step :: "counter \<Rightarrow> counter \<Rightarrow> bool" where
  call: "threads c i = Out \<Longrightarrow>
    counter_step c (c\<lparr>threads := (threads c)(i := Called f), calls := calls c @ [(i, f)]\<rparr>)"
| fetch_add: "threads c i = Called f \<Longrightarrow> f \<noteq> Dec \<Longrightarrow>
    counter_step c (c\<lparr>stored := atomic_op f (stored c), threads := (threads c)(i := Out), effects := effects c @ [(i, f)]\<rparr>)"
| load: "threads c i = Called Dec \<Longrightarrow> counter_step c (enter_loop i c)"
| exchange: "threads c i = Loop current \<Longrightarrow> stored c = current \<Longrightarrow>
    counter_step c (c\<lparr>stored := current - 1, threads := (threads c)(i := Out), effects := effects c @ [(i, Dec)]\<rparr>)"
| retry: "threads c i = Loop current \<Longrightarrow> counter_step c (enter_loop i c)"

inductive counter_reachable :: "64 word \<Rightarrow> counter \<Rightarrow> bool" for v where
  start: "counter_reachable v (new_counter v)"
| step: "counter_reachable v c \<Longrightarrow> counter_step c c' \<Longrightarrow> counter_reachable v c'"

definition pending :: "counter_pc \<Rightarrow> counter_op list" where
  "pending s = (case s of Out \<Rightarrow> [] | Called f \<Rightarrow> [f] | Loop current \<Rightarrow> [Dec])"

definition of_thread :: "nat \<Rightarrow> (nat \<times> counter_op) list \<Rightarrow> counter_op list" where
  "of_thread i es = map snd (filter (\<lambda>e. fst e = i) es)"

lemma of_thread_append [simp]:
  "of_thread i (es @ [(j, f)]) = of_thread i es @ (if j = i then [f] else [])"
  by (simp add: of_thread_def)

definition counter_inv :: "64 word \<Rightarrow> counter \<Rightarrow> bool" where
  "counter_inv v c \<longleftrightarrow>
     stored c = fold (\<lambda>e. atomic_op (snd e)) (effects c) v \<and>
     (\<forall>i. of_thread i (calls c) = of_thread i (effects c) @ pending (threads c i)) \<and>
     (\<forall>i current. threads c i = Loop current \<longrightarrow> 0 < current)"

lemma counter_inv_enter_loop:
  assumes "counter_inv v c" and "pending (threads c i) = [Dec]"
  shows "counter_inv v (enter_loop i c)"
  using assms by (auto simp: counter_inv_def enter_loop_def Let_def pending_def atomic_dec_def word_gt_0)

lemma counter_inv_step: "counter_step c c' \<Longrightarrow> counter_inv v c \<Longrightarrow> counter_inv v c'"
proof (induction rule: counter_step.induct)
  case (load c i)
  then show ?case by (simp add: counter_inv_enter_loop pending_def)
next
  case (retry c i current)
  then show ?case by (simp add: counter_inv_enter_loop pending_def)
qed (auto simp: counter_inv_def pending_def atomic_dec_def word_gt_0)

lemma counter_inv_reachable: "counter_reachable v c \<Longrightarrow> counter_inv v c"
proof (induction rule: counter_reachable.induct)
  case start
  show ?case by (simp add: counter_inv_def new_counter_def of_thread_def pending_def)
qed (rule counter_inv_step)

text \<open>C21. The counters are linearizable: for every interleaving of threads that increment, add and decrement,
  with every failure of the weak compare-exchange, the value is that of the
  operations one after the other in the order of their effects, each operation takes effect once and within
  its call, and a decrement of zero leaves zero.\<close>

theorem atomic_counter_linearizable:
  assumes "counter_reachable v c"
  shows "stored c = fold (\<lambda>e. atomic_op (snd e)) (effects c) v \<and>
    (\<forall>i. of_thread i (calls c) = of_thread i (effects c) @ pending (threads c i)) \<and> atomic_op Dec 0 = 0"
  using counter_inv_reachable[OF assms] by (simp add: counter_inv_def atomic_dec_def)

theorem atomic_counter_linearizable_witness:
  "\<exists>c. counter_reachable 0 c \<and> effects c = [(0, Dec)] \<and> stored c = 0"
proof -
  let ?c = "(new_counter 0)\<lparr>threads := (threads (new_counter 0))(0 := Called Dec), calls := calls (new_counter 0) @ [(0, Dec)]\<rparr>"
  have "counter_reachable 0 ?c"
    by (rule counter_reachable.step[OF counter_reachable.start counter_step.call]) (simp add: new_counter_def)
  then have r: "counter_reachable 0 (enter_loop 0 ?c)"
    by (rule counter_reachable.step) (simp add: counter_step.load)
  have e: "effects (enter_loop 0 ?c) = [(0, Dec)]" by (simp add: enter_loop_def new_counter_def)
  from atomic_counter_linearizable[OF r] e show ?thesis using r by (intro exI[of _ "enter_loop 0 ?c"]) simp
qed

section \<open>Thread objects\<close>

text \<open>
  The objects of the Windows class by their \<open>handle_\<close>, the handles created so far, and the history of the
  handles that were waited for and closed.
\<close>

record thread_objects =
  handle_of :: "nat \<Rightarrow> nat option"
  created :: nat
  joined :: "nat list"

definition joinable :: "nat \<Rightarrow> thread_objects \<Rightarrow> bool" where
  "joinable x s \<longleftrightarrow> handle_of s x \<noteq> None"

definition thread_join :: "nat \<Rightarrow> thread_objects \<Rightarrow> thread_objects" where
  "thread_join x s =
     (case handle_of s x of
        None \<Rightarrow> s
      | Some h \<Rightarrow> s\<lparr>joined := joined s @ [h], handle_of := (handle_of s)(x := None)\<rparr>)"

text \<open>The constructor on the memory of a new object \<open>x\<close>; it throws when \<open>CreateThread\<close> gives no handle.\<close>

definition thread_create :: "bool \<Rightarrow> nat \<Rightarrow> thread_objects \<Rightarrow> thread_objects" where
  "thread_create created_ok x s =
     (if created_ok then s\<lparr>handle_of := (handle_of s)(x := Some (created s)), created := created s + 1\<rparr>
      else s\<lparr>handle_of := (handle_of s)(x := None)\<rparr>)"

definition thread_move :: "nat \<Rightarrow> nat \<Rightarrow> thread_objects \<Rightarrow> thread_objects" where
  "thread_move x o' s = s\<lparr>handle_of := (handle_of s)(x := handle_of s o', o' := None)\<rparr>"

definition thread_assign :: "nat \<Rightarrow> nat \<Rightarrow> thread_objects \<Rightarrow> thread_objects" where
  "thread_assign x o' s =
     (let s' = (if joinable x s then thread_join x s else s);
          s' = s'\<lparr>handle_of := (handle_of s')(x := handle_of s' o')\<rparr>
      in s'\<lparr>handle_of := (handle_of s')(o' := None)\<rparr>)"

definition thread_destroy :: "nat \<Rightarrow> thread_objects \<Rightarrow> thread_objects" where
  "thread_destroy x s = (if joinable x s then thread_join x s else s)"

text \<open>A program's use of the objects: constructors work on memory that holds no thread.\<close>

inductive thread_step :: "thread_objects \<Rightarrow> thread_objects \<Rightarrow> bool" where
  create: "\<not> joinable x s \<Longrightarrow> thread_step s (thread_create created_ok x s)"
| move: "\<not> joinable x s \<Longrightarrow> thread_step s (thread_move x y s)"
| assign: "thread_step s (thread_assign x y s)"
| join: "thread_step s (thread_join x s)"
| destroy: "thread_step s (thread_destroy x s)"

definition no_threads :: "thread_objects" where
  "no_threads = \<lparr>handle_of = (\<lambda>_. None), created = 0, joined = []\<rparr>"

inductive threads_reachable :: "thread_objects \<Rightarrow> bool" where
  start: "threads_reachable no_threads"
| step: "threads_reachable s \<Longrightarrow> thread_step s s' \<Longrightarrow> threads_reachable s'"

definition handles_ok :: "thread_objects \<Rightarrow> bool" where
  "handles_ok s \<longleftrightarrow> distinct (joined s) \<and> inj_on (handle_of s) (dom (handle_of s)) \<and>
     ran (handle_of s) \<inter> set (joined s) = {} \<and> ran (handle_of s) \<union> set (joined s) = {..<created s}"

lemma ran_upd_None:
  assumes "inj_on m (dom m)" and "m x = Some h"
  shows "ran (m(x := None)) = ran m - {h}"
proof
  show "ran (m(x := None)) \<subseteq> ran m - {h}" using assms by (auto simp: ran_def inj_on_def dom_def)
  show "ran m - {h} \<subseteq> ran (m(x := None))"
  proof
    fix k
    assume "k \<in> ran m - {h}"
    then obtain y where "m y = Some k" "k \<noteq> h" by (auto simp: ran_def)
    with assms(2) have "(m(x := None)) y = Some k" by auto
    then show "k \<in> ran (m(x := None))" by (rule ranI)
  qed
qed

lemma inj_upd_None: "inj_on m (dom m) \<Longrightarrow> inj_on (m(x := None)) (dom (m(x := None)))"
  by (auto simp: inj_on_def dom_def)

lemma inj_upd_Some:
  "inj_on m (dom m) \<Longrightarrow> h \<notin> ran m \<Longrightarrow> inj_on (m(x \<mapsto> h)) (dom (m(x \<mapsto> h)))"
  by (auto simp: inj_on_def dom_def ran_def)

lemma handles_ok_join: "handles_ok s \<Longrightarrow> handles_ok (thread_join x s)"
proof (cases "handle_of s x")
  case (Some h)
  assume ok: "handles_ok s"
  from Some have "h \<in> ran (handle_of s)" by (rule ranI)
  with ok inj_upd_None[of "handle_of s" x] show ?thesis
    by (auto simp: handles_ok_def thread_join_def Some ran_upd_None simp del: dom_fun_upd)
qed (simp add: thread_join_def)

lemma handles_ok_create: "handles_ok s \<Longrightarrow> \<not> joinable x s \<Longrightarrow> handles_ok (thread_create created_ok x s)"
proof -
  assume ok: "handles_ok s" and j: "\<not> joinable x s"
  then have n: "handle_of s x = None" by (simp add: joinable_def)
  then have same: "(handle_of s)(x := None) = handle_of s" by auto
  have "created s \<notin> ran (handle_of s)" "created s \<notin> set (joined s)" using ok by (auto simp: handles_ok_def)
  with ok n same inj_upd_Some[of "handle_of s" "created s" x] show ?thesis
    by (auto simp: handles_ok_def thread_create_def lessThan_Suc ran_map_upd simp del: dom_fun_upd)
qed

lemma handles_ok_move:
  assumes "handles_ok s" and "handle_of s x = None"
  shows "handles_ok (thread_move x y s)"
proof (cases "handle_of s y")
  case None
  then have "(handle_of s)(x := None, y := None) = handle_of s" using assms(2) by auto
  with assms(1) None show ?thesis by (simp add: handles_ok_def thread_move_def)
next
  case (Some h)
  let ?m = "(handle_of s)(y := None)"
  have ok: "inj_on (handle_of s) (dom (handle_of s))" using assms(1) by (simp add: handles_ok_def)
  have "x \<noteq> y" using assms(2) Some by auto
  then have m: "(handle_of s)(x := handle_of s y, y := None) = ?m(x \<mapsto> h)" using Some by auto
  have r: "ran ?m = ran (handle_of s) - {h}" using ran_upd_None[of "handle_of s" y h] ok Some by blast
  have "?m x = None" using assms(2) by simp
  from ran_map_upd[of ?m x h, OF this] r ranI[of "handle_of s" y h, OF Some]
  have "ran (?m(x \<mapsto> h)) = ran (handle_of s)" by auto
  moreover have "inj_on (?m(x \<mapsto> h)) (dom (?m(x \<mapsto> h)))"
    using r by (intro inj_upd_Some inj_upd_None ok) simp
  ultimately show ?thesis using assms(1) m by (simp add: handles_ok_def thread_move_def del: dom_fun_upd)
qed

lemma thread_assign_eq: "thread_assign x y s = thread_move x y (thread_join x s)"
  by (simp add: thread_assign_def thread_move_def joinable_def thread_join_def split: option.splits)

lemma thread_join_empty: "handle_of (thread_join x s) x = None"
  by (simp add: thread_join_def split: option.splits)

lemma handles_ok_reachable: "threads_reachable s \<Longrightarrow> handles_ok s"
proof (induction rule: threads_reachable.induct)
  case start
  show ?case by (simp add: handles_ok_def no_threads_def)
next
  case (step s s')
  from step(2,3) show ?case
    by (cases rule: thread_step.cases)
      (auto simp: handles_ok_create handles_ok_move handles_ok_join thread_join_empty thread_assign_eq
        thread_destroy_def joinable_def)
qed

text \<open>Thread objects on Windows: whatever sequence of constructors, moves, assignments, joins and destructors a
  program runs, every handle that \<open>CreateThread\<close> gave belongs to exactly one object or has been waited
  for and closed, exactly once, and never both.\<close>

theorem thread_handles_closed_once:
  assumes "threads_reachable s" and "h < created s"
  shows "(h \<in> set (joined s) \<longleftrightarrow> (\<forall>x. handle_of s x \<noteq> Some h)) \<and> distinct (joined s) \<and>
    (handle_of s x = Some h \<and> handle_of s y = Some h \<longrightarrow> x = y)"
proof -
  have ok: "distinct (joined s)" "inj_on (handle_of s) (dom (handle_of s))"
    "ran (handle_of s) \<inter> set (joined s) = {}" "h \<in> ran (handle_of s) \<union> set (joined s)"
    using handles_ok_reachable[OF assms(1)] assms(2) by (auto simp: handles_ok_def)
  have "h \<in> set (joined s) \<longleftrightarrow> (\<forall>x. handle_of s x \<noteq> Some h)" using ok(3,4) by (auto simp: ran_def)
  moreover have "x = y" if "handle_of s x = Some h" "handle_of s y = Some h"
    using ok(2) that by (auto simp: inj_on_def dom_def)
  ultimately show ?thesis using ok(1) by blast
qed

theorem thread_handles_closed_once_witness:
  "0 \<in> set (joined (thread_destroy 1 (thread_assign 1 0 (thread_create True 0 no_threads)))) \<and>
   distinct (joined (thread_destroy 1 (thread_assign 1 0 (thread_create True 0 no_threads))))"
proof -
  let ?s = "thread_destroy 1 (thread_assign 1 0 (thread_create True 0 no_threads))"
  have "threads_reachable ?s"
    by (intro threads_reachable.step[OF _ thread_step.destroy] threads_reachable.step[OF _ thread_step.assign]
      threads_reachable.step[OF threads_reachable.start thread_step.create])
      (simp add: joinable_def no_threads_def)
  moreover have "0 < created ?s" "\<forall>x. handle_of ?s x \<noteq> Some 0"
    by (simp_all add: no_threads_def thread_create_def thread_assign_def thread_destroy_def thread_join_def joinable_def)
  ultimately show ?thesis using thread_handles_closed_once[of ?s 0] by blast
qed

end
