(* ===== verification/Win_Atomics.thy ===== *)
theory Win_Atomics
  imports Atomics "HOL-Library.Multiset"
begin

text \<open>
  The Windows \<open>AtomicU64\<close> of \<open>src/common/win32_threads.h\<close>, a plain number behind a mutex, with the read and the write
  of each operation as steps of their own; and what both versions promise the code that counts with them
  (locale \<open>shared_counter\<close>).
\<close>

section \<open>A number behind a mutex\<close>

text \<open>
  A thread is outside, waits for the mutex, has it, has read the value, or has written and not yet unlocked:
  \<open>LockGuard\<close> locks before and unlocks after the body.
\<close>

datatype locked_pc = L_out | L_called counter_op | L_locked counter_op | L_read counter_op "64 word" | L_written

record locked_counter =
  cell :: "64 word"
  l_owner :: "nat option"   \<comment> \<open>the thread inside the critical section\<close>
  l_threads :: "nat \<Rightarrow> locked_pc"
  l_calls :: "(nat \<times> counter_op) list"
  l_effects :: "(nat \<times> counter_op) list"

definition new_locked :: "64 word \<Rightarrow> locked_counter" where
  "new_locked v = \<lparr>cell = v, l_owner = None, l_threads = (\<lambda>_. L_out), l_calls = [], l_effects = []\<rparr>"

definition goto :: "nat \<Rightarrow> locked_pc \<Rightarrow> locked_counter \<Rightarrow> locked_counter" where
  "goto i s c = c\<lparr>l_threads := (l_threads c)(i := s)\<rparr>"

inductive locked_step :: "locked_counter \<Rightarrow> locked_counter \<Rightarrow> bool" where
  call: "l_threads c i = L_out \<Longrightarrow> locked_step c (goto i (L_called f) (c\<lparr>l_calls := l_calls c @ [(i, f)]\<rparr>))"
| lock: "l_threads c i = L_called f \<Longrightarrow> l_owner c = None \<Longrightarrow>
    locked_step c (goto i (L_locked f) (c\<lparr>l_owner := Some i\<rparr>))"
| read_cell: "l_threads c i = L_locked f \<Longrightarrow> locked_step c (goto i (L_read f (cell c)) c)"
| write_cell: "l_threads c i = L_read f v \<Longrightarrow>
    locked_step c (goto i L_written (c\<lparr>cell := atomic_op f v, l_effects := l_effects c @ [(i, f)]\<rparr>))"
| unlock: "l_threads c i = L_written \<Longrightarrow> locked_step c (goto i L_out (c\<lparr>l_owner := None\<rparr>))"

inductive locked_reachable :: "64 word \<Rightarrow> locked_counter \<Rightarrow> bool" for v where
  start: "locked_reachable v (new_locked v)"
| step: "locked_reachable v c \<Longrightarrow> locked_step c c' \<Longrightarrow> locked_reachable v c'"

definition l_pending :: "locked_pc \<Rightarrow> counter_op list" where
  "l_pending s = (case s of L_called f \<Rightarrow> [f] | L_locked f \<Rightarrow> [f] | L_read f v \<Rightarrow> [f] | _ \<Rightarrow> [])"

text \<open>Only the owner is inside, and what it has read is still the value.\<close>

definition has_lock :: "locked_pc \<Rightarrow> bool" where
  "has_lock s \<longleftrightarrow> (case s of L_out \<Rightarrow> False | L_called f \<Rightarrow> False | _ \<Rightarrow> True)"

lemma lock_simps [simp]:
  "\<not> has_lock L_out" "\<not> has_lock (L_called f)" "has_lock (L_locked f)" "has_lock (L_read f u)" "has_lock L_written"
  "l_pending L_out = []" "l_pending (L_called f) = [f]" "l_pending (L_locked f) = [f]" "l_pending (L_read f u) = [f]"
  "l_pending L_written = []"
  by (simp_all add: has_lock_def l_pending_def)

definition locked_inv :: "64 word \<Rightarrow> locked_counter \<Rightarrow> bool" where
  "locked_inv v c \<longleftrightarrow> (\<forall>i. has_lock (l_threads c i) \<longleftrightarrow> l_owner c = Some i) \<and>
     (\<forall>i f u. l_threads c i = L_read f u \<longrightarrow> u = cell c) \<and>
     cell c = fold (\<lambda>e. atomic_op (snd e)) (l_effects c) v \<and>
     (\<forall>i. of_thread i (l_calls c) = of_thread i (l_effects c) @ l_pending (l_threads c i))"

lemma locked_inv_step: "locked_step c c' \<Longrightarrow> locked_inv v c \<Longrightarrow> locked_inv v c'"
proof (induction rule: locked_step.induct)
  case (call c i f)
  then have "l_owner c \<noteq> Some i" by (metis locked_inv_def lock_simps(1))
  with call show ?case by (auto simp: locked_inv_def goto_def)
next
  case (lock c i f)
  then show ?case by (auto simp: locked_inv_def goto_def)
next
  case (read_cell c i f)
  then have "l_owner c = Some i" by (metis locked_inv_def lock_simps(3))
  with read_cell show ?case by (auto simp: locked_inv_def goto_def)
next
  case (write_cell c i f u)
  note own = write_cell(2)[unfolded locked_inv_def, THEN conjunct1, rule_format]
  note seen = write_cell(2)[unfolded locked_inv_def, THEN conjunct2, THEN conjunct1, rule_format]
  note rest = write_cell(2)[unfolded locked_inv_def, THEN conjunct2, THEN conjunct2]
  have o: "l_owner c = Some i" using own[of i] write_cell(1) by simp
  have u: "u = cell c" using seen write_cell(1) .
  have only: "j = i" if "l_threads c j = L_read g x" for j g x
    using own[of j] that o by simp
  show ?case unfolding locked_inv_def
  proof (intro conjI allI impI)
    fix j
    show "has_lock (l_threads (goto i L_written (c\<lparr>cell := atomic_op f u, l_effects := l_effects c @ [(i, f)]\<rparr>)) j) \<longleftrightarrow>
        l_owner (goto i L_written (c\<lparr>cell := atomic_op f u, l_effects := l_effects c @ [(i, f)]\<rparr>)) = Some j"
      using own[of j] o by (simp add: goto_def)
  next
    fix j g x
    assume "l_threads (goto i L_written (c\<lparr>cell := atomic_op f u, l_effects := l_effects c @ [(i, f)]\<rparr>)) j = L_read g x"
    then have "j \<noteq> i" and "l_threads c j = L_read g x" by (simp_all add: goto_def split: if_splits)
    with only show "x = cell (goto i L_written (c\<lparr>cell := atomic_op f u, l_effects := l_effects c @ [(i, f)]\<rparr>))" by blast
  qed (use rest write_cell(1) u in \<open>auto simp: goto_def\<close>)
next
  case (unlock c i)
  then have o: "l_owner c = Some i" by (metis locked_inv_def lock_simps(5))
  have "\<not> has_lock (l_threads c j)" if "j \<noteq> i" for j
    using unlock(2) o that by (simp add: locked_inv_def)
  with unlock o show ?case by (auto simp: locked_inv_def goto_def)
qed

lemma locked_inv_reachable: "locked_reachable v c \<Longrightarrow> locked_inv v c"
proof (induction rule: locked_reachable.induct)
  case start
  show ?case by (simp add: locked_inv_def new_locked_def of_thread_def)
qed (rule locked_inv_step)

text \<open>When the mutex is free a thread that is outside can carry an operation through.\<close>

definition do_op :: "nat \<Rightarrow> counter_op \<Rightarrow> locked_counter \<Rightarrow> locked_counter" where
  "do_op i f c = c\<lparr>cell := atomic_op f (cell c), l_calls := l_calls c @ [(i, f)], l_effects := l_effects c @ [(i, f)]\<rparr>"

lemma locked_do_op:
  assumes "locked_reachable v c" and "l_owner c = None" and "l_threads c i = L_out"
  shows "locked_reachable v (do_op i f c)"
proof -
  let ?called = "goto i (L_called f) (c\<lparr>l_calls := l_calls c @ [(i, f)]\<rparr>)"
  let ?in = "goto i (L_locked f) (?called\<lparr>l_owner := Some i\<rparr>)"
  let ?seen = "goto i (L_read f (cell ?in)) ?in"
  let ?put = "goto i L_written (?seen\<lparr>cell := atomic_op f (cell ?in), l_effects := l_effects ?seen @ [(i, f)]\<rparr>)"
  note at = goto_def assms(2,3)
  have "locked_reachable v ?called" using assms(1) locked_step.call[OF assms(3)] by (rule locked_reachable.step)
  then have "locked_reachable v ?in" by (rule locked_reachable.step) (rule locked_step.lock, simp_all add: at)
  then have "locked_reachable v ?seen" by (rule locked_reachable.step) (rule locked_step.read_cell, simp add: at)
  then have "locked_reachable v ?put" by (rule locked_reachable.step) (rule locked_step.write_cell, simp add: at)
  then have "locked_reachable v (goto i L_out (?put\<lparr>l_owner := None\<rparr>))"
    by (rule locked_reachable.step) (rule locked_step.unlock, simp add: at)
  also have "goto i L_out (?put\<lparr>l_owner := None\<rparr>) = do_op i f c"
    using assms(2,3) by (simp add: goto_def do_op_def fun_upd_idem)
  finally show ?thesis .
qed

section \<open>What both versions promise\<close>

text \<open>
  The value is that of the operations one after the other in the order of their effects, and the
  operations of each thread take effect in the order of its calls, all but the one in progress.
\<close>

locale shared_counter =
  fixes reach :: "64 word \<Rightarrow> 's \<Rightarrow> bool" and held_value :: "'s \<Rightarrow> 64 word"
    and called :: "'s \<Rightarrow> (nat \<times> counter_op) list" and effective :: "'s \<Rightarrow> (nat \<times> counter_op) list"
    and in_progress :: "'s \<Rightarrow> nat \<Rightarrow> counter_op list"
  assumes in_order: "reach v c \<Longrightarrow> held_value c = fold (\<lambda>e. atomic_op (snd e)) (effective c) v"
    and once: "reach v c \<Longrightarrow> of_thread i (called c) = of_thread i (effective c) @ in_progress c i"

fun amount :: "counter_op \<Rightarrow> 64 word" where
  "amount (Add n) = n" | "amount Inc = 1" | "amount Dec = - 1"

lemma fold_amounts:
  "\<forall>e\<in>set es. snd e \<noteq> Dec \<Longrightarrow> fold (\<lambda>e. atomic_op (snd e)) es v = v + sum_list (map (\<lambda>e. amount (snd e)) es)"
proof (induction es arbitrary: v)
  case (Cons e es)
  then have "atomic_op (snd e) v = v + amount (snd e)" by (cases "snd e") (simp_all add: atomic_inc_def)
  with Cons show ?case by (simp add: add.assoc)
qed simp

lemma count_of_thread: "count (mset es) (i, f) = count (mset (of_thread i es)) f"
  by (induction es) (auto simp: of_thread_def)

context shared_counter
begin

lemma all_effective:
  assumes "reach v c" and "\<And>i. in_progress c i = []"
  shows "mset (called c) = mset (effective c)"
proof (rule multiset_eqI)
  fix e :: "nat \<times> counter_op"
  obtain i f where e: "e = (i, f)" by (cases e)
  have "of_thread i (called c) = of_thread i (effective c)"
    using once[OF assms(1), of i] assms(2) by simp
  then show "count (mset (called c)) e = count (mset (effective c)) e"
    by (simp only: e count_of_thread)
qed

lemma total:
  assumes "reach v c" and "\<And>i. in_progress c i = []" and "\<forall>e\<in>set (called c). snd e \<noteq> Dec"
  shows "held_value c = v + sum_list (map (\<lambda>e. amount (snd e)) (called c))"
proof -
  note m = all_effective[OF assms(1,2)]
  have up: "\<forall>e\<in>set (effective c). snd e \<noteq> Dec" using assms(3) mset_eq_setD[OF m] by simp
  have "held_value c = v + sum_list (map (\<lambda>e. amount (snd e)) (effective c))"
    unfolding in_order[OF assms(1)] by (rule fold_amounts[OF up])
  also have "sum_list (map (\<lambda>e. amount (snd e)) (effective c)) = sum_list (map (\<lambda>e. amount (snd e)) (called c))"
    unfolding sum_mset_sum_list[symmetric] mset_map m ..
  finally show ?thesis .
qed

end

interpretation posix_counter: shared_counter counter_reachable stored calls effects "\<lambda>c i. pending (threads c i)"
  using counter_inv_reachable by unfold_locales (auto simp: counter_inv_def)

interpretation locked: shared_counter locked_reachable cell l_calls l_effects "\<lambda>c i. l_pending (l_threads c i)"
  using locked_inv_reachable by unfold_locales (auto simp: locked_inv_def)

section \<open>Property\<close>

text \<open>C22. The totals of bytes and connections are exact on both systems: when no operation is in progress, a counter
  that was only added to holds what it began with and the sum of all that was added, modulo \<open>2 ^ 64\<close>,
  however the threads were interleaved and whatever their compare-exchanges did.\<close>

theorem totals_are_exact:
  assumes "counter_reachable v c" and "\<And>i. threads c i = Out" and "\<forall>e\<in>set (calls c). snd e \<noteq> Dec"
    and "locked_reachable v l" and "\<And>i. l_threads l i = L_out" and "\<forall>e\<in>set (l_calls l). snd e \<noteq> Dec"
  shows "stored c = v + sum_list (map (\<lambda>e. amount (snd e)) (calls c)) \<and>
    cell l = v + sum_list (map (\<lambda>e. amount (snd e)) (l_calls l))"
  using posix_counter.total[OF assms(1) _ assms(3)] locked.total[OF assms(4) _ assms(6)] assms(2,5)
  by (simp add: pending_def)

text \<open>Two threads add five and one to a counter that holds the largest value.\<close>

lemma posix_add:
  assumes "counter_reachable v c" and "threads c i = Out" and "f \<noteq> Dec"
  shows "counter_reachable v (c\<lparr>calls := calls c @ [(i, f)], stored := atomic_op f (stored c), effects := effects c @ [(i, f)]\<rparr>)"
proof -
  let ?c = "c\<lparr>threads := (threads c)(i := Called f), calls := calls c @ [(i, f)]\<rparr>"
  have "counter_reachable v ?c" using assms(1) counter_step.call[OF assms(2)] by (rule counter_reachable.step)
  moreover have "counter_step ?c (?c\<lparr>stored := atomic_op f (stored ?c), threads := (threads ?c)(i := Out), effects := effects ?c @ [(i, f)]\<rparr>)"
    by (rule counter_step.fetch_add) (simp_all add: assms(3))
  ultimately have "counter_reachable v (?c\<lparr>stored := atomic_op f (stored ?c), threads := (threads ?c)(i := Out), effects := effects ?c @ [(i, f)]\<rparr>)"
    by (rule counter_reachable.step)
  then show ?thesis using assms(2) by (simp add: fun_upd_idem)
qed

theorem totals_are_exact_witness:
  "\<exists>c l. counter_reachable (- 1) c \<and> locked_reachable (- 1) l \<and> length (calls c) = 2 \<and> length (l_calls l) = 2 \<and>
     stored c = 5 \<and> cell l = 5"
proof -
  let ?add = "\<lambda>i f c. c\<lparr>calls := calls c @ [(i, f)], stored := atomic_op f (stored c), effects := effects c @ [(i, f)]\<rparr>"
  define c where "c = ?add 1 Inc (?add 0 (Add 5) (new_counter (- 1)))"
  define l where "l = do_op 1 Inc (do_op 0 (Add 5) (new_locked (- 1)))"
  have c: "counter_reachable (- 1) c" unfolding c_def
    by (intro posix_add counter_reachable.start) (simp_all add: new_counter_def)
  have l: "locked_reachable (- 1) l" unfolding l_def
    by (intro locked_do_op locked_reachable.start) (simp_all add: new_locked_def do_op_def)
  have state: "threads c i = Out" "calls c = [(0, Add 5), (1, Inc)]" "l_threads l i = L_out"
      "l_calls l = [(0, Add 5), (1, Inc)]" for i
    by (simp_all add: c_def l_def new_counter_def new_locked_def do_op_def)
  from totals_are_exact[OF c _ _ l] have "stored c = 5 \<and> cell l = 5" by (simp add: state)
  with c l state show ?thesis by (intro exI[of _ c] exI[of _ l]) simp
qed

end
