(* ===== verification/Managed_Socket.thy ===== *)
theory Managed_Socket
  imports Platform
begin

text \<open>
  \<open>ManagedSocket\<close> of \<open>src/common/platform.h\<close>: objects that own a socket and pass it on by moves. The objects of a
  program are a list of their \<open>fd_\<close>; \<open>raw\<close> are the handles the program holds outside of any object, between
  \<open>createTcpSocket\<close> or \<open>release\<close> and the constructor.
\<close>

section \<open>Objects and their operations\<close>

record sockets =
  objs :: "handle list"
  raw :: "handle list"
  trace :: hist

definition no_sockets :: sockets where
  "no_sockets = \<lparr>objs = [], raw = [], trace = []\<rparr>"

definition fd_of :: "nat \<Rightarrow> sockets \<Rightarrow> handle" where
  "fd_of x s = objs s ! x"

definition set_fd :: "nat \<Rightarrow> handle \<Rightarrow> sockets \<Rightarrow> sockets" where
  "set_fd x fd s = s\<lparr>objs := (objs s)[x := fd]\<rparr>"

definition sk_default :: "sockets \<Rightarrow> sockets" where
  "sk_default s = s\<lparr>objs := objs s @ [kInvalidSocket]\<rparr>"

definition sk_adopt :: "handle \<Rightarrow> sockets \<Rightarrow> sockets" where
  "sk_adopt fd s = s\<lparr>objs := objs s @ [fd], raw := remove1 fd (raw s)\<rparr>"

definition sk_move :: "nat \<Rightarrow> sockets \<Rightarrow> sockets" where
  "sk_move y s = set_fd y kInvalidSocket (s\<lparr>objs := objs s @ [fd_of y s]\<rparr>)"

definition sk_close :: "os \<Rightarrow> nat \<Rightarrow> sockets \<Rightarrow> sockets" where
  "sk_close os x s =
     (let (fd, h) = ms_close os (fd_of x s) (trace s) in set_fd x fd (s\<lparr>trace := h\<rparr>))"

definition sk_assign :: "os \<Rightarrow> nat \<Rightarrow> nat \<Rightarrow> sockets \<Rightarrow> sockets" where
  "sk_assign os x y s =
     (if x \<noteq> y
      then let s1 = sk_close os x s; s2 = set_fd x (fd_of y s1) s1 in set_fd y kInvalidSocket s2
      else s)"

definition sk_release :: "nat \<Rightarrow> sockets \<Rightarrow> handle \<times> sockets" where
  "sk_release x s = (fd_of x s, set_fd x kInvalidSocket s)"

text \<open>What a program does with them; an object it has destroyed is not used again.\<close>

inductive socket_step :: "os \<Rightarrow> sockets \<Rightarrow> sockets \<Rightarrow> bool" for os where
  create: "createTcpSocket os (trace s) = (fd, h) \<Longrightarrow>
    socket_step os s (s\<lparr>raw := raw s @ [fd], trace := h\<rparr>)"
| default: "socket_step os s (sk_default s)"
| adopt: "fd \<in> set (raw s) \<Longrightarrow> socket_step os s (sk_adopt fd s)"
| move: "y < length (objs s) \<Longrightarrow> socket_step os s (sk_move y s)"
| assign: "x < length (objs s) \<Longrightarrow> y < length (objs s) \<Longrightarrow> socket_step os s (sk_assign os x y s)"
| close: "x < length (objs s) \<Longrightarrow> socket_step os s (sk_close os x s)"
| release: "x < length (objs s) \<Longrightarrow> sk_release x s = (fd, s') \<Longrightarrow>
    socket_step os s (s'\<lparr>raw := raw s' @ [fd]\<rparr>)"

inductive sockets_reachable :: "os \<Rightarrow> sockets \<Rightarrow> bool" for os where
  start: "sockets_reachable os no_sockets"
| step: "sockets_reachable os s \<Longrightarrow> socket_step os s s' \<Longrightarrow> sockets_reachable os s'"

section \<open>Every descriptor has one owner\<close>

lemma count_list_update:
  "i < length xs \<Longrightarrow> count_list (xs[i := y]) z + of_bool (xs ! i = z) = count_list xs z + of_bool (y = z)"
proof (induction xs arbitrary: i)
  case (Cons x xs)
  then show ?case
  proof (cases i)
    case (Suc j)
    with Cons.IH[of j] Cons.prems show ?thesis by simp
  qed simp
qed simp

definition owners :: "handle \<Rightarrow> sockets \<Rightarrow> nat" where
  "owners fd s = count_list (objs s) fd + count_list (raw s) fd"

definition owned_ok :: "sockets \<Rightarrow> bool" where
  "owned_ok s \<longleftrightarrow> (\<forall>fd. 0 \<le> fd \<longrightarrow> held fd (trace s) = int (owners fd s))"

lemma owners_set_fd:
  assumes "x < length (objs s)"
  shows "owners fd (set_fd x y s) + of_bool (fd_of x s = fd) = owners fd s + of_bool (y = fd)"
  using count_list_update[OF assms, of y fd] by (simp add: owners_def set_fd_def fd_of_def)

lemma set_fd_frame [simp]:
  "trace (set_fd x fd s) = trace s" "raw (set_fd x fd s) = raw s" "length (objs (set_fd x fd s)) = length (objs s)"
  by (simp_all add: set_fd_def)

lemma owned_ok_close:
  assumes "x < length (objs s)" and "owned_ok s"
  shows "owned_ok (sk_close os x s)"
  unfolding owned_ok_def
proof (intro allI impI)
  fix fd :: int
  assume fd: "0 \<le> fd"
  let ?h = "snd (ms_close os (fd_of x s) (trace s))"
  have s: "sk_close os x s = set_fd x kInvalidSocket (s\<lparr>trace := ?h\<rparr>)"
    by (simp add: sk_close_def split_beta ms_close_simps)
  have "owners fd (sk_close os x s) + of_bool (fd_of x s = fd) = owners fd s"
    using owners_set_fd[of x "s\<lparr>trace := ?h\<rparr>" fd kInvalidSocket] assms(1) fd
    by (simp add: s kInvalidSocket_def fd_of_def owners_def)
  moreover have "held fd (trace (sk_close os x s)) = held fd (trace s) - of_bool (fd_of x s = fd)"
    using fd by (auto simp: s ms_close_simps ms_valid_def kInvalidSocket_def)
  moreover have "held fd (trace s) = int (owners fd s)" using assms(2) fd by (simp add: owned_ok_def)
  ultimately show "held fd (trace (sk_close os x s)) = int (owners fd (sk_close os x s))"
    by (cases "fd_of x s = fd") simp_all
qed

lemma sk_close_fd: "x < length (objs s) \<Longrightarrow> fd_of x (sk_close os x s) = kInvalidSocket"
  by (simp add: sk_close_def split_beta ms_close_simps fd_of_def set_fd_def)

lemma length_sk_close [simp]: "length (objs (sk_close os x s)) = length (objs s)"
  by (simp add: sk_close_def split_beta)

lemma owned_ok_assign:
  assumes "x < length (objs s)" and "y < length (objs s)" and "owned_ok s"
  shows "owned_ok (sk_assign os x y s)"
proof (cases "x = y")
  case False
  let ?s = "sk_close os x s"
  have ok: "owned_ok ?s" by (rule owned_ok_close[OF assms(1,3)])
  have y: "fd_of y (set_fd x (fd_of y ?s) ?s) = fd_of y ?s"
    using False by (simp add: fd_of_def set_fd_def)
  have "owners fd (set_fd y kInvalidSocket (set_fd x (fd_of y ?s) ?s)) = owners fd ?s" if "0 \<le> fd" for fd
    using owners_set_fd[of x ?s fd "fd_of y ?s"] owners_set_fd[of y "set_fd x (fd_of y ?s) ?s" fd kInvalidSocket]
      assms(1,2) that sk_close_fd[OF assms(1), of os] y by (simp add: kInvalidSocket_def)
  with ok False show ?thesis by (simp add: owned_ok_def sk_assign_def Let_def)
qed (use assms(3) in \<open>simp add: sk_assign_def\<close>)

lemma owned_ok_step: "socket_step os s s' \<Longrightarrow> owned_ok s \<Longrightarrow> owned_ok s'"
proof (induction rule: socket_step.induct)
  case (create s fd h)
  then show ?case
    by (auto simp: createTcpSocket_def Let_def owned_ok_def owners_def fromPosix_def kInvalidSocket_def)
next
  case (default s)
  then show ?case by (simp add: owned_ok_def owners_def sk_default_def kInvalidSocket_def)
next
  case (adopt fd s)
  have "owners k (sk_adopt fd s) = owners k s" for k
  proof (cases "fd = k")
    case True
    from adopt(1) have "count_list (raw s) fd \<noteq> 0" by (simp add: count_list_0_iff)
    with True show ?thesis by (simp add: owners_def sk_adopt_def)
  qed (simp add: owners_def sk_adopt_def)
  with adopt(2) show ?case by (simp add: owned_ok_def) (simp add: sk_adopt_def)
next
  case (move y s)
  let ?s = "s\<lparr>objs := objs s @ [fd_of y s]\<rparr>"
  have "owners fd (sk_move y s) = owners fd s" if "0 \<le> fd" for fd
    using owners_set_fd[of y ?s fd kInvalidSocket] move(1) that
    by (cases "objs s ! y = fd") (simp_all add: sk_move_def owners_def fd_of_def nth_append kInvalidSocket_def)
  with move(2) show ?case by (simp add: owned_ok_def) (simp add: sk_move_def)
next
  case (assign x s y)
  then show ?case by (simp add: owned_ok_assign)
next
  case (close x s)
  then show ?case by (simp add: owned_ok_close)
next
  case (release x s fd s')
  then have s': "s' = set_fd x kInvalidSocket s" "fd = fd_of x s" by (simp_all add: sk_release_def)
  have "owners k (s'\<lparr>raw := raw s' @ [fd]\<rparr>) = owners k s" if "0 \<le> k" for k
    using owners_set_fd[OF release(1), of k kInvalidSocket] s' that
    by (cases "fd_of x s = k") (simp_all add: owners_def kInvalidSocket_def)
  with release(3) s' show ?case by (simp add: owned_ok_def)
qed

lemma owned_ok_reachable: "sockets_reachable os s \<Longrightarrow> owned_ok s"
proof (induction rule: sockets_reachable.induct)
  case start
  show ?case by (simp add: owned_ok_def no_sockets_def owners_def)
qed (rule owned_ok_step)

text \<open>C36. Managed sockets: whatever a program does with them - constructors, moves, assignments to the object itself or
  to another, releases, closing and destroying - a descriptor has as many owners as it has been opened more
  often than closed. So no descriptor is closed twice or while another object owns it, and
  once every object is closed and no raw handle is left, every descriptor has been closed.\<close>

theorem managed_sockets_close_once:
  assumes "sockets_reachable os s" and "0 \<le> fd"
  shows "held fd (trace s) = int (count_list (objs s) fd + count_list (raw s) fd) \<and>
    ((\<forall>x\<in>set (objs s). \<not> ms_valid x) \<and> raw s = [] \<longrightarrow> held fd (trace s) = 0)"
  using owned_ok_reachable[OF assms(1)] assms(2)
  by (force simp: owned_ok_def owners_def ms_valid_def kInvalidSocket_def count_list_0_iff)

text \<open>A socket is opened, owned by one object, moved to a second one and closed by it.\<close>

theorem managed_sockets_close_once_witness:
  "let s = sk_close demo_os 1 (sk_move 0 (sk_adopt 7 (no_sockets\<lparr>raw := [7], trace := [Ev_socket 7]\<rparr>)))
   in trace s = [Ev_socket 7, Ev_close 7] \<and> held 7 (trace s) = 0"
proof -
  let ?a = "no_sockets\<lparr>raw := raw no_sockets @ [7], trace := [Ev_socket 7]\<rparr>"
  let ?s = "sk_close demo_os 1 (sk_move 0 (sk_adopt 7 ?a))"
  have "sockets_reachable demo_os ?a"
    by (rule sockets_reachable.step[OF sockets_reachable.start socket_step.create])
      (simp add: createTcpSocket_def no_sockets_def demo_os_def fromPosix_def)
  then have "sockets_reachable demo_os (sk_adopt 7 ?a)"
    by (rule sockets_reachable.step) (rule socket_step.adopt, simp)
  then have "sockets_reachable demo_os (sk_move 0 (sk_adopt 7 ?a))"
    by (rule sockets_reachable.step) (rule socket_step.move, simp add: sk_adopt_def no_sockets_def)
  then have r: "sockets_reachable demo_os ?s"
    by (rule sockets_reachable.step) (rule socket_step.close, simp add: sk_adopt_def sk_move_def no_sockets_def)
  have "objs ?s = [kInvalidSocket, kInvalidSocket]" "raw ?s = []" "trace ?s = [Ev_socket 7, Ev_close 7]"
    by (simp_all add: no_sockets_def sk_adopt_def sk_move_def sk_close_def fd_of_def set_fd_def ms_close_def
        ms_valid_def kInvalidSocket_def closeSocket_def toPosix_def)
  with managed_sockets_close_once[OF r, of 7] show ?thesis
    by (simp add: no_sockets_def ms_valid_def)
qed

end
