(* ===== verification/Remove_Tree.thy ===== *)
theory Remove_Tree
  imports Platform
begin

text \<open>
  \<open>removeDirRecursive\<close> of \<open>src/common/platform.cpp\<close>. The recursion is on what the system answers, so
  the function is partial: \<open>None\<close> stands for a call that never returns, as on a system whose directories
  go down for ever (a link to a parent, since \<open>stat\<close> follows links).
\<close>

section \<open>The function\<close>

text \<open>\<open>Inl\<close>: the call on a path; \<open>Inr\<close>: its loop over the entries still to be removed.\<close>

partial_function (option) remove_tree ::
    "os \<Rightarrow> string + string \<times> FileInfo list \<Rightarrow> hist \<Rightarrow> (bool \<times> hist) option" where
  "remove_tree os job h =
     (case job of
        Inl path \<Rightarrow>
          if \<not> fst (isDirectory os path h) then Some (deleteFile os path (snd (isDirectory os path h)))
          else let (entries, h1) = listDirectory os path (snd (isDirectory os path h))
               in remove_tree os (Inr (path, entries)) h1
      | Inr (path, entries) \<Rightarrow>
          (case entries of
             [] \<Rightarrow> Some (removeDir os path h)
           | e # es \<Rightarrow>
               let child = path @ ''/'' @ fi_name e
               in Option.bind
                    (if fi_isDirectory e then remove_tree os (Inl child) h else Some (deleteFile os child h))
                    (\<lambda>(ok, h1). if \<not> ok then Some (False, h1) else remove_tree os (Inr (path, es)) h1)))"

definition removeDirRecursive :: "os \<Rightarrow> string \<Rightarrow> hist \<Rightarrow> (bool \<times> hist) option" where
  "removeDirRecursive os path h = remove_tree os (Inl path) h"

lemma remove_tree_simps:
  "remove_tree os (Inl path) h =
     (if \<not> fst (isDirectory os path h) then Some (deleteFile os path (snd (isDirectory os path h)))
      else remove_tree os (Inr (path, fst (listDirectory os path (snd (isDirectory os path h)))))
             (snd (listDirectory os path (snd (isDirectory os path h)))))"
  "remove_tree os (Inr (path, [])) h = Some (removeDir os path h)"
  "remove_tree os (Inr (path, e # es)) h =
     Option.bind
       (if fi_isDirectory e then remove_tree os (Inl (path @ ''/'' @ fi_name e)) h
        else Some (deleteFile os (path @ ''/'' @ fi_name e) h))
       (\<lambda>(ok, h1). if \<not> ok then Some (False, h1) else remove_tree os (Inr (path, es)) h1)"
  by (subst remove_tree.simps[of os "Inl path"], simp add: Let_def split_beta)
    (subst remove_tree.simps[of os "Inr _"], simp add: Let_def split_beta cong: if_cong)+

section \<open>What it touches\<close>

definition job_path :: "string + string \<times> FileInfo list \<Rightarrow> string" where
  "job_path job = (case job of Inl path \<Rightarrow> path | Inr (path, entries) \<Rightarrow> path)"

definition below :: "string \<Rightarrow> string \<Rightarrow> bool" where
  "below path p \<longleftrightarrow> p = path \<or> (\<exists>rest. p = path @ CHR ''/'' # rest)"

lemma below_simps [simp]: "below path path" "below path (path @ CHR ''/'' # name)"
  by (simp_all add: below_def)

lemma below_trans: "below (path @ CHR ''/'' # name) p \<Longrightarrow> below path p"
  by (auto simp: below_def)

lemma isDirectory_trace [simp]: "snd (isDirectory os path h) = h @ [Ev_stat path]"
  by (simp add: isDirectory_def)

text \<open>Whether a call that removes something succeeded.\<close>

definition call_ok :: "os \<Rightarrow> hist \<Rightarrow> event \<Rightarrow> bool" where
  "call_ok os h e = (case e of Ev_remove p \<Rightarrow> os_remove os h p | Ev_rmdir p \<Rightarrow> os_rmdir os h p | _ \<Rightarrow> True)"

primrec calls_ok :: "os \<Rightarrow> hist \<Rightarrow> event list \<Rightarrow> bool" where
  "calls_ok os h [] = True"
| "calls_ok os h (e # es) = (call_ok os h e \<and> calls_ok os (h @ [e]) es)"

lemma calls_ok_append [simp]:
  "calls_ok os h (es @ fs) \<longleftrightarrow> calls_ok os h es \<and> calls_ok os (h @ es) fs"
  by (induction es arbitrary: h) auto

lemma calls_ok_listing: "\<forall>e\<in>set es. listing_event path e \<Longrightarrow> calls_ok os h es"
  by (induction es arbitrary: h) (auto simp: call_ok_def listing_event_def)

text \<open>
  What a call on \<open>path\<close> does: calls below the path, all of them successful but perhaps the last one, which
  decides the result; with success the last one removes the path itself.
\<close>

definition removal :: "os \<Rightarrow> string \<Rightarrow> hist \<Rightarrow> bool \<times> hist \<Rightarrow> bool" where
  "removal os path h r \<longleftrightarrow>
     (\<exists>es e. snd r = h @ es @ [e] \<and> paths_ok (below path) (es @ [e]) \<and> calls_ok os h es \<and>
        fst r = call_ok os (h @ es) e \<and> (fst r \<longrightarrow> e = Ev_rmdir path \<or> e = Ev_remove path))"

lemma removal_after:
  assumes "removal os path (h @ fs) r" and "paths_ok (below path) fs" and "calls_ok os h fs"
  shows "removal os path h r"
proof -
  from assms(1) obtain es e where r: "snd r = (h @ fs) @ es @ [e]" "paths_ok (below path) (es @ [e])"
    "calls_ok os (h @ fs) es" "fst r = call_ok os ((h @ fs) @ es) e"
    "fst r \<longrightarrow> e = Ev_rmdir path \<or> e = Ev_remove path"
    unfolding removal_def by blast
  with assms(2,3) show ?thesis
    unfolding removal_def by (intro exI[of _ "fs @ es"] exI[of _ e]) simp
qed

lemma removal_child:
  assumes "removal os (path @ CHR ''/'' # name) h (ok, h1)"
  obtains fs where "h1 = h @ fs" "paths_ok (below path) fs" "ok \<longleftrightarrow> calls_ok os h fs"
    "\<not> ok \<longrightarrow> removal os path h (False, h1)"
proof -
  from assms obtain es e where r: "h1 = h @ es @ [e]" "paths_ok (below (path @ CHR ''/'' # name)) (es @ [e])"
    "calls_ok os h es" "ok = call_ok os (h @ es) e"
    unfolding removal_def by auto
  have p: "paths_ok (below path) (es @ [e])"
    by (rule paths_ok_mono[OF r(2)]) (simp add: below_trans)
  show thesis
  proof (rule that[of "es @ [e]"])
    show "\<not> ok \<longrightarrow> removal os path h (False, h1)"
      using r p unfolding removal_def by (intro impI exI[of _ es] exI[of _ e]) simp
  qed (use r p in simp_all)
qed

lemma removal_delete: "removal os path h (deleteFile os path h)"
  unfolding removal_def deleteFile_def by (intro exI[of _ "[]"] exI[of _ "Ev_remove path"]) (simp add: call_ok_def)

lemma removal_rmdir: "removal os path h (removeDir os path h)"
  unfolding removal_def removeDir_def by (intro exI[of _ "[]"] exI[of _ "Ev_rmdir path"]) (simp add: call_ok_def)

lemma listing_below:
  "\<exists>fs. snd (listDirectory os path h) = h @ fs \<and> paths_ok (below path) fs \<and> calls_ok os h fs"
proof -
  obtain fs where fs: "snd (listDirectory os path h) = h @ fs" "\<forall>e\<in>set fs. listing_event path e"
    using listDirectory_trace by blast
  from fs(2) have "paths_ok (below path) fs" by (force simp: paths_ok_def listing_event_def)
  with fs calls_ok_listing show ?thesis by blast
qed

lemma remove_tree_removal:
  assumes "remove_tree os job h = Some r"
  shows "removal os (job_path job) h r"
  using assms
proof (induct os job h r rule: remove_tree.raw_induct[rotated, consumes 1])
  case (1 f os job h r)
  show ?case
  proof (cases job)
    case (Inl path)
    have stat: "paths_ok (below path) [Ev_stat path]" "calls_ok os h [Ev_stat path]"
      by (simp_all add: call_ok_def)
    have "removal os path (h @ [Ev_stat path]) r"
    proof (cases "fst (isDirectory os path h)")
      case False
      with 1(2) Inl have "r = deleteFile os path (h @ [Ev_stat path])" by simp
      then show ?thesis by (simp add: removal_delete)
    next
      case True
      obtain es h1 where l: "listDirectory os path (h @ [Ev_stat path]) = (es, h1)" by fastforce
      with 1(2) Inl True have "f os (Inr (path, es)) h1 = Some r" by simp
      from 1(1)[OF this] have "removal os path h1 r" by (simp add: job_path_def)
      with listing_below[of os path "h @ [Ev_stat path]"] l show ?thesis by (auto intro: removal_after)
    qed
    from removal_after[OF this stat] Inl show ?thesis by (simp add: job_path_def)
  next
    case (Inr pe)
    obtain path entries where pe: "pe = (path, entries)" by fastforce
    show ?thesis
    proof (cases entries)
      case Nil
      with 1(2) Inr pe show ?thesis by (auto simp: job_path_def removal_rmdir)
    next
      case (Cons e es)
      let ?child = "path @ CHR ''/'' # fi_name e"
      let ?first = "if fi_isDirectory e then f os (Inl ?child) h else Some (deleteFile os ?child h)"
      let ?rest = "\<lambda>(ok, h1). if \<not> ok then Some (False, h1) else f os (Inr (path, es)) h1"
      from 1(2) Inr pe Cons have "Option.bind ?first ?rest = Some r"
        by (simp add: Let_def split del: if_split)
      then obtain x where x: "?first = Some x" "?rest x = Some r" unfolding bind_eq_Some_conv by blast
      obtain ok h1 where okh1: "x = (ok, h1)" by fastforce
      have first: "?first = Some (ok, h1)" using x(1) okh1 by (simp only:)
      have rest: "(if \<not> ok then Some (False, h1) else f os (Inr (path, es)) h1) = Some r"
        using x(2) okh1 by simp
      have "removal os ?child h (ok, h1)"
        using first 1(1)[of os "Inl ?child" h "(ok, h1)"] removal_delete[of os ?child h]
        by (auto simp: job_path_def split: if_splits)
      then obtain fs where fs: "h1 = h @ fs" "paths_ok (below path) fs" "ok \<longleftrightarrow> calls_ok os h fs"
        "\<not> ok \<longrightarrow> removal os path h (False, h1)" by (rule removal_child)
      have "removal os path h r"
      proof (cases ok)
        case True
        with rest have "f os (Inr (path, es)) (h @ fs) = Some r" using fs(1) by simp
        from 1(1)[OF this] have "removal os path (h @ fs) r" by (simp add: job_path_def)
        with fs(2,3) True show ?thesis by (simp add: removal_after)
      qed (use rest fs(4) in simp)
      with Inr pe show ?thesis by (simp add: job_path_def)
    qed
  qed
qed

section \<open>When it returns\<close>

lemma remove_tree_returns:
  assumes shrink: "\<And>path h e. e \<in> set (fst (listDirectory os path h)) \<Longrightarrow> fi_isDirectory e \<Longrightarrow>
    (rank (path @ ''/'' @ fi_name e) :: nat) < rank path"
  shows "\<exists>r. remove_tree os (Inl path) h = Some r"
proof (induction "rank path" arbitrary: path h rule: less_induct)
  case less
  have loop: "\<exists>r. remove_tree os (Inr (path, es)) h = Some r"
    if "\<forall>e\<in>set es. fi_isDirectory e \<longrightarrow> rank (path @ ''/'' @ fi_name e) < rank path" for es h
    using that
  proof (induction es arbitrary: h)
    case (Cons e es)
    have "\<exists>ok h1. (if fi_isDirectory e then remove_tree os (Inl (path @ ''/'' @ fi_name e)) h
        else Some (deleteFile os (path @ ''/'' @ fi_name e) h)) = Some (ok, h1)"
      using less[of "path @ ''/'' @ fi_name e" h] Cons.prems by auto
    with Cons show ?case by (auto simp: remove_tree_simps(3))
  qed (simp add: remove_tree_simps)
  show ?case
    using loop shrink by (auto simp: remove_tree_simps(1) isDirectory_def)
qed

section \<open>Properties\<close>

text \<open>C37. \<open>removeDirRecursive\<close> returns on every system whose directories below a path nest to a finite depth. It
  asks the system about nothing but the path and what lies below it, stops at the first removal
  that fails, and reports success exactly when every removal succeeded; the last one is then that of the
  path itself.\<close>

theorem remove_recursive_stays_below:
  assumes "\<And>p h e. e \<in> set (fst (listDirectory os p h)) \<Longrightarrow> fi_isDirectory e \<Longrightarrow>
    (rank (p @ ''/'' @ fi_name e) :: nat) < rank p"
  shows "\<exists>ok es e. removeDirRecursive os path h = Some (ok, h @ es @ [e]) \<and>
    paths_ok (below path) (es @ [e]) \<and> calls_ok os h es \<and> ok = call_ok os (h @ es) e \<and>
    (ok \<longrightarrow> e = Ev_rmdir path \<or> e = Ev_remove path)"
proof -
  obtain r where r: "remove_tree os (Inl path) h = Some r"
    using remove_tree_returns[of os rank path h] assms by blast
  from remove_tree_removal[OF r] obtain es e where "snd r = h @ es @ [e]" "paths_ok (below path) (es @ [e])"
    "calls_ok os h es" "fst r = call_ok os (h @ es) e" "fst r \<longrightarrow> e = Ev_rmdir path \<or> e = Ev_remove path"
    by (auto simp: removal_def job_path_def)
  with r show ?thesis
    by (intro exI[of _ "fst r"] exI[of _ es] exI[of _ e]) (auto simp: removeDirRecursive_def prod_eq_iff)
qed

text \<open>A directory with one file, on a system with one level of directories.\<close>

definition flat_os :: os where
  "flat_os = demo_os\<lparr>os_readdir := (\<lambda>h p. if p = ''d'' then Some [''A''] else None),
     os_stat := (\<lambda>h p. Some \<lparr>st_dir = (p = ''d''), st_size = 0, st_mtime = 0\<rparr>)\<rparr>"

theorem remove_recursive_stays_below_witness:
  "removeDirRecursive flat_os ''d'' [] = Some (True,
     [Ev_stat ''d'', Ev_readdir ''d'', Ev_stat ''d/A'', Ev_remove ''d/A'', Ev_rmdir ''d''])"
proof -
  have flat: "\<not> fi_isDirectory e" if "e \<in> set (fst (listDirectory flat_os p h))" for e p h
    using that by (auto simp: listDirectory_def flat_os_def demo_os_def split: if_splits)
  obtain ok es e where "removeDirRecursive flat_os ''d'' [] = Some (ok, [] @ es @ [e])"
    using remove_recursive_stays_below[of flat_os "\<lambda>_. 0" "''d''" "[]"] flat by blast
  moreover have "removeDirRecursive flat_os ''d'' [] = Some (True,
     [Ev_stat ''d'', Ev_readdir ''d'', Ev_stat ''d/A'', Ev_remove ''d/A'', Ev_rmdir ''d''])"
    by (simp add: removeDirRecursive_def remove_tree_simps isDirectory_def listDirectory_def
        deleteFile_def removeDir_def flat_os_def demo_os_def)
  ultimately show ?thesis by simp
qed

end
