(* ===== verification/Platform_Win.thy ===== *)
theory Platform_Win
  imports Platform "HOL-Library.Signed_Division"
begin

unbundle bit_operations_syntax

text \<open>
  The Windows branches of \<open>src/common/platform.cpp\<close> that are not the POSIX code with another system call:
  the conversion of socket handles, the timeout in milliseconds, directory listings, file attributes
  and \<open>TransmitFile\<close>. What Windows answers is again a record of oracles.
\<close>

section \<open>The system\<close>

record find_data =
  cFileName :: string
  dwFileAttributes :: "32 word"
  nFileSizeHigh :: "32 word"
  nFileSizeLow :: "32 word"

definition FILE_ATTRIBUTE_DIRECTORY :: "32 word" where
  "FILE_ATTRIBUTE_DIRECTORY = 0x10"

definition INVALID_FILE_ATTRIBUTES :: "32 word" where
  "INVALID_FILE_ATTRIBUTES = 0xFFFFFFFF"

definition INVALID_SOCKET :: "64 word" where
  "INVALID_SOCKET = - 1"

text \<open>\<open>FindFirstFileA\<close> gives nothing or the entries that \<open>FindNextFileA\<close> goes through, at least one.\<close>

record winsys =
  w_startup :: "hist \<Rightarrow> int"
  w_find :: "hist \<Rightarrow> string \<Rightarrow> (find_data \<times> find_data list) option"
  w_attributes :: "hist \<Rightarrow> string \<Rightarrow> 32 word"
  w_createfile :: "hist \<Rightarrow> string \<Rightarrow> bool"
  w_seek :: "hist \<Rightarrow> string \<Rightarrow> int \<Rightarrow> bool"
  w_filesize :: "hist \<Rightarrow> string \<Rightarrow> int"
  w_transmit :: "hist \<Rightarrow> 64 word \<Rightarrow> string \<Rightarrow> bool"

section \<open>Handles and options\<close>

definition toWin :: "handle \<Rightarrow> 64 word" where
  "toWin h = word_of_int h"

definition fromWin :: "64 word \<Rightarrow> handle" where
  "fromWin s = (if s = INVALID_SOCKET then kInvalidSocket else sint s)"

definition win_initNetworking :: "winsys \<Rightarrow> hist \<Rightarrow> bool" where
  "win_initNetworking win h \<longleftrightarrow> w_startup win h = 0"

text \<open>\<open>seconds * 1000\<close> is \<open>int\<close> arithmetic: \<open>None\<close> where it overflows, which C++ leaves undefined.\<close>

definition win_setRecvTimeout :: "handle \<Rightarrow> int \<Rightarrow> hist \<Rightarrow> hist option" where
  "win_setRecvTimeout sock seconds h =
     (if seconds \<le> 0 then Some h
      else if int32 (seconds * 1000)
      then Some (h @ [Ev_setsockopt (sint (toWin sock)) (Opt_rcvtimeo (uint (word_of_int (seconds * 1000) :: 32 word)))])
      else None)"

section \<open>Files\<close>

definition win_size :: "32 word \<Rightarrow> 32 word \<Rightarrow> 64 word" where
  "win_size high low = push_bit 32 (ucast high) OR ucast low"

definition is_dir_attribute :: "32 word \<Rightarrow> bool" where
  "is_dir_attribute a \<longleftrightarrow> a AND FILE_ATTRIBUTE_DIRECTORY \<noteq> 0"

primrec win_entries :: "find_data list \<Rightarrow> FileInfo list" where
  "win_entries [] = []"
| "win_entries (fd # fds) =
     (if cFileName fd = ''.'' \<or> cFileName fd = ''..'' then win_entries fds
      else \<lparr>fi_name = cFileName fd, fi_isDirectory = is_dir_attribute (dwFileAttributes fd),
            fi_size = win_size (nFileSizeHigh fd) (nFileSizeLow fd)\<rparr> # win_entries fds)"

definition win_listDirectory :: "winsys \<Rightarrow> string \<Rightarrow> hist \<Rightarrow> FileInfo list \<times> hist" where
  "win_listDirectory win path h =
     (case w_find win h (path @ [CHR 0x5C, CHR ''*'']) of
        None \<Rightarrow> ([], h @ [Ev_readdir (path @ [CHR 0x5C, CHR ''*''])])
      | Some (fd, fds) \<Rightarrow> (win_entries (fd # fds), h @ [Ev_readdir (path @ [CHR 0x5C, CHR ''*''])]))"

definition win_isDirectory :: "winsys \<Rightarrow> string \<Rightarrow> hist \<Rightarrow> bool \<times> hist" where
  "win_isDirectory win path h =
     (let a = w_attributes win h path
      in (a \<noteq> INVALID_FILE_ATTRIBUTES \<and> is_dir_attribute a, h @ [Ev_stat path]))"

definition win_pathExists :: "winsys \<Rightarrow> string \<Rightarrow> hist \<Rightarrow> bool \<times> hist" where
  "win_pathExists win path h = (w_attributes win h path \<noteq> INVALID_FILE_ATTRIBUTES, h @ [Ev_stat path])"

section \<open>TransmitFile\<close>

text \<open>
  The offset is handed to \<open>SetFilePointerEx\<close> as a signed number; the bytes sent are computed from the size,
  and a count of zero bytes stands for everything that remains.
\<close>

definition win_transmitFile ::
    "winsys \<Rightarrow> handle \<Rightarrow> string \<Rightarrow> 64 word \<Rightarrow> hist \<Rightarrow> (bool \<times> 64 word) \<times> hist" where
  "win_transmitFile win sock path offset h =
     (let h1 = h @ [Ev_open path]
      in if \<not> w_createfile win h path then ((False, 0), h1)
         else
           let seek = (0 < offset);
               h2 = (if seek then h1 @ [Ev_fseek path (sint offset)] else h1)
           in if seek \<and> \<not> w_seek win h1 path (sint offset) then ((False, 0), h2 @ [Ev_fclose path])
              else
                let sendSize = word_of_int (w_filesize win h2 path) - offset;
                    ok = w_transmit win h2 (toWin sock) path;
                    h3 = h2 @ [Ev_sendfile (sint (toWin sock)) path offset 0, Ev_fclose path]
                in if ok then ((True, sendSize), h3) else ((False, 0), h3))"

section \<open>Lemmas\<close>

lemma fromWin_toWin: "toWin (fromWin s) = s"
  by (simp add: toWin_def fromWin_def INVALID_SOCKET_def kInvalidSocket_def)

lemma toWin_fromWin:
  assumes "- (2 ^ 63) \<le> h" and "h < 2 ^ 63"
  shows "fromWin (toWin h) = h"
proof -
  have "sint (word_of_int h :: 64 word) = h"
    using assms by (simp add: signed_of_int signed_take_bit_int_eq_self)
  moreover from this have "(word_of_int h :: 64 word) = - 1 \<longleftrightarrow> h = - 1" by (metis sint_n1 word_of_int_neg_1)
  ultimately show ?thesis by (simp add: toWin_def fromWin_def INVALID_SOCKET_def kInvalidSocket_def)
qed

lemma uint_win_size: "uint (win_size high low) = uint high * 2 ^ 32 + uint low"
proof -
  have "push_bit 32 (ucast high) AND (ucast low :: 64 word) = 0"
    by (rule bit_word_eqI) (auto simp: bit_simps dest: bit_imp_le_length)
  then have "win_size high low = push_bit 32 (ucast high) + ucast low"
    unfolding win_size_def by (rule disjunctive_add_eq_or[symmetric])
  moreover have "uint high < 2 ^ 32" "uint low < 2 ^ 32"
    using uint_lt2p[of high] uint_lt2p[of low] by simp_all
  ultimately show ?thesis
    by (simp add: push_bit_eq_mult uint_word_ariths uint_up_ucast is_up)
qed

lemma win_entries_posix:
  assumes "\<forall>f\<in>set fds. \<forall>h. os_stat os h (path @ ''/'' @ cFileName f) = Some (st f) \<and>
      st_dir (st f) = is_dir_attribute (dwFileAttributes f) \<and> st_size (st f) = win_size (nFileSizeHigh f) (nFileSizeLow f)"
  shows "fst (list_entries os path (map cFileName fds) h) = win_entries fds"
  using assms by (induction fds arbitrary: h) (auto simp: Let_def split_beta)

section \<open>Properties\<close>

text \<open>The two branches of \<open>listDirectory\<close> agree: of a directory whose entries Windows and the POSIX system show with
  the same names, kinds and sizes, both return the same list, without the dot entries; the
  size put together from its two halves is their number, and socket handles survive their conversions.\<close>

theorem windows_listing_agrees:
  assumes "w_find win h (path @ [CHR 0x5C, CHR ''*'']) = Some (fd, fds)"
    and "os_readdir os h' path = Some (map cFileName (fd # fds))"
    and "\<forall>f\<in>set (fd # fds). \<forall>h. os_stat os h (path @ ''/'' @ cFileName f) = Some (st f) \<and>
      st_dir (st f) = is_dir_attribute (dwFileAttributes f) \<and> st_size (st f) = win_size (nFileSizeHigh f) (nFileSizeLow f)"
  shows "fst (win_listDirectory win path h) = fst (listDirectory os path h') \<and>
    (\<forall>fi\<in>set (fst (win_listDirectory win path h)). fi_name fi \<noteq> ''.'' \<and> fi_name fi \<noteq> ''..'') \<and>
    uint (win_size (nFileSizeHigh fd) (nFileSizeLow fd)) = uint (nFileSizeHigh fd) * 2 ^ 32 + uint (nFileSizeLow fd) \<and>
    toWin (fromWin s) = s"
proof -
  have "fst (win_listDirectory win path h) = win_entries (fd # fds)"
    using assms(1) by (simp add: win_listDirectory_def)
  moreover have "fst (listDirectory os path h') = win_entries (fd # fds)"
    using assms(2) win_entries_posix[OF assms(3)] by (simp add: listDirectory_def del: win_entries.simps list.map)
  ultimately show ?thesis using listDirectory_names[of _ os path h']
    by (simp add: uint_win_size fromWin_toWin del: win_entries.simps)
qed

definition demo_fd :: find_data where
  "demo_fd = \<lparr>cFileName = ''A.TXT'', dwFileAttributes = 0x20, nFileSizeHigh = 1, nFileSizeLow = 7\<rparr>"

definition demo_win :: winsys where
  "demo_win = \<lparr>w_startup = (\<lambda>h. 0), w_find = (\<lambda>h p. Some (demo_fd\<lparr>cFileName := ''.''\<rparr>, [demo_fd])), w_attributes = (\<lambda>h p. 0x20),
     w_createfile = (\<lambda>h p. True), w_seek = (\<lambda>h p off. 0 \<le> off), w_filesize = (\<lambda>h p. 11),
     w_transmit = (\<lambda>h s p. True)\<rparr>"

theorem windows_listing_agrees_witness:
  "fst (win_listDirectory demo_win ''d'' []) = [\<lparr>fi_name = ''A.TXT'', fi_isDirectory = False, fi_size = 0x100000007\<rparr>]"
proof -
  let ?os = "demo_os\<lparr>os_readdir := (\<lambda>h p. Some [''.'', ''A.TXT'']),
    os_stat := (\<lambda>h p. Some \<lparr>st_dir = False, st_size = 0x100000007, st_mtime = 0\<rparr>)\<rparr>"
  have s: "win_size 1 7 = 0x100000007" by (rule word_uint_eqI) (simp add: uint_win_size)
  have "fst (win_listDirectory demo_win ''d'' []) = fst (listDirectory ?os ''d'' [])"
    using windows_listing_agrees[of demo_win "[]" "''d''" "demo_fd\<lparr>cFileName := ''.''\<rparr>" "[demo_fd]" ?os "[]"
        "\<lambda>_. \<lparr>st_dir = False, st_size = 0x100000007, st_mtime = 0\<rparr>"]
    by (simp add: demo_win_def demo_fd_def s is_dir_attribute_def FILE_ATTRIBUTE_DIRECTORY_def)
  then show ?thesis by (simp add: listDirectory_def)
qed



end
