(* ===== verification/File_Store.thy ===== *)
theory File_Store
  imports Session_Transfers
begin

text \<open>
  A session as a file store. The trace of a session is read as operations on a map from paths to
  contents, and as bytes on the data connection; a system is faithful when what it answers is what this reading
  says. Over such a system the transfers, deletions and renamings of \<open>src/server/session.cpp\<close> implement
  a map.
\<close>

section \<open>Reading a trace\<close>

text \<open>The files, and what has gone out on the data connection.\<close>

type_synonym store = "(string \<rightharpoonup> string) \<times> string"

text \<open>One call of \<open>sendfile\<close> moves at most this many bytes.\<close>

definition sendfile_max :: nat where "sendfile_max = 2147479552"

definition part_sent :: "64 word \<Rightarrow> 64 word \<Rightarrow> string \<Rightarrow> string" where
  "part_sent off n c = take (min (unat n) sendfile_max) (drop (unat off) c)"

text \<open>
  Writing appends: a file is opened for writing at its beginning, then empty, or for appending. The
  renaming of what is not a known file may be that of a directory and is left open (\<open>None\<close>).
\<close>

fun store_event :: "os \<Rightarrow> int \<Rightarrow> hist \<Rightarrow> event \<Rightarrow> store \<Rightarrow> store option" where
  "store_event os ds h (Ev_fopen p m) (fs, out) = Some
     (if os_fopen os h p m \<and> (m = ''wb'' \<or> m = ''ab'' \<and> fs p = None) then fs(p \<mapsto> []) else fs, out)"
| "store_event os ds h (Ev_fwrite p d) (fs, out) = Some
     (case fs p of None \<Rightarrow> fs | Some c \<Rightarrow> fs(p \<mapsto> c @ d), out)"
| "store_event os ds h (Ev_remove p) (fs, out) = Some (if os_remove os h p then fs(p := None) else fs, out)"
| "store_event os ds h (Ev_rename p q) (fs, out) =
     (if \<not> os_rename os h p q \<or> p = q then Some (fs, out)
      else if fs p = None then None else Some (fs(q := fs p, p := None), out))"
| "store_event os ds h (Ev_send s d) (fs, out) = Some (fs, if s = ds then out @ d else out)"
| "store_event os ds h (Ev_sendfile s p off n) (fs, out) = Some
     (fs, if s = ds \<and> 0 \<le> os_sendfile os h s p off n
          then (case fs p of None \<Rightarrow> out | Some c \<Rightarrow> out @ part_sent off n c) else out)"
| "store_event os ds h e (fs, out) = Some (fs, out)"

fun replay :: "os \<Rightarrow> int \<Rightarrow> hist \<Rightarrow> hist \<Rightarrow> store \<Rightarrow> store option" where
  "replay os ds h [] s = Some s"
| "replay os ds h (e # es) s = Option.bind (store_event os ds h e s) (replay os ds (h @ [e]) es)"

lemma replay_append:
  "replay os ds h (es @ es') s = Option.bind (replay os ds h es s) (replay os ds (h @ es) es')"
proof (induction es arbitrary: h s)
  case (Cons e es)
  then show ?case by (cases "store_event os ds h e s") simp_all
qed simp

text \<open>Events that leave the files and the data connection alone.\<close>

definition neutral :: "int \<Rightarrow> event \<Rightarrow> bool" where
  "neutral ds e \<longleftrightarrow> (case e of Ev_fopen p m \<Rightarrow> m \<noteq> ''wb'' \<and> m \<noteq> ''ab'' | Ev_fwrite p d \<Rightarrow> False | Ev_remove p \<Rightarrow> False
     | Ev_rename p q \<Rightarrow> False | Ev_send s d \<Rightarrow> s \<noteq> ds | Ev_sendfile s p off n \<Rightarrow> s \<noteq> ds | _ \<Rightarrow> True)"

lemma store_event_neutral: "neutral ds e \<Longrightarrow> store_event os ds h e s = Some s"
  by (cases s; cases e) (simp_all add: neutral_def)

lemma replay_neutral: "\<forall>e\<in>set es. neutral ds e \<Longrightarrow> replay os ds h es s = Some s"
  by (induction es arbitrary: h) (simp_all add: store_event_neutral)

text \<open>The trace so far, as a store that began with the files \<open>fs0\<close>.\<close>

definition store_of :: "os \<Rightarrow> int \<Rightarrow> (string \<rightharpoonup> string) \<Rightarrow> hist \<Rightarrow> store option" where
  "store_of os ds fs0 h = replay os ds [] h (fs0, [])"

lemma store_of_append: "store_of os ds fs0 h = Some s \<Longrightarrow> store_of os ds fs0 (h @ es) = replay os ds h es s"
  by (simp add: store_of_def replay_append)

lemma store_of_neutral:
  "store_of os ds fs0 h = Some s \<Longrightarrow> \<forall>e\<in>set es. neutral ds e \<Longrightarrow> store_of os ds fs0 (h @ es) = Some s"
  by (simp add: store_of_append replay_neutral)

section \<open>Faithful systems\<close>

text \<open>
  What \<open>stat\<close>, \<open>fopen\<close>, reading and \<open>sendfile\<close> answer about the files written before. What is not a file
  of the store does not exist or is a directory, and asking twice gives the same answer.
\<close>

definition faithful :: "os \<Rightarrow> int \<Rightarrow> (string \<rightharpoonup> string) \<Rightarrow> bool" where
  "faithful os ds fs0 \<longleftrightarrow> (\<forall>h fs out p. store_of os ds fs0 h = Some (fs, out) \<longrightarrow>
     (case fs p of
        None \<Rightarrow> (\<forall>st. os_stat os h p = Some st \<longrightarrow> st_dir st) \<and> os_stat os (h @ [Ev_stat p]) p = os_stat os h p
      | Some c \<Rightarrow> (\<exists>st. os_stat os h p = Some st \<and> \<not> st_dir st) \<and> os_fopen os h p ''rb'' \<and>
          os_content os h p = c \<and> os_remove os h p \<and> os_fstat_size os h p = word_of_nat (length c) \<and>
          (\<forall>off n. os_sendfile os h ds p off n = int (length (part_sent off n c)))))"

lemma faithful_file:
  assumes "faithful os ds fs0" and "store_of os ds fs0 h = Some (fs, out)" and "fs p = Some c"
  shows "\<exists>st. os_stat os h p = Some st \<and> \<not> st_dir st" and "os_fopen os h p ''rb''" and "os_content os h p = c"
    and "os_remove os h p" and "os_fstat_size os h p = word_of_nat (length c)"
    and "os_sendfile os h ds p off n = int (length (part_sent off n c))"
  using assms(1)[unfolded faithful_def, rule_format, OF assms(2), of p] assms(3) by simp_all

lemma faithful_absent:
  assumes "faithful os ds fs0" and "store_of os ds fs0 h = Some (fs, out)" and "fs p = None"
  shows "os_stat os h p = Some st \<Longrightarrow> st_dir st" and "os_stat os (h @ [Ev_stat p]) p = os_stat os h p"
  using assms(1)[unfolded faithful_def, rule_format, OF assms(2), of p] assms(3) by simp_all

section \<open>Uploads and downloads\<close>

lemma replay_upload:
  "\<forall>e\<in>set es. upload_event p e \<Longrightarrow> fs p = Some c \<Longrightarrow>
     replay os ds h es (fs, out) = Some (fs(p \<mapsto> c @ written_to p es), out)"
proof (induction es arbitrary: h fs c)
  case Nil
  then show ?case by (simp add: map_upd_triv)
next
  case (Cons e es)
  have "\<forall>e\<in>set es. upload_event p e" using Cons.prems(1) by simp
  note IH = Cons.IH[OF this]
  from Cons.prems(1) consider d where "e = Ev_fwrite p d" | ms where "e = Ev_sleep ms"
    by (cases e) (auto simp: upload_event_def)
  then show ?case
  proof cases
    case (1 d)
    have "written_to p (e # es) = d @ written_to p es" by (simp add: 1 ev_written_def)
    moreover have "(fs(p \<mapsto> c @ d)) p = Some (c @ d)" by simp
    then have "replay os ds (h @ [e]) es (fs(p \<mapsto> c @ d), out) = Some (fs(p \<mapsto> c @ d, p \<mapsto> (c @ d) @ written_to p es), out)"
      by (rule IH)
    ultimately show ?thesis
      by (simp only: 1 replay.simps store_event.simps Cons.prems(2) option.case bind.bind_lunit fun_upd_upd append_assoc)
  next
    case 2
    have "replay os ds (h @ [e]) es (fs, out) = Some (fs(p \<mapsto> c @ written_to p es), out)"
      using Cons.prems(2) by (rule IH)
    moreover have "written_to p (e # es) = written_to p es" by (simp add: 2 ev_written_def)
    ultimately show ?thesis by (simp only: 2 replay.simps store_event.simps bind.bind_lunit)
  qed
qed

definition stored_text :: "nat \<Rightarrow> string option \<Rightarrow> string \<Rightarrow> string" where
  "stored_text n old d = (case old of Some c \<Rightarrow> if n = 0 then d else c @ d | None \<Rightarrow> d)"

lemma recvFile_store:
  assumes "os_fopen os h p (upload_mode (word_of_nat n))" and "\<not> never_ends (upload_stream os sock p (word_of_nat n) h)"
    and "n < 2 ^ 64"
  shows "\<exists>res rl' es. recvFile os sock p (word_of_nat n) rl 0 h = (Some res, rl', h @ es) \<and> tr_ok res \<and>
    \<not> tr_rateLimitHit res \<and> (\<forall>e\<in>set es. \<forall>l y. e \<noteq> Ev_accept l y) \<and> replay os ds h es (fs, out) =
      Some (fs(p \<mapsto> stored_text n (fs p) (delivered (upload_stream os sock p (word_of_nat n) h))), out)"
proof -
  let ?off = "word_of_nat n :: 64 word"
  let ?in = "upload_stream os sock p ?off h" and ?h1 = "h @ [Ev_fopen p (upload_mode ?off)]"
  define c where "c = (case fs p of Some c \<Rightarrow> if n = 0 then [] else c | None \<Rightarrow> [])"
  have "?off = 0 \<longleftrightarrow> n = 0"
    using assms(3) by (simp add: unat_eq_0[symmetric] unat_of_nat take_bit_nat_eq_self)
  then have mode: "upload_mode ?off = (if n = 0 then ''wb'' else ''ab'')"
    by (auto simp: upload_mode_def word_neq_0_conv)
  obtain e k rl' h3 where r: "recv_chunks os p 0 ?in 0 rl ?h1 = (e, k, rl', h3)"
    by (cases "recv_chunks os p 0 ?in 0 rl ?h1")
  with recv_chunks_trace[of os p 0 ?in 0 rl ?h1] obtain es where
    es: "h3 = ?h1 @ es" "\<forall>e\<in>set es. upload_event p e" by auto
  from recv_chunks_written[where f=0 and m=0 and os=os and path=p and inp="?in" and rl=rl and h="?h1"] r es(1)
  have d: "e \<noteq> RE_overflow \<longrightarrow> written_to p es = delivered ?in" "e = RE_hangs \<longrightarrow> never_ends ?in" by auto
  have "e \<noteq> RE_overflow" using recv_chunks_no_overflow[of os p ?in 0 rl ?h1] r by simp
  with d(2) assms(2) have e: "e = RE_eof" by (cases e) auto
  have open_p: "store_event os ds h (Ev_fopen p (upload_mode ?off)) (fs, out) = Some (fs(p \<mapsto> c), out)"
    using assms(1) by (auto simp: mode c_def fun_upd_idem split: option.split)
  have "replay os ds ?h1 es (fs(p \<mapsto> c), out) = Some (fs(p \<mapsto> c @ delivered ?in), out)"
    using replay_upload[OF es(2), of "fs(p \<mapsto> c)" c os ds ?h1 out] d(1) e by simp
  moreover have "c @ delivered ?in = stored_text n (fs p) (delivered ?in)"
    by (simp add: c_def stored_text_def split: option.split)
  ultimately have "replay os ds ?h1 es (fs(p \<mapsto> c), out) =
      Some (fs(p \<mapsto> stored_text n (fs p) (delivered ?in)), out)" by simp
  then have "replay os ds h (Ev_fopen p (upload_mode ?off) # es @ [Ev_fclose p]) (fs, out) =
      Some (fs(p \<mapsto> stored_text n (fs p) (delivered ?in)), out)"
    by (simp only: replay.simps open_p bind.bind_lunit replay_append) simp
  moreover have "\<forall>e\<in>set es. \<forall>l y. e \<noteq> Ev_accept l y" using es(2) by (auto simp: upload_event_def)
  ultimately show ?thesis using r es(1) e assms(1)
    by (simp add: recvFile_eq new_result_def)
qed

definition chunk_event :: "int \<Rightarrow> event \<Rightarrow> bool" where
  "chunk_event ds e \<longleftrightarrow> (case e of Ev_send s d \<Rightarrow> s = ds | _ \<Rightarrow> neutral ds e)"

lemma replay_chunks:
  "\<forall>e\<in>set es. chunk_event ds e \<Longrightarrow> replay os ds h es (fs, out) = Some (fs, out @ concat (sent_on ds es))"
proof (induction es arbitrary: h out)
  case (Cons e es)
  then show ?case
    by (cases e) (simp_all add: chunk_event_def store_event_neutral, simp_all add: neutral_def)
qed simp

lemma send_chunks_events:
  "\<exists>es. snd (snd (send_chunks os ds path left n rl h)) = h @ es \<and> (\<forall>e\<in>set es. chunk_event ds e)"
proof (induction "length left" arbitrary: left n rl h rule: less_induct)
  case less
  let ?buf = "take CHUNK_SIZE left" and ?h0 = "h @ [Ev_fread path (length (take CHUNK_SIZE left))]"
  let ?h1 = "?h0 @ [Ev_send ds ?buf]"
  obtain rl' h2 where t: "throttle os (word_of_nat (length ?buf)) rl ?h1 = (rl', h2)"
    by (cases "throttle os (word_of_nat (length ?buf)) rl ?h1")
  show ?case
  proof (cases "?buf = [] \<or> os_send os ?h0 ds ?buf < 0")
    case True
    then show ?thesis
      by (subst send_chunks.simps) (auto simp: sendData_def toPosix_def chunk_event_def neutral_def Let_def)
  next
    case False
    then have dec: "length (drop CHUNK_SIZE left) < length left" by (auto simp: CHUNK_SIZE_def)
    from less[OF dec] obtain es where
      es: "snd (snd (send_chunks os ds path (drop CHUNK_SIZE left) (n + word_of_nat (length ?buf)) rl' h2)) = h2 @ es"
        "\<forall>e\<in>set es. chunk_event ds e" by blast
    from t throttle_trace[of os "word_of_nat (length ?buf)" rl ?h1]
    obtain es0 where "h2 = ?h1 @ es0" "\<forall>e\<in>set es0. chunk_event ds e"
      by (auto simp: chunk_event_def neutral_def)
    with False t es show ?thesis
      by (subst send_chunks.simps)
         (auto simp: sendData_def toPosix_def Let_def chunk_event_def neutral_def
           intro!: exI[of _ "Ev_fread path (length ?buf) # Ev_send ds ?buf # es0 @ es"])
  qed
qed

text \<open>Either way of sending puts the rest of the file on the connection.\<close>

lemma sendFile_store:
  assumes "faithful os ds fs0" and "store_of os ds fs0 h = Some (fs, out)" and "fs p = Some c"
    and "\<forall>h d. 0 \<le> os_send os h ds d" and "n < 2 ^ 63" and "length c \<le> sendfile_max \<or> (\<forall>h. \<not> os_open os h p)"
  shows "\<exists>res rl' es. sendFile os ds p (word_of_nat n) rl h = (res, rl', h @ es) \<and>
    replay os ds h es (fs, out) = Some (fs, out @ drop n c)"
proof -
  let ?off = "word_of_nat n :: 64 word"
  have off: "unat ?off = n" "sint ?off = int n"
    using assms(5) by (simp_all add: unat_of_nat take_bit_nat_eq_self signed_of_nat signed_take_bit_int_eq_self)
  let ?h1 = "h @ [Ev_open p]"
  have 1: "store_of os ds fs0 ?h1 = Some (fs, out)"
    by (rule store_of_neutral[OF assms(2)]) (simp add: neutral_def)
  show ?thesis
  proof (cases "os_open os h p")
    case True
    then have len: "length c \<le> sendfile_max" using assms(6) by blast
    let ?n = "word_of_nat (length c) - ?off"
    have all: "part_sent ?off ?n c = drop n c"
    proof (cases "n \<le> length c")
      case le: True
      have "length c < 2 ^ 64" using len by (simp add: sendfile_max_def)
      then have "unat ?n = length c - n"
        using le off by (subst unat_sub) (simp_all add: word_le_nat_alt unat_of_nat take_bit_nat_eq_self)
      then show ?thesis using len off by (simp add: part_sent_def)
    qed (simp add: part_sent_def off)
    note f = faithful_file[OF assms(1) 1 assms(3)]
    let ?es = "[Ev_open p, Ev_sendfile ds p ?off ?n]"
    have "transmitFile os ds p ?off h = ((True, word_of_int (os_sendfile os ?h1 ds p ?off ?n)), h @ ?es)"
      using True f(5,6) by (simp add: transmitFile_def toPosix_def Let_def)
    moreover have "replay os ds h ?es (fs, out) = Some (fs, out @ drop n c)"
      using f(6)[of ?off ?n] assms(3) all by simp
    ultimately show ?thesis by (auto simp: sendFile_def Let_def)
  next
    case False
    have rb: "os_fopen os ?h1 p ''rb''" using faithful_file(2)[OF assms(1) 1 assms(3)] .
    have 2: "store_of os ds fs0 (?h1 @ [Ev_fopen p ''rb'']) = Some (fs, out)"
      by (rule store_of_neutral[OF 1]) (simp add: neutral_def)
    define h2 where "h2 = ?h1 @ [Ev_fopen p ''rb''] @ (if 0 < ?off then [Ev_fseek p (sint ?off)] else [])"
    have left: "(if 0 < ?off then seek_from ?off c else c) = drop n c"
      using off by (auto simp: seek_from_def word_neq_0_conv[symmetric])
    obtain k rl' h3 where r: "send_chunks os ds p (drop n c) 0 rl h2 = (k, rl', h3)"
      by (cases "send_chunks os ds p (drop n c) 0 rl h2")
    with send_chunks_events[of os ds p "drop n c" 0 rl h2] obtain es where
      es: "h3 = h2 @ es" "\<forall>e\<in>set es. chunk_event ds e" by auto
    from send_chunks_complete[OF assms(4), of p "drop n c" 0 rl h2] r es(1)
    have "concat (sent_on ds es) = drop n c" by simp
    with replay_chunks[OF es(2), of os h2 fs out]
    have "replay os ds h2 (es @ [Ev_fclose p]) (fs, out) = Some (fs, out @ drop n c)" by (simp add: replay_append)
    then have "replay os ds h (drop (length h) h2 @ es @ [Ev_fclose p]) (fs, out) = Some (fs, out @ drop n c)"
      by (simp add: h2_def split: if_splits)
    moreover have "sendFile os ds p ?off rl h = (new_result\<lparr>tr_bytes := k,
        tr_seconds := clock_seconds (os_clock os (h3 @ [Ev_fclose p]) - os_clock os h),
        tr_ok := (0 < k \<or> ?off = 0)\<rparr>, rl', h3 @ [Ev_fclose p])"
      using False rb faithful_file(3)[OF assms(1) 2 assms(3)] left r
      by (auto simp: sendFile_def transmitFile_def sendFileBuffered_def Let_def h2_def)
    ultimately show ?thesis using es(1) by (auto simp: h2_def)
  qed
qed

text \<open>
  A file larger than what one call moves is cut: the code calls \<open>sendfile\<close> once, and what it returns is
  taken for a complete transfer.
\<close>

lemma large_file_is_truncated:
  assumes "faithful os ds fs0" and "store_of os ds fs0 h = Some (fs, out)" and "fs p = Some c"
    and "os_open os h p" and "sendfile_max < length c" and "length c < 2 ^ 64"
  shows "\<exists>res es. sendFile os ds p 0 rl h = (res, rl, h @ es) \<and> tr_ok res \<and> unat (tr_bytes res) = sendfile_max \<and>
    replay os ds h es (fs, out) = Some (fs, out @ take sendfile_max c)"
proof -
  let ?h1 = "h @ [Ev_open p]" and ?n = "word_of_nat (length c) :: 64 word"
  have 1: "store_of os ds fs0 ?h1 = Some (fs, out)"
    by (rule store_of_neutral[OF assms(2)]) (simp add: neutral_def)
  note f = faithful_file(5,6)[OF assms(1) 1 assms(3)]
  have "unat ?n = length c" using assms(6) by (simp add: unat_of_nat take_bit_nat_eq_self)
  then have part: "part_sent 0 ?n c = take sendfile_max c" using assms(5) by (simp add: part_sent_def)
  let ?es = "[Ev_open p, Ev_sendfile ds p 0 ?n]"
  have "transmitFile os ds p 0 h = ((True, word_of_nat sendfile_max), h @ ?es)"
    using assms(4,5) f(1) f(2)[of 0 ?n] by (simp add: transmitFile_def toPosix_def part Let_def)
  moreover have "unat (word_of_nat sendfile_max :: 64 word) = sendfile_max"
    by (simp add: sendfile_max_def)
  moreover have "replay os ds h ?es (fs, out) = Some (fs, out @ take sendfile_max c)"
    using f(2)[of 0 ?n] assms(3) part by simp
  ultimately show ?thesis by (auto simp: sendFile_def Let_def new_result_def)
qed

end
