(* ===== verification/Session_Store.thy ===== *)
theory Session_Store
  imports File_Store Session_Commands
begin

text \<open>
  The transfers, deletions and renamings of a session implement a map from paths to
  contents: a sequence of such commands, given line by line to \<open>process\<close>, does to the files and puts on the data
  connection what the map says.
\<close>

section \<open>The commands and the map\<close>

text \<open>Each transfer announces its offset and opens a passive connection of its own.\<close>

datatype file_cmd = Put nat string | Get nat string | Del string | Move string string

definition cmd_line :: "string \<Rightarrow> string \<Rightarrow> string" where
  "cmd_line verb arg = (if arg = [] then verb @ crlf else verb @ CHR '' '' # arg @ crlf)"

fun lines_of :: "file_cmd \<Rightarrow> string list" where
  "lines_of (Put n f) = [cmd_line ''REST'' (nat_str n), cmd_line ''PASV'' [], cmd_line ''STOR'' f]"
| "lines_of (Get n f) = [cmd_line ''REST'' (nat_str n), cmd_line ''PASV'' [], cmd_line ''RETR'' f]"
| "lines_of (Del f) = [cmd_line ''DELE'' f]"
| "lines_of (Move f g) = [cmd_line ''RNFR'' f, cmd_line ''RNTO'' g]"

primrec exec :: "os \<Rightarrow> string list \<Rightarrow> world \<Rightarrow> world outcome" where
  "exec os [] w = Done w"
| "exec os (l # ls) w = bind_outcome (process os l w) (exec os ls)"

lemma exec_append: "exec os (ls @ ls') w = bind_outcome (exec os ls w) (exec os ls')"
proof (induction ls arbitrary: w)
  case (Cons l ls)
  then show ?case by (cases "process os l w") simp_all
qed simp

text \<open>
  The map: \<open>up k\<close> is what the client sends on the \<open>k\<close>-th data connection. A transfer of a missing file uses no
  connection. Left open are moving what is not a file of the map and getting a file larger than what one
  call of \<open>sendfile\<close> moves.
\<close>

type_synonym abs_state = "(string \<rightharpoonup> string) \<times> nat \<times> string"

fun abs_cmd :: "(string \<Rightarrow> string) \<Rightarrow> (nat \<Rightarrow> string) \<Rightarrow> file_cmd \<Rightarrow> abs_state \<Rightarrow> abs_state option" where
  "abs_cmd path up (Put n f) (fs, k, out) = Some (fs(path f \<mapsto> stored_text n (fs (path f)) (up k)), Suc k, out)"
| "abs_cmd path up (Get n f) (fs, k, out) =
     (case fs (path f) of None \<Rightarrow> Some (fs, k, out)
      | Some c \<Rightarrow> if length c \<le> sendfile_max then Some (fs, Suc k, out @ drop n c) else None)"
| "abs_cmd path up (Del f) (fs, k, out) = Some (fs(path f := None), k, out)"
| "abs_cmd path up (Move f g) (fs, k, out) =
     (if fs (path f) = None then None
      else Some (if path f = path g then fs else fs(path g := fs (path f), path f := None), k, out))"

primrec abs_run :: "(string \<Rightarrow> string) \<Rightarrow> (nat \<Rightarrow> string) \<Rightarrow> file_cmd list \<Rightarrow> abs_state \<Rightarrow> abs_state option" where
  "abs_run path up [] s = Some s"
| "abs_run path up (c # cs) s = Option.bind (abs_cmd path up c s) (abs_run path up cs)"

section \<open>The system\<close>

text \<open>Data connections accepted so far.\<close>

definition accept_of :: "int \<Rightarrow> event \<Rightarrow> bool" where
  "accept_of ds e \<longleftrightarrow> (case e of Ev_accept l y \<Rightarrow> y = ds | _ \<Rightarrow> False)"

definition accepts :: "int \<Rightarrow> hist \<Rightarrow> nat" where
  "accepts ds h = length (filter (accept_of ds) h)"

lemma accepts_append [simp]: "accepts ds (h @ h') = accepts ds h + accepts ds h'"
  by (simp add: accepts_def)

text \<open>
  The client connects to every passive port, as \<open>ds\<close>, takes what is sent and sends \<open>up k\<close> on the \<open>k\<close>-th connection;
  the system has sockets.
\<close>

definition data_service :: "os \<Rightarrow> int \<Rightarrow> (nat \<Rightarrow> string) \<Rightarrow> bool" where
  "data_service os ds up \<longleftrightarrow> 0 \<le> ds \<and> (\<forall>h l. os_accept os h l = Accepted ds) \<and>
     (\<forall>h. 0 \<le> os_socket os h) \<and> (\<forall>h s p. 0 \<le> os_bind os h s p) \<and> (\<forall>h s n. 0 \<le> os_listen os h s n) \<and>
     (\<forall>h d. 0 \<le> os_send os h ds d) \<and>
     (\<forall>h k. accepts ds h = Suc k \<longrightarrow> delivered (os_incoming os h ds) = up k \<and> \<not> never_ends (os_incoming os h ds))"

text \<open>The paths \<open>ps\<close> can be written, and renamed to each other.\<close>

definition writable :: "os \<Rightarrow> string set \<Rightarrow> bool" where
  "writable os ps \<longleftrightarrow> (\<forall>h. \<forall>p\<in>ps. os_fopen os h p ''wb'' \<and> os_fopen os h p ''ab'' \<and> (\<forall>q\<in>ps. os_rename os h p q))"

text \<open>A session that began as \<open>w0\<close>, logged in and without a size limit, and the state of the map.\<close>

definition in_state :: "os \<Rightarrow> int \<Rightarrow> (string \<rightharpoonup> string) \<Rightarrow> world \<Rightarrow> world \<Rightarrow> abs_state \<Rightarrow> bool" where
  "in_state os ds fs0 w0 w s \<longleftrightarrow> (case s of (fs, k, out) \<Rightarrow> store_of os ds fs0 (trace w) = Some (fs, out) \<and>
     accepts ds (trace w) = k) \<and> logged_in w \<and> maxFileSizeBytes (ctx w) = 0 \<and> socket w = socket w0 \<and>
     currentDir w = currentDir w0 \<and> userRootDir w = userRootDir w0"

lemma in_state_frame [simp]:
  "in_state os ds fs0 w0 (w\<lparr>dataChannel := dc\<rparr>) s = in_state os ds fs0 w0 w s"
  "in_state os ds fs0 w0 (w\<lparr>rateLimiter := rl\<rparr>) s = in_state os ds fs0 w0 w s"
  "in_state os ds fs0 w0 (w\<lparr>restartOffset := n\<rparr>) s = in_state os ds fs0 w0 w s"
  "in_state os ds fs0 w0 (w\<lparr>renameFrom := p\<rparr>) s = in_state os ds fs0 w0 w s"
  "in_state os ds fs0 w0 (count_bytes n w) s = in_state os ds fs0 w0 w s"
  by (simp_all add: in_state_def logged_in_def count_bytes_def)

lemma in_state_busy:
  "in_state os ds fs0 w0 w s \<Longrightarrow> in_state os ds fs0 w0 (w\<lparr>sstate := READY\<rparr>) s"
  "in_state os ds fs0 w0 w s \<Longrightarrow> in_state os ds fs0 w0 (w\<lparr>sstate := TRANSFERRING\<rparr>) s"
  by (simp_all add: in_state_def logged_in_def)

lemma in_state_quiet:
  assumes "in_state os ds fs0 w0 w s" and "\<forall>e\<in>set es. neutral ds e \<and> \<not> accept_of ds e"
  shows "in_state os ds fs0 w0 (w\<lparr>trace := trace w @ es\<rparr>) s"
proof -
  have "accepts ds es = 0" using assms(2) by (simp add: accepts_def filter_empty_conv)
  with assms show ?thesis
    by (auto simp: in_state_def logged_in_def intro!: store_of_neutral)
qed

lemma in_state_reply:
  "in_state os ds fs0 w0 w s \<Longrightarrow> socket w0 \<noteq> ds \<Longrightarrow> in_state os ds fs0 w0 (sendReply os r w) s"
  unfolding sendReply_eq by (rule in_state_quiet) (auto simp: neutral_def accept_of_def in_state_def)

section \<open>Single lines\<close>

definition name_ok :: "string \<Rightarrow> bool" where
  "name_ok f \<longleftrightarrow> isSafeFilename f \<and> length f \<le> 500"

lemma process_cmd_line:
  assumes "name_ok arg" and "verb \<in> {''REST'', ''STOR'', ''RETR'', ''DELE'', ''RNFR'', ''RNTO''}"
  shows "process os (cmd_line verb arg) w = handle_command os verb arg w"
proof -
  have a: "arg \<noteq> []" "length arg \<le> 500" using assms(1) by (simp_all add: name_ok_def isSafeFilename_def)
  then have "last arg \<in> set arg" by simp
  then have "\<not> of_char (last arg) < (32 :: nat)" using assms(1) by (simp add: name_ok_def isSafeFilename_def)
  then have l: "last arg \<noteq> carriage_return" "last arg \<noteq> newline" by auto
  have v: "verb \<noteq> []" "CHR '' '' \<notin> set verb" "hd verb \<noteq> CHR 0x09" "length verb = 4" "map toupper verb = verb"
    using assms(2) by (auto simp: toupper_def)
  then have "length verb + length arg \<le> 509" using a(2) by simp
  from process_line[OF v(1-3) a(1) l this, of os w] v(5) a(1) show ?thesis
    by (simp add: cmd_line_def crlf_def)
qed

lemma process_pasv: "logged_in w \<Longrightarrow> process os (cmd_line ''PASV'' []) w = Done (handlePasv os w)"
  using process_bare[of "''PASV''" os w]
  by (auto simp: cmd_line_def toupper_def handle_command_def dispatch_def crlf_def logged_in_def)

lemma length_nat_str: "n < 10 ^ k \<Longrightarrow> 0 < k \<Longrightarrow> length (nat_str n) \<le> k"
proof (induction n arbitrary: k rule: nat_str.induct)
  case (1 n)
  show ?case
  proof (cases "n < 10")
    case True
    with 1(3) show ?thesis by (subst nat_str.simps) simp
  next
    case False
    with 1(2,3) obtain j where j: "k = Suc j" "0 < j" by (cases k; cases "k - 1") auto
    have "n div 10 < 10 ^ j" using 1(2) by (simp add: j(1) less_mult_imp_div_less mult.commute)
    from 1(1)[OF False this j(2)] False show ?thesis by (subst nat_str.simps) (simp add: j(1))
  qed
qed

lemma name_ok_nat_str: "n < 2 ^ 63 \<Longrightarrow> name_ok (nat_str n)"
proof -
  assume "n < 2 ^ 63"
  then have "n < 10 ^ 20" by simp
  from length_nat_str[OF this] have l: "length (nat_str n) \<le> 500" by simp
  have "CHR 0x00 \<notin> set (nat_str n)" by (rule nat_str_no_char) (simp add: is_digit_def)
  moreover have "\<not> of_char c < (32 :: nat)" if "c \<in> set (nat_str n)" for c
    using nat_str_digits[OF that] by (auto simp: is_digit_def)
  ultimately show ?thesis using l by (simp add: name_ok_def isSafeFilename_def nat_str_nonempty)
qed

lemma rest_step:
  assumes "in_state os ds fs0 w0 w s" and "socket w0 \<noteq> ds" and "n < 2 ^ 63"
  shows "\<exists>w'. process os (cmd_line ''REST'' (nat_str n)) w = Done w' \<and> in_state os ds fs0 w0 w' s \<and>
    restartOffset w' = word_of_nat n"
proof -
  have "handle_command os ''REST'' (nat_str n) w = Done (handleRest os (nat_str n) w)"
    using assms(1) by (auto simp: handle_command_def dispatch_def in_state_def logged_in_def)
  then have "process os (cmd_line ''REST'' (nat_str n)) w = Done (handleRest os (nat_str n) w)"
    using process_cmd_line[OF name_ok_nat_str[OF assms(3)], of "''REST''" os w] by simp
  moreover have "in_state os ds fs0 w0 (handleRest os (nat_str n) w) s"
    unfolding handleRest_nat_str using assms(1,2) by (intro in_state_reply) simp_all
  moreover have "restartOffset (handleRest os (nat_str n) w) = word_of_nat n"
    by (simp add: handleRest_nat_str sendReply_eq)
  ultimately show ?thesis by blast
qed

lemma enterPassive_ok:
  assumes "data_service os ds up"
  shows "\<exists>port dc' es. enterPassive os dc h = (port, dc', h @ es) \<and> 0 \<le> port \<and> usePassive dc' \<and>
    (\<forall>e\<in>set es. \<not> accept_of ds e \<and> neutral ds e)"
proof -
  obtain dc0 es0 where c: "closePassive os dc h = (dc0, h @ es0)" "\<forall>e\<in>set es0. \<not> accept_of ds e \<and> neutral ds e"
    by (cases "ms_valid (passiveSocket dc)")
      (auto simp: closePassive_def ms_close_def closeSocket_def accept_of_def neutral_def)
  define fd where "fd = os_socket os (h @ es0)"
  have "0 \<le> fd" using assms by (simp add: fd_def data_service_def)
  then have fd: "fromPosix fd = fd" "fd \<noteq> kInvalidSocket" by (auto simp: fromPosix_def kInvalidSocket_def)
  let ?es = "[Ev_socket fd, Ev_setsockopt fd Opt_reuseaddr, Ev_bind fd 0, Ev_listen fd 1, Ev_getsockname fd]"
  have "\<not> os_bind os h' fd p < 0" "\<not> os_listen os h' fd n < 0" for h' p n
    using assms by (simp_all add: data_service_def not_less)
  then have "enterPassive os dc h = (uint (os_getsockname os (h @ es0 @ butlast ?es) fd),
      dc0\<lparr>passivePort := uint (os_getsockname os (h @ es0 @ butlast ?es) fd), passiveSocket := fd, usePassive := True\<rparr>,
      h @ es0 @ ?es)"
    using fd by (simp add: enterPassive_def c(1) createTcpSocket_def setReuseAddr_def bindSocket_def listenSocket_def
        getLocalPort_def toPosix_def fd_def[symmetric] Let_def)
  moreover have "\<forall>e\<in>set (es0 @ ?es). \<not> accept_of ds e \<and> neutral ds e"
    using c(2) by (simp add: accept_of_def neutral_def)
  ultimately show ?thesis by fastforce
qed

lemma handlePasv_trace:
  assumes "data_service os ds up" and "socket w \<noteq> ds"
  shows "\<exists>dc es. handlePasv os w = w\<lparr>dataChannel := dc, trace := trace w @ es\<rparr> \<and> usePassive dc \<and>
    (\<forall>e\<in>set es. neutral ds e \<and> \<not> accept_of ds e)"
proof -
  obtain port dc' es where e: "enterPassive os (dataChannel w) (trace w) = (port, dc', trace w @ es)" "0 \<le> port"
      "usePassive dc'" "\<forall>e\<in>set es. \<not> accept_of ds e \<and> neutral ds e"
    using enterPassive_ok[OF assms(1)] by blast
  let ?r = "Ev_send (socket w) (pasvResponse dc' @ [carriage_return, newline])"
  have "handlePasv os w = w\<lparr>dataChannel := dc', trace := trace w @ es @ [?r]\<rparr>"
    using e(1,2) by (simp add: handlePasv_def sendReply_eq Let_def)
  moreover have "\<forall>e\<in>set (es @ [?r]). neutral ds e \<and> \<not> accept_of ds e"
    using e(4) assms(2) by (simp add: neutral_def accept_of_def)
  ultimately show ?thesis using e(3) by blast
qed

lemma pasv_step:
  assumes "in_state os ds fs0 w0 w s" and "socket w0 \<noteq> ds" and "data_service os ds up"
  shows "\<exists>w'. process os (cmd_line ''PASV'' []) w = Done w' \<and> in_state os ds fs0 w0 w' s \<and>
    restartOffset w' = restartOffset w \<and> usePassive (dataChannel w')"
proof -
  obtain dc es where p: "handlePasv os w = w\<lparr>dataChannel := dc, trace := trace w @ es\<rparr>" "usePassive dc"
      "\<forall>e\<in>set es. neutral ds e \<and> \<not> accept_of ds e"
    using handlePasv_trace[OF assms(3), of w] assms(1,2) by (auto simp: in_state_def)
  have "in_state os ds fs0 w0 (w\<lparr>trace := trace w @ es\<rparr>) s"
    using assms(1) p(3) by (rule in_state_quiet)
  then have "in_state os ds fs0 w0 (w\<lparr>trace := trace w @ es, dataChannel := dc\<rparr>) s" by simp
  moreover have "w\<lparr>dataChannel := dc, trace := trace w @ es\<rparr> = w\<lparr>trace := trace w @ es, dataChannel := dc\<rparr>" by simp
  ultimately show ?thesis
    using process_pasv[of w os] p(1,2) assms(1) by (simp add: in_state_def)
qed

section \<open>Transfers\<close>

lemma in_state_accept:
  assumes "in_state os ds fs0 w0 w (fs, k, out)"
  shows "in_state os ds fs0 w0 (w\<lparr>trace := trace w @ [Ev_accept l ds]\<rparr>) (fs, Suc k, out)"
proof -
  have "store_of os ds fs0 (trace w @ [Ev_accept l ds]) = Some (fs, out)"
    using assms by (intro store_of_neutral) (auto simp: in_state_def neutral_def)
  with assms show ?thesis by (simp add: in_state_def logged_in_def accepts_def accept_of_def)
qed

lemma with_data_step:
  assumes "in_state os ds fs0 w0 w (fs, k, out)" and "socket w0 \<noteq> ds" and "data_service os ds up"
    and "usePassive (dataChannel w)"
    and body: "\<And>w1. in_state os ds fs0 w0 w1 (fs, Suc k, out) \<Longrightarrow> restartOffset w1 = restartOffset w \<Longrightarrow>
      \<exists>w2. body ds w1 = Done w2 \<and> in_state os ds fs0 w0 w2 s'"
  shows "\<exists>w'. with_data os msg body w = Done w' \<and> in_state os ds fs0 w0 w' s'"
proof -
  let ?v = "sendReply os msg w" and ?dc = "dataChannel w"
  have ds: "0 \<le> ds" "\<And>h l. os_accept os h l = Accepted ds" using assms(3) by (simp_all add: data_service_def)
  then have valid: "ms_valid ds" "fromPosix ds = ds" by (auto simp: ms_valid_def kInvalidSocket_def fromPosix_def)
  define v1 where "v1 = ?v\<lparr>trace := trace ?v @ [Ev_accept (passiveSocket ?dc) ds]\<rparr>"
  have v1: "in_state os ds fs0 w0 v1 (fs, Suc k, out)" unfolding v1_def
    by (intro in_state_accept in_state_reply assms(1,2))
  obtain dc' es where c: "closePassive os ?dc (trace v1) = (dc', trace v1 @ es)" "\<forall>e\<in>set es. neutral ds e \<and> \<not> accept_of ds e"
    by (cases "ms_valid (passiveSocket ?dc)")
      (auto simp: closePassive_def ms_close_def closeSocket_def accept_of_def neutral_def)
  define w1 where "w1 = v1\<lparr>trace := trace v1 @ es, dataChannel := dc'\<rparr>"
  have "in_state os ds fs0 w0 w1 (fs, Suc k, out)" unfolding w1_def in_state_frame by (rule in_state_quiet[OF v1 c(2)])
  moreover have "restartOffset w1 = restartOffset w" by (simp add: w1_def v1_def sendReply_eq)
  ultimately obtain w2 where w2: "body ds w1 = Done w2" "in_state os ds fs0 w0 w2 s'" using body by blast
  have "open_data os ?dc (trace ?v) = (Some ds, dc', trace w1)"
    using assms(4) ds valid(2) c(1) by (simp add: open_data_def acceptConnection_def toPosix_def v1_def w1_def)
  moreover have "?v\<lparr>dataChannel := dc', trace := trace w1\<rparr> = w1" by (simp add: w1_def v1_def)
  moreover have "dataChannel ?v = ?dc" by (simp add: sendReply_eq)
  ultimately have "with_data os msg body w = Done (w2\<lparr>trace := trace w2 @ [Ev_close ds]\<rparr>)"
    using valid(1) w2(1) by (simp add: with_data_def Let_def sys_def ms_close_def closeSocket_def toPosix_def)
  moreover have "in_state os ds fs0 w0 (w2\<lparr>trace := trace w2 @ [Ev_close ds]\<rparr>) s'"
    by (rule in_state_quiet[OF w2(2)]) (simp add: neutral_def accept_of_def)
  ultimately show ?thesis by blast
qed

text \<open>A run of events that moves the store on.\<close>

lemma in_state_events:
  assumes "in_state os ds fs0 w0 w (fs, k, out)" and "replay os ds (trace w) es (fs, out) = Some (fs', out')"
    and "\<forall>e\<in>set es. \<not> accept_of ds e"
  shows "in_state os ds fs0 w0 (w\<lparr>trace := trace w @ es\<rparr>) (fs', k, out')"
proof -
  have "accepts ds es = 0" using assms(3) by (simp add: accepts_def filter_empty_conv)
  with assms(1,2) show ?thesis by (simp add: in_state_def logged_in_def store_of_append)
qed

lemma stor_step:
  assumes "in_state os ds fs0 w0 w (fs, Suc k, out)" and "socket w0 \<noteq> ds" and "data_service os ds up"
    and "restartOffset w = word_of_nat n" and "n < 2 ^ 63" and "os_fopen os (trace w) p ''wb''" and "os_fopen os (trace w) p ''ab''"
  shows "\<exists>w'. stor_body os p ds w = Done w' \<and> in_state os ds fs0 w0 w' (fs(p \<mapsto> stored_text n (fs p) (up k)), Suc k, out)"
proof -
  let ?v = "w\<lparr>sstate := TRANSFERRING\<rparr>"
  have v: "in_state os ds fs0 w0 ?v (fs, Suc k, out)" using assms(1) by (rule in_state_busy)
  have "accepts ds (trace w @ [Ev_fopen p (upload_mode (word_of_nat n))]) = Suc k"
    using assms(1) by (simp add: in_state_def accepts_def accept_of_def)
  then have up: "delivered (upload_stream os ds p (word_of_nat n) (trace w)) = up k"
      "\<not> never_ends (upload_stream os ds p (word_of_nat n) (trace w))"
    using assms(3) by (simp_all add: upload_stream_def data_service_def)
  have fo: "os_fopen os (trace w) p (upload_mode (word_of_nat n))" using assms(6,7) by (simp add: upload_mode_def)
  have "n < 2 ^ 64" using assms(5) by simp
  from recvFile_store[OF fo up(2) this, of "rateLimiter w" ds fs out] obtain res rl es where
    r: "recvFile os ds p (word_of_nat n) (rateLimiter w) 0 (trace w) = (Some res, rl, trace w @ es)" "tr_ok res"
      "\<not> tr_rateLimitHit res" "\<forall>e\<in>set es. \<forall>l y. e \<noteq> Ev_accept l y" "replay os ds (trace w) es (fs, out) = Some (fs(p \<mapsto> stored_text n (fs p) (up k)), out)"
    unfolding up(1) by blast
  from r(4) have "\<forall>e\<in>set es. \<not> accept_of ds e" by (auto simp: accept_of_def split: event.split)
  then have e: "in_state os ds fs0 w0 (?v\<lparr>rateLimiter := rl, trace := trace w @ es\<rparr>) (fs(p \<mapsto> stored_text n (fs p) (up k)), Suc k, out)"
    using r(5) in_state_events[of os ds fs0 w0 "?v\<lparr>rateLimiter := rl\<rparr>"] v by simp
  let ?w2 = "?v\<lparr>rateLimiter := rl, trace := trace w @ es, restartOffset := 0\<rparr>"
  have "maxFileSizeBytes (ctx w) = 0" using assms(1) by (simp add: in_state_def)
  then have "stor_body os p ds w = Done (sendReply os (transfer_report ''226 Upload complete'' res)
      ((count_bytes (tr_bytes res) ?w2)\<lparr>sstate := READY\<rparr>))"
    using r(1-3) assms(4) by (simp add: stor_body_def Let_def)
  moreover have "in_state os ds fs0 w0 (count_bytes (tr_bytes res) ?w2) (fs(p \<mapsto> stored_text n (fs p) (up k)), Suc k, out)"
    using e by simp
  ultimately show ?thesis using in_state_reply[OF in_state_busy(1) assms(2)] by blast
qed

lemma retr_step:
  assumes "in_state os ds fs0 w0 w (fs, Suc k, out)" and "socket w0 \<noteq> ds" and "data_service os ds up"
    and "restartOffset w = word_of_nat n" and "n < 2 ^ 63" and "faithful os ds fs0" and "fs p = Some c"
    and "length c \<le> sendfile_max \<or> (\<forall>h. \<not> os_open os h p)"
  shows "\<exists>w'. retr_body os p ds w = Done w' \<and> in_state os ds fs0 w0 w' (fs, Suc k, out @ drop n c)"
proof -
  let ?v = "w\<lparr>sstate := TRANSFERRING\<rparr>"
  have v: "in_state os ds fs0 w0 ?v (fs, Suc k, out)" using assms(1) by (rule in_state_busy)
  have st: "store_of os ds fs0 (trace w) = Some (fs, out)" using assms(1) by (simp add: in_state_def)
  have send: "\<forall>h d. 0 \<le> os_send os h ds d" using assms(3) by (simp add: data_service_def)
  from sendFile_store[OF assms(6) st assms(7) send assms(5,8), of "rateLimiter w"] obtain res rl es where
    r: "sendFile os ds p (word_of_nat n) (rateLimiter w) (trace w) = (res, rl, trace w @ es)"
      "replay os ds (trace w) es (fs, out) = Some (fs, out @ drop n c)" by blast
  from r(1) sendFile_trace[of os ds p "word_of_nat n" "rateLimiter w" "trace w"]
  have "\<forall>e\<in>set es. download_event ds p e" by simp
  then have "\<forall>e\<in>set es. \<not> accept_of ds e" by (auto simp: accept_of_def download_event_def split: event.split)
  then have e: "in_state os ds fs0 w0 (?v\<lparr>rateLimiter := rl, trace := trace w @ es\<rparr>) (fs, Suc k, out @ drop n c)"
    using r(2) in_state_events[of os ds fs0 w0 "?v\<lparr>rateLimiter := rl\<rparr>"] v by simp
  define w2 where "w2 = (count_bytes (tr_bytes res)
    (?v\<lparr>rateLimiter := rl, trace := trace w @ es, restartOffset := 0\<rparr>))\<lparr>sstate := READY\<rparr>"
  have "in_state os ds fs0 w0 w2 (fs, Suc k, out @ drop n c)"
    unfolding w2_def using e by (intro in_state_busy) simp
  then have "in_state os ds fs0 w0 (sendReply os m w2) (fs, Suc k, out @ drop n c)" for m
    using assms(2) by (rule in_state_reply)
  moreover have "retr_body os p ds w = Done (if tr_ok res then sendReply os (transfer_report ''226 Transfer complete'' res) w2
      else sendReply os ''426 Transfer aborted.'' w2)"
    using r(1) assms(4) by (simp add: retr_body_def Let_def w2_def)
  ultimately show ?thesis by simp
qed

section \<open>Commands\<close>

fun names_of :: "file_cmd \<Rightarrow> string list" where
  "names_of (Put n f) = [f]" | "names_of (Get n f) = [f]" | "names_of (Del f) = [f]" | "names_of (Move f g) = [f, g]"

fun offset_of :: "file_cmd \<Rightarrow> nat" where
  "offset_of (Put n f) = n" | "offset_of (Get n f) = n" | "offset_of c = 0"

definition cmd_ok :: "file_cmd \<Rightarrow> bool" where
  "cmd_ok c \<longleftrightarrow> (\<forall>f\<in>set (names_of c). name_ok f) \<and> offset_of c < 2 ^ 63"

lemma in_state_path:
  assumes "in_state os ds fs0 w0 w s" and "below (userRootDir w0) (currentDir w0)"
  shows "resolvePath f w = resolvePath f w0" and "isWithinRoot (resolvePath f w0) w"
proof -
  show p: "resolvePath f w = resolvePath f w0"
    using assms(1) by (simp add: in_state_def resolvePath_def Let_def)
  have "below (userRootDir w) (resolvePath f w)"
    using assms resolvePath_below[of w f] by (auto simp: in_state_def)
  then show "isWithinRoot (resolvePath f w0) w" unfolding p by (rule isWithinRoot_below)
qed

lemma name_ok_safe: "name_ok f \<Longrightarrow> isSafeFilename f"
  by (simp add: name_ok_def)

lemma in_state_dispatch:
  "in_state os ds fs0 w0 w s \<Longrightarrow> verb \<in> {''STOR'', ''RETR'', ''DELE'', ''RNFR'', ''RNTO''} \<Longrightarrow>
     handle_command os verb arg w = dispatch os verb arg w"
  by (auto simp: in_state_def logged_in_def handle_command_def)

lemma stor_line:
  assumes "in_state os ds fs0 w0 w (fs, k, out)" and "socket w0 \<noteq> ds" and "data_service os ds up"
    and "below (userRootDir w0) (currentDir w0)" and "name_ok f" and "n < 2 ^ 63"
    and "usePassive (dataChannel w)" and "restartOffset w = word_of_nat n" and "writable os {resolvePath f w0}"
  shows "\<exists>w'. process os (cmd_line ''STOR'' f) w = Done w' \<and>
    in_state os ds fs0 w0 w' (fs(resolvePath f w0 \<mapsto> stored_text n (fs (resolvePath f w0)) (up k)), Suc k, out)"
proof -
  let ?p = "resolvePath f w0"
  note path = in_state_path[OF assms(1,4), of f]
  have "process os (cmd_line ''STOR'' f) w = handleStor os f w"
    using process_cmd_line[OF assms(5), of "''STOR''" os w] in_state_dispatch[OF assms(1), of "''STOR''" f]
    by (simp add: dispatch_def)
  then have "process os (cmd_line ''STOR'' f) w = with_data os ''150 Opening data connection for STOR'' (stor_body os ?p) w"
    using name_ok_safe[OF assms(5)] path by (simp add: handleStor_def Let_def)
  moreover have "os_fopen os h ?p ''wb''" "os_fopen os h ?p ''ab''" for h
    using assms(9) by (simp_all add: writable_def)
  then have "\<exists>w2. stor_body os ?p ds w1 = Done w2 \<and>
      in_state os ds fs0 w0 w2 (fs(?p \<mapsto> stored_text n (fs ?p) (up k)), Suc k, out)"
    if "in_state os ds fs0 w0 w1 (fs, Suc k, out)" "restartOffset w1 = restartOffset w" for w1
    using stor_step[OF that(1) assms(2,3) _ assms(6)] that(2) assms(8) by simp
  ultimately show ?thesis using with_data_step[OF assms(1-3,7)] by simp
qed

lemma retr_line:
  assumes "in_state os ds fs0 w0 w (fs, k, out)" and "socket w0 \<noteq> ds" and "data_service os ds up"
    and "below (userRootDir w0) (currentDir w0)" and "name_ok f" and "n < 2 ^ 63"
    and "usePassive (dataChannel w)" and "restartOffset w = word_of_nat n" and "faithful os ds fs0"
    and "abs_cmd (\<lambda>f. resolvePath f w0) up (Get n f) (fs, k, out) = Some s'"
  shows "\<exists>w'. process os (cmd_line ''RETR'' f) w = Done w' \<and> in_state os ds fs0 w0 w' s'"
proof -
  let ?p = "resolvePath f w0"
  note path = in_state_path[OF assms(1,4), of f]
  let ?w1 = "after_check os ?p w"
  have "process os (cmd_line ''RETR'' f) w = handleRetr os f w"
    using process_cmd_line[OF assms(5), of "''RETR''" os w] in_state_dispatch[OF assms(1), of "''RETR''" f]
    by (simp add: dispatch_def)
  then have line: "process os (cmd_line ''RETR'' f) w = (if fst (not_a_file os ?p w)
      then Done (sendReply os (''550 File not found: '' @ f) ?w1)
      else with_data os ''150 Opening data connection for RETR'' (retr_body os ?p) ?w1)"
    using name_ok_safe[OF assms(5)] path by (simp add: handleRetr_eq Let_def)
  have st: "store_of os ds fs0 (trace w) = Some (fs, out)" using assms(1) by (simp add: in_state_def)
  have st1: "store_of os ds fs0 (trace w @ [Ev_stat ?p]) = Some (fs, out)"
    by (rule store_of_neutral[OF st]) (simp add: neutral_def)
  obtain es where w1: "?w1 = w\<lparr>trace := trace w @ es\<rparr>" "set es \<subseteq> {Ev_stat ?p}"
    by (cases "os_stat os (trace w) ?p") (auto simp: after_check_def not_a_file_def sys_def platform_defs)
  then have i1: "in_state os ds fs0 w0 ?w1 (fs, k, out)"
    using assms(1) by (auto simp: neutral_def accept_of_def intro!: in_state_quiet)
  show ?thesis
  proof (cases "fs ?p")
    case None
    have "fst (not_a_file os ?p w)"
      using faithful_absent[OF assms(9) st None]
      by (auto simp: not_a_file_def sys_def platform_defs split: option.split)
    with line None assms(10) in_state_reply[OF i1 assms(2)] show ?thesis by simp
  next
    case (Some c)
    with assms(10) have len: "length c \<le> sendfile_max" and s': "s' = (fs, Suc k, out @ drop n c)"
      by (simp_all split: if_splits)
    have "\<not> fst (not_a_file os ?p w)"
      using faithful_file(1)[OF assms(9) st Some] faithful_file(1)[OF assms(9) st1 Some]
      by (auto simp: not_a_file_def sys_def platform_defs split: option.split)
    moreover have "usePassive (dataChannel ?w1)" "restartOffset ?w1 = word_of_nat n"
      using assms(7,8) by (simp_all add: w1(1))
    moreover have "\<exists>w2. retr_body os ?p ds v = Done w2 \<and> in_state os ds fs0 w0 w2 s'"
      if "in_state os ds fs0 w0 v (fs, Suc k, out)" "restartOffset v = restartOffset ?w1" for v
      using retr_step[OF that(1) assms(2,3) _ assms(6,9) Some] that(2) assms(8) len s' by (simp add: w1(1))
    ultimately show ?thesis using line with_data_step[OF i1 assms(2,3)] by simp
  qed
qed

lemma dele_line:
  assumes "in_state os ds fs0 w0 w (fs, k, out)" and "socket w0 \<noteq> ds"
    and "below (userRootDir w0) (currentDir w0)" and "name_ok f" and "faithful os ds fs0"
  shows "\<exists>w'. process os (cmd_line ''DELE'' f) w = Done w' \<and>
    in_state os ds fs0 w0 w' (fs(resolvePath f w0 := None), k, out)"
proof -
  let ?p = "resolvePath f w0"
  note path = in_state_path[OF assms(1,3), of f]
  have st: "store_of os ds fs0 (trace w) = Some (fs, out)" using assms(1) by (simp add: in_state_def)
  let ?w1 = "w\<lparr>trace := trace w @ [Ev_remove ?p]\<rparr>"
  have "fs(?p := None) = fs" if "\<not> os_remove os (trace w) ?p"
    using that faithful_file(4)[OF assms(5) st, of ?p] by (cases "fs ?p") (auto simp: fun_upd_idem)
  then have "replay os ds (trace w) [Ev_remove ?p] (fs, out) = Some (fs(?p := None), out)" by simp
  then have "in_state os ds fs0 w0 ?w1 (fs(?p := None), k, out)"
    by (rule in_state_events[OF assms(1)]) (simp add: accept_of_def)
  note r = in_state_reply[OF this assms(2)]
  have "process os (cmd_line ''DELE'' f) w = Done (handleDele os f w)"
    using process_cmd_line[OF assms(4), of "''DELE''" os w] in_state_dispatch[OF assms(1), of "''DELE''" f]
    by (simp add: dispatch_def)
  moreover have "handleDele os f w = sendReply os (if os_remove os (trace w) ?p then ''250 File deleted.''
      else ''550 Could not delete file.'') ?w1"
    using name_ok_safe[OF assms(4)] path by (simp add: handleDele_def sys_def deleteFile_def Let_def)
  ultimately show ?thesis using r by simp
qed

lemma move_lines:
  assumes "in_state os ds fs0 w0 w (fs, k, out)" and "socket w0 \<noteq> ds"
    and "below (userRootDir w0) (currentDir w0)" and "name_ok f" and "name_ok g" and "faithful os ds fs0"
    and "writable os {resolvePath f w0, resolvePath g w0}"
    and "abs_cmd (\<lambda>f. resolvePath f w0) up (Move f g) (fs, k, out) = Some s'"
  shows "\<exists>w'. exec os (lines_of (Move f g)) w = Done w' \<and> in_state os ds fs0 w0 w' s'"
proof -
  let ?p = "resolvePath f w0" and ?q = "resolvePath g w0"
  have st: "store_of os ds fs0 (trace w) = Some (fs, out)" using assms(1) by (simp add: in_state_def)
  from assms(8) obtain c where c: "fs ?p = Some c" by (auto split: if_splits)
  note path = in_state_path[OF assms(1,3)]
  let ?w1 = "sendReply os ''350 Ready for destination name.'' (w\<lparr>trace := trace w @ [Ev_stat ?p], renameFrom := ?p\<rparr>)"
  have "process os (cmd_line ''RNFR'' f) w = Done (handleRnfr os f w)"
    using process_cmd_line[OF assms(4), of "''RNFR''" os w] in_state_dispatch[OF assms(1), of "''RNFR''" f]
    by (simp add: dispatch_def)
  moreover have "handleRnfr os f w = ?w1"
    using name_ok_safe[OF assms(4)] path[of f] faithful_file(1)[OF assms(6) st c]
    by (auto simp: handleRnfr_def sys_def pathExists_def Let_def)
  ultimately have line1: "process os (cmd_line ''RNFR'' f) w = Done ?w1" by simp
  have "in_state os ds fs0 w0 (w\<lparr>trace := trace w @ [Ev_stat ?p]\<rparr>) (fs, k, out)"
    by (rule in_state_quiet[OF assms(1)]) (simp add: neutral_def accept_of_def)
  then have i1: "in_state os ds fs0 w0 ?w1 (fs, k, out)" using assms(2) by (intro in_state_reply) simp_all
  have from_p: "renameFrom ?w1 = ?p" by (simp add: sendReply_eq)
  have "f \<noteq> []" using name_ok_safe[OF assms(4)] by (simp add: isSafeFilename_def)
  then have "?p \<noteq> []" by (auto simp: resolvePath_def normalise_def Let_def)
  let ?w2 = "?w1\<lparr>trace := trace ?w1 @ [Ev_rename ?p ?q]\<rparr>"
  have ren: "os_rename os (trace ?w1) ?p ?q" using assms(7) by (simp add: writable_def)
  have "replay os ds (trace ?w1) [Ev_rename ?p ?q] (fs, out) =
      Some (if ?p = ?q then fs else fs(?q := fs ?p, ?p := None), out)"
    using c ren by simp
  then have "in_state os ds fs0 w0 ?w2 (if ?p = ?q then fs else fs(?q := fs ?p, ?p := None), k, out)"
    by (rule in_state_events[OF i1]) (simp add: accept_of_def)
  moreover have "s' = (if ?p = ?q then fs else fs(?q := fs ?p, ?p := None), k, out)"
    using assms(8) c by simp
  ultimately have i2: "in_state os ds fs0 w0 ?w2 s'" by simp
  have "process os (cmd_line ''RNTO'' g) ?w1 = Done (handleRnto os g ?w1)"
    using process_cmd_line[OF assms(5), of "''RNTO''" os ?w1] in_state_dispatch[OF i1, of "''RNTO''" g]
    by (simp add: dispatch_def)
  moreover have "handleRnto os g ?w1 = (sendReply os ''250 File renamed.'' ?w2)\<lparr>renameFrom := []\<rparr>"
    using name_ok_safe[OF assms(5)] in_state_path[OF i1 assms(3), of g] from_p \<open>?p \<noteq> []\<close> ren
    by (simp add: handleRnto_def sys_def renameFile_def Let_def)
  moreover have "in_state os ds fs0 w0 ((sendReply os ''250 File renamed.'' ?w2)\<lparr>renameFrom := []\<rparr>) s'"
    unfolding in_state_frame by (rule in_state_reply[OF i2 assms(2)])
  ultimately show ?thesis using line1 by simp
qed

lemma cmd_step:
  assumes "in_state os ds fs0 w0 w s" and "socket w0 \<noteq> ds" and "data_service os ds up"
    and "below (userRootDir w0) (currentDir w0)" and "faithful os ds fs0" and "cmd_ok c"
    and "writable os ((\<lambda>f. resolvePath f w0) ` set (names_of c))"
    and "abs_cmd (\<lambda>f. resolvePath f w0) up c s = Some s'"
  shows "\<exists>w'. exec os (lines_of c) w = Done w' \<and> in_state os ds fs0 w0 w' s'"
proof -
  obtain fs k out where s: "s = (fs, k, out)" by (cases s)
  note i = assms(1)[unfolded s]
  have begin_transfer: "\<exists>w2. exec os [cmd_line ''REST'' (nat_str n), cmd_line ''PASV'' []] w = Done w2 \<and>
      in_state os ds fs0 w0 w2 (fs, k, out) \<and> usePassive (dataChannel w2) \<and> restartOffset w2 = word_of_nat n"
    if n: "n < 2 ^ 63" for n
  proof -
    obtain w1 where w1: "process os (cmd_line ''REST'' (nat_str n)) w = Done w1"
        "in_state os ds fs0 w0 w1 (fs, k, out)" "restartOffset w1 = word_of_nat n"
      using rest_step[OF i assms(2) n] by blast
    with pasv_step[OF w1(2) assms(2,3)] show ?thesis by auto
  qed
  show ?thesis
  proof (cases c)
    case (Put n f)
    with assms(6,7) have c: "name_ok f" "n < 2 ^ 63" "writable os {resolvePath f w0}" by (simp_all add: cmd_ok_def)
    from begin_transfer[OF c(2)] obtain w2 where w2: "exec os [cmd_line ''REST'' (nat_str n), cmd_line ''PASV'' []] w = Done w2"
        "in_state os ds fs0 w0 w2 (fs, k, out)" "usePassive (dataChannel w2)" "restartOffset w2 = word_of_nat n" by blast
    from stor_line[OF w2(2) assms(2-4) c(1,2) w2(3,4) c(3)] w2(1) assms(8) s Put show ?thesis
      by (auto split: outcome.splits simp: exec_append[of os "[cmd_line ''REST'' (nat_str n), cmd_line ''PASV'' []]" "[cmd_line ''STOR'' f]", simplified])
  next
    case (Get n f)
    with assms(6) have c: "name_ok f" "n < 2 ^ 63" by (simp_all add: cmd_ok_def)
    from begin_transfer[OF c(2)] obtain w2 where w2: "exec os [cmd_line ''REST'' (nat_str n), cmd_line ''PASV'' []] w = Done w2"
        "in_state os ds fs0 w0 w2 (fs, k, out)" "usePassive (dataChannel w2)" "restartOffset w2 = word_of_nat n" by blast
    from retr_line[OF w2(2) assms(2-4) c(1,2) w2(3,4) assms(5) assms(8)[unfolded s Get]] w2(1) Get show ?thesis
      by (auto simp: exec_append[of os "[cmd_line ''REST'' (nat_str n), cmd_line ''PASV'' []]" "[cmd_line ''RETR'' f]", simplified])
  next
    case (Del f)
    with assms(6) have "name_ok f" by (simp add: cmd_ok_def)
    from dele_line[OF i assms(2,4) this assms(5)] assms(8) s Del show ?thesis by auto
  next
    case (Move f g)
    with assms(6,7) have c: "name_ok f" "name_ok g" "writable os {resolvePath f w0, resolvePath g w0}"
      by (simp_all add: cmd_ok_def)
    show ?thesis unfolding Move
      by (rule move_lines[OF i assms(2,4) c(1,2) assms(5) c(3) assms(8)[unfolded s Move]])
  qed
qed

section \<open>Property\<close>

lemma session_runs_map:
  assumes "socket w0 \<noteq> ds" and "data_service os ds up" and "below (userRootDir w0) (currentDir w0)" and "faithful os ds fs0"
  shows "in_state os ds fs0 w0 w s \<Longrightarrow> \<forall>c\<in>set cs. cmd_ok c \<Longrightarrow>
    writable os ((\<lambda>f. resolvePath f w0) ` set (concat (map names_of cs))) \<Longrightarrow>
    abs_run (\<lambda>f. resolvePath f w0) up cs s = Some s' \<Longrightarrow>
    \<exists>w'. exec os (concat (map lines_of cs)) w = Done w' \<and> in_state os ds fs0 w0 w' s'"
proof (induction cs arbitrary: w s)
  case (Cons c cs)
  from Cons.prems(4) obtain s1 where s1: "abs_cmd (\<lambda>f. resolvePath f w0) up c s = Some s1"
      "abs_run (\<lambda>f. resolvePath f w0) up cs s1 = Some s'"
    by (cases "abs_cmd (\<lambda>f. resolvePath f w0) up c s") auto
  have w: "writable os ((\<lambda>f. resolvePath f w0) ` set (names_of c))"
      "writable os ((\<lambda>f. resolvePath f w0) ` set (concat (map names_of cs)))"
    using Cons.prems(3) by (auto simp: writable_def)
  have "cmd_ok c" "\<forall>c\<in>set cs. cmd_ok c" using Cons.prems(2) by simp_all
  with cmd_step[OF Cons.prems(1) assms(1-4) _ w(1) s1(1)] obtain w1 where
    w1: "exec os (lines_of c) w = Done w1" "in_state os ds fs0 w0 w1 s1" by blast
  from Cons.IH[OF w1(2) \<open>\<forall>c\<in>set cs. cmd_ok c\<close> w(2) s1(2)] w1(1) show ?case
    by (simp add: exec_append)
qed simp

text \<open>C5. A session implements a map from paths to contents. Any sequence of transfers with and without
  offset, deletions and renamings that a logged-in session without a size limit receives, line by line, ends; the files
  then are those of the map, and the data connections have carried exactly what the map yields: a \<open>Get\<close> after a \<open>Put\<close> returns
  what was uploaded from the offset on, by \<open>sendfile\<close> or by chunks, a \<open>Put\<close> with an offset appends - whatever the
  offset -, a deleted or moved file is gone.\<close>

theorem session_is_file_store:
  assumes "inside w" and "logged_in w" and "maxFileSizeBytes (ctx w) = 0" and "socket w \<noteq> ds"
    and "data_service os ds up" and "faithful os ds fs0"
    and "\<forall>c\<in>set cs. cmd_ok c" and "writable os ((\<lambda>f. resolvePath f w) ` set (concat (map names_of cs)))"
    and "store_of os ds fs0 (trace w) = Some (fs, out)"
    and "abs_run (\<lambda>f. resolvePath f w) up cs (fs, accepts ds (trace w), out) = Some (fs', k', out')"
  shows "\<exists>w'. exec os (concat (map lines_of cs)) w = Done w' \<and> store_of os ds fs0 (trace w') = Some (fs', out') \<and>
    logged_in w' \<and> accepts ds (trace w') = k'"
proof -
  have b: "below (userRootDir w) (currentDir w)" using assms(1,2) by (simp add: inside_def)
  have "in_state os ds fs0 w w (fs, accepts ds (trace w), out)"
    using assms(2,3,9) by (simp add: in_state_def)
  from session_runs_map[OF assms(4,5) b assms(6) this assms(7,8,10)] show ?thesis
    by (auto simp: in_state_def)
qed

text \<open>A system that keeps its files in memory.\<close>

lemma store_event_cong:
  assumes "os_fopen os = os_fopen os'" and "os_remove os = os_remove os'" and "os_rename os = os_rename os'"
    and "\<And>h s p off n. 0 \<le> os_sendfile os h s p off n" and "\<And>h s p off n. 0 \<le> os_sendfile os' h s p off n"
  shows "store_event os ds h e s = store_event os' ds h e s"
  using assms by (cases s; cases e) simp_all

lemma replay_cong:
  assumes "os_fopen os = os_fopen os'" and "os_remove os = os_remove os'" and "os_rename os = os_rename os'"
    and "\<And>h s p off n. 0 \<le> os_sendfile os h s p off n" and "\<And>h s p off n. 0 \<le> os_sendfile os' h s p off n"
  shows "replay os ds h es s = replay os' ds h es s"
proof (induction es arbitrary: h s)
  case (Cons e es)
  have "replay os ds (h @ [e]) es = replay os' ds (h @ [e]) es" by (rule ext) (rule Cons)
  then show ?case using store_event_cong[OF assms, of ds h e s] by simp
qed simp

definition demo_uploads :: "nat \<Rightarrow> string" where
  "demo_uploads k = (if k = 0 then ''abc'' else ''de'')"

definition memory_base :: os where
  "memory_base = demo_os\<lparr>os_open := \<lambda>h p. True, os_sendfile := \<lambda>h s p off n. 0, os_accept := \<lambda>h l. Accepted 8,
     os_incoming := \<lambda>h s. ([demo_uploads (accepts 8 h - 1)], Peer_closes)\<rparr>"

definition files_at :: "hist \<Rightarrow> string \<rightharpoonup> string" where
  "files_at h = (case store_of memory_base 8 Map.empty h of Some (fs, out) \<Rightarrow> fs | None \<Rightarrow> Map.empty)"

definition text_at :: "hist \<Rightarrow> string \<Rightarrow> string" where
  "text_at h p = (case files_at h p of Some c \<Rightarrow> c | None \<Rightarrow> [])"

definition memory_os :: os where
  "memory_os = memory_base\<lparr>os_content := text_at, os_fstat_size := \<lambda>h p. word_of_nat (length (text_at h p)),
     os_stat := \<lambda>h p. map_option (\<lambda>c. \<lparr>st_dir = False, st_size = word_of_nat (length c), st_mtime = 0\<rparr>) (files_at h p),
     os_sendfile := \<lambda>h s p off n. int (length (part_sent off n (text_at h p)))\<rparr>"

lemma memory_store: "store_of memory_os 8 Map.empty h = store_of memory_base 8 Map.empty h"
  unfolding store_of_def by (rule replay_cong) (simp_all add: memory_os_def memory_base_def)

lemma memory_faithful: "faithful memory_os 8 Map.empty"
proof -
  have "files_at (h @ [Ev_stat p]) = files_at h" for h p
    by (cases "store_of memory_base 8 Map.empty h")
      (auto simp: files_at_def store_of_def replay_append neutral_def store_event_neutral split: option.split)
  note stat = this
  show ?thesis unfolding faithful_def
  proof (intro allI impI)
    fix h fs out p
    assume "store_of memory_os 8 Map.empty h = Some (fs, out)"
    then have F: "files_at h = fs" by (simp add: files_at_def memory_store)
    have "os_fopen memory_os h p ''rb''" "os_remove memory_os h p"
      by (simp_all add: memory_os_def memory_base_def demo_os_def)
    moreover have "os_stat memory_os (h @ [Ev_stat p]) p = os_stat memory_os h p" by (simp add: memory_os_def stat)
    ultimately show "case fs p of None \<Rightarrow> (\<forall>st. os_stat memory_os h p = Some st \<longrightarrow> st_dir st) \<and>
          os_stat memory_os (h @ [Ev_stat p]) p = os_stat memory_os h p
      | Some c \<Rightarrow> (\<exists>st. os_stat memory_os h p = Some st \<and> \<not> st_dir st) \<and> os_fopen memory_os h p ''rb'' \<and>
          os_content memory_os h p = c \<and> os_remove memory_os h p \<and>
          os_fstat_size memory_os h p = word_of_nat (length c) \<and>
          (\<forall>off n. os_sendfile memory_os h 8 p off n = int (length (part_sent off n c)))"
      by (cases "fs p") (simp_all add: memory_os_def text_at_def F)
  qed
qed

lemma memory_service: "data_service memory_os 8 demo_uploads"
  by (simp add: data_service_def memory_os_def memory_base_def demo_os_def delivered_def never_ends_def demo_uploads_def)

definition demo_cmds :: "file_cmd list" where
  "demo_cmds = [Put 0 ''A'', Get 1 ''A'', Put 7 ''A'', Move ''A'' ''B'', Get 0 ''B'', Get 0 ''A'', Del ''B'', Get 0 ''B'']"

lemma demo_cmds_run:
  assumes "path ''A'' \<noteq> path ''B''"
  shows "\<exists>fs k. abs_run path demo_uploads demo_cmds (Map.empty, 0, []) = Some (fs, k, ''bc'' @ ''abcde'')"
  using assms by (simp add: demo_cmds_def demo_uploads_def stored_text_def sendfile_max_def)

lemma session_is_file_store_witness:
  "\<exists>w'. exec memory_os (concat (map lines_of demo_cmds)) (ann_world\<lparr>trace := []\<rparr>) = Done w' \<and>
     (\<exists>fs. store_of memory_os 8 Map.empty (trace w') = Some (fs, ''bc'' @ ''abcde''))"
proof -
  let ?w = "ann_world\<lparr>trace := []\<rparr>"
  have w: "inside ?w" "logged_in ?w" "maxFileSizeBytes (ctx ?w) = 0" "socket ?w \<noteq> 8"
    using ann_inside by (auto simp: inside_def logged_in_def ann_world_def waiting_world_def greeted_def new_session_def
        session_steps demo_context_def)
  have p: "resolvePath ''A'' ?w \<noteq> resolvePath ''B'' ?w"
    by (simp add: ann_world_def resolvePath_def normalise_def)
  have n: "name_ok ''A''" "name_ok ''B''" by (simp_all add: name_ok_def isSafeFilename_def)
  then have ok: "\<forall>c\<in>set demo_cmds. cmd_ok c" by (simp add: demo_cmds_def cmd_ok_def)
  have wr: "writable memory_os ps" for ps
    by (simp add: writable_def memory_os_def memory_base_def demo_os_def)
  have st: "store_of memory_os 8 Map.empty (trace ?w) = Some (Map.empty, [])" by (simp add: store_of_def)
  have z: "accepts 8 (trace ?w) = 0" by (simp add: accepts_def)
  obtain fs k where "abs_run (\<lambda>f. resolvePath f ?w) demo_uploads demo_cmds (Map.empty, 0, []) = Some (fs, k, ''bc'' @ ''abcde'')"
    using demo_cmds_run[of "\<lambda>f. resolvePath f ?w"] p by blast
  note run = this[folded z]
  from session_is_file_store[OF w memory_service memory_faithful ok wr st run] show ?thesis by blast
qed

end
