(* ===== verification/Rate_Limit.thy ===== *)
theory Rate_Limit
  imports Transfer_Engine
begin

text \<open>
  What the bandwidth limiter of \<open>src/server/transfer.h\<close> guarantees: how many bytes a throttled transfer
  moves in the time the process runs and sleeps. The argument is by a potential, the bytes of the
  current window and the budget used up before it; one step of the limiter pays for its bytes, and a transfer is
  the sum of its steps.
\<close>

section \<open>The potential\<close>

text \<open>\<open>clock()\<close> does not run backwards.\<close>

definition clock_monotone :: "os \<Rightarrow> bool" where
  "clock_monotone os \<longleftrightarrow> (\<forall>h es. os_clock os h \<le> os_clock os (h @ es))"

text \<open>The milliseconds slept, two more for each pause: the rounding of the pause and of the elapsed time.\<close>

definition pause :: "event \<Rightarrow> rat" where
  "pause e = (case e of Ev_sleep ms \<Rightarrow> of_nat ms + 2 | _ \<Rightarrow> 0)"

definition pauses :: "hist \<Rightarrow> rat" where
  "pauses h = sum_list (map pause h)"

lemma pauses_simps [simp]:
  "pauses [] = 0" "pauses (h @ h') = pauses h + pauses h'" "pauses (e # h) = pause e + pauses h"
  by (simp_all add: pauses_def)

lemma pauses_nonneg [simp]: "0 \<le> pauses h"
  by (induction h) (auto simp: pause_def split: event.split)

definition rate :: "RateLimiter \<Rightarrow> rat" where
  "rate rl = rat_of_u64 (rl_limit rl)"

definition potential :: "RateLimiter \<Rightarrow> rat" where
  "potential rl = rat_of_u64 (rl_windowBytes rl) + 1001 / 1000 * (rate rl * clock_seconds (rl_windowStart rl))"

definition limiter_ok :: "os \<Rightarrow> RateLimiter \<Rightarrow> hist \<Rightarrow> bool" where
  "limiter_ok os rl h \<longleftrightarrow> 0 < rl_limit rl \<and> unat (rl_limit rl) \<le> 2 ^ 63 \<and> rl_windowStart rl \<le> os_clock os h \<and>
     rat_of_u64 (rl_windowBytes rl) \<le> 1001 / 1000 * rate rl \<and>
     rat_of_u64 (rl_windowBytes rl) \<le> rate rl * (clock_seconds (os_clock os h - rl_windowStart rl) + 2 / 1000)"

lemma rate_pos: "limiter_ok os rl h \<Longrightarrow> 0 < rate rl"
proof -
  assume "limiter_ok os rl h"
  then have "0 < unat (rl_limit rl)" by (simp add: limiter_ok_def unat_gt_0 word_neq_0_conv)
  then show "0 < rate rl" by (simp only: rate_def rat_of_u64_def of_nat_0_less_iff)
qed

lemma clock_seconds_diff: "clock_seconds (a - b) = clock_seconds a - clock_seconds b"
  by (simp add: clock_seconds_def diff_divide_distrib)

lemma clock_seconds_mono: "a \<le> b \<Longrightarrow> clock_seconds a \<le> clock_seconds b"
  by (simp add: clock_seconds_def divide_right_mono)

lemma limiter_ok_later:
  assumes "clock_monotone os" and "limiter_ok os rl h"
  shows "limiter_ok os rl (h @ es)"
proof -
  have c: "os_clock os h \<le> os_clock os (h @ es)" using assms(1) by (simp add: clock_monotone_def)
  then have "rate rl * (clock_seconds (os_clock os h - rl_windowStart rl) + 2 / 1000) \<le>
      rate rl * (clock_seconds (os_clock os (h @ es) - rl_windowStart rl) + 2 / 1000)"
    using rate_pos[OF assms(2)] by (intro mult_left_mono add_right_mono clock_seconds_mono) simp_all
  with assms(2) c show ?thesis by (auto simp: limiter_ok_def)
qed

lemma window_bytes_add:
  assumes "limiter_ok os rl h" and "unat n \<le> 65536"
  shows "rat_of_u64 (rl_windowBytes rl + n) = rat_of_u64 (rl_windowBytes rl) + of_nat (unat n)"
proof -
  have "(of_nat (unat (rl_windowBytes rl)) :: rat) \<le> 1001 / 1000 * of_nat (unat (rl_limit rl))"
    using assms(1) by (simp add: limiter_ok_def rate_def rat_of_u64_def)
  also have "(of_nat (unat (rl_limit rl)) :: rat) \<le> of_nat (2 ^ 63)"
    using assms(1) by (intro of_nat_mono) (simp add: limiter_ok_def)
  finally have "(of_nat (unat (rl_windowBytes rl)) :: rat) \<le> 1001 / 1000 * of_nat (2 ^ 63)" by simp
  also have "\<dots> < of_nat (2 ^ 64 - 65536)" by simp
  finally have "unat (rl_windowBytes rl) < 2 ^ 64 - 65536" by (simp only: of_nat_less_iff)
  then have "unat (rl_windowBytes rl + n) = unat (rl_windowBytes rl) + unat n"
    using assms(2) by (intro unat_add_small) simp
  then show ?thesis by (simp add: rat_of_u64_def)
qed

lemma floor_pause:
  fixes x :: rat
  assumes "0 < x"
  shows "x < of_nat (nat \<lfloor>x\<rfloor>) + 1"
proof -
  have "0 \<le> \<lfloor>x\<rfloor>" using assms by simp
  then have "(of_nat (nat \<lfloor>x\<rfloor>) :: rat) = of_int \<lfloor>x\<rfloor>" by simp
  then show ?thesis using floor_correct[of x] by linarith
qed

section \<open>One step\<close>

text \<open>The bytes in the window after a call, against the budget and the pause.\<close>

lemma window_against_budget:
  fixes L wb e :: rat
  assumes "0 < L"
    and "ms = (if L * e < wb then nat \<lfloor>(wb - L * e) / L * 1000\<rfloor> else 0)"
  shows "wb \<le> L * e + L * (of_nat ms + 1) / 1000"
proof (cases "L * e < wb")
  case True
  let ?x = "(wb - L * e) / L * 1000"
  have "0 < ?x" using True assms(1) by simp
  from floor_pause[OF this] True assms(2) have "?x < of_nat ms + 1" by simp
  then have "wb - L * e \<le> L * (of_nat ms + 1) / 1000"
    using assms(1) by (simp add: field_simps)
  then show ?thesis by simp
next
  case False
  have "0 \<le> L * (of_nat ms + 1) / 1000" using assms(1) by simp
  with False show ?thesis by simp
qed

lemma throttle_step:
  assumes "clock_monotone os" and "limiter_ok os rl h" and "unat n \<le> 65536"
  shows "case throttle os n rl h of (rl', h') \<Rightarrow> rate rl' = rate rl \<and> limiter_ok os rl' h' \<and>
    (\<exists>es. h' = h @ es \<and> (\<forall>e\<in>set es. \<exists>ms. e = Ev_sleep ms) \<and>
       of_nat (unat n) + potential rl \<le> potential rl' + rate rl * pauses es / 1000)"
proof -
  define wb where "wb = rat_of_u64 (rl_windowBytes rl + n)"
  define e0 where "e0 = clock_seconds (os_clock os h - rl_windowStart rl)"
  define e where "e = (if e0 < 1 / 1000 then 1 / 1000 else e0)"
  define ms where "ms = (if rate rl * e < wb then nat \<lfloor>(wb - rate rl * e) / rate rl * 1000\<rfloor> else 0)"
  define h1 where "h1 = (if 0 < ms then h @ [Ev_sleep ms] else h)"
  note L = rate_pos[OF assms(2)]
  have wb: "wb = rat_of_u64 (rl_windowBytes rl) + of_nat (unat n)"
    using window_bytes_add[OF assms(2,3)] by (simp add: wb_def)
  have b: "wb \<le> rate rl * e + rate rl * (of_nat ms + 1) / 1000"
    by (rule window_against_budget[OF L]) (simp add: ms_def)
  have later: "os_clock os h \<le> os_clock os h1"
    using assms(1) by (simp add: h1_def clock_monotone_def)
  have S: "rl_windowStart rl \<le> os_clock os h" using assms(2) by (simp add: limiter_ok_def)
  then have "0 \<le> e0" by (simp add: e0_def clock_seconds_def)
  then have ee: "e \<le> e0 + 1 / 1000" "0 \<le> e" by (simp_all add: e_def)
  have bL: "wb \<le> rate rl * e0 + rate rl * (of_nat ms + 2) / 1000" (is ?near)
    and b1: "e < 1 \<Longrightarrow> ms = 0 \<Longrightarrow> wb \<le> 1001 / 1000 * rate rl" (is "_ \<Longrightarrow> _ \<Longrightarrow> ?small")
    and b2: "1 \<le> e \<Longrightarrow> ms = 0 \<Longrightarrow> wb \<le> 1001 / 1000 * (rate rl * e0)" (is "_ \<Longrightarrow> _ \<Longrightarrow> ?large")
  proof -
    have "rate rl * e \<le> rate rl * (e0 + 1 / 1000)" using L ee(1) by (intro mult_left_mono) simp_all
    with b show ?near by (simp add: algebra_simps add_divide_distrib)
    { assume "e < 1" "ms = 0"
      then have "rate rl * e \<le> rate rl * 1" using L by (intro mult_left_mono) simp_all
      with b \<open>ms = 0\<close> show ?small by simp }
    { assume e: "1 \<le> e" "ms = 0"
      then have "e = e0" by (simp add: e_def split: if_splits)
      moreover from e have "rate rl * 1 \<le> rate rl * e" using L by (intro mult_left_mono) simp_all
      ultimately show ?large using b e(2) by simp }
  qed
  have e0: "rate rl * e0 = rate rl * clock_seconds (os_clock os h) - rate rl * clock_seconds (rl_windowStart rl)"
    by (simp add: e0_def clock_seconds_diff right_diff_distrib)
  have "rate rl * clock_seconds (os_clock os h) \<le> rate rl * clock_seconds (os_clock os h1)"
    using L later by (intro mult_left_mono clock_seconds_mono) simp_all
  note t = this e0
  have e0_pos: "0 \<le> rate rl * e0" using L \<open>0 \<le> e0\<close> by simp
  have thr: "throttle os n rl h = (if 0 < ms \<or> 1 \<le> e
      then rl\<lparr>rl_windowStart := os_clock os h1, rl_windowBytes := 0\<rparr>
      else rl\<lparr>rl_windowBytes := rl_windowBytes rl + n\<rparr>, h1)"
  proof -
    have nz: "(rl_limit rl = 0) = False" using assms(2) by (simp add: limiter_ok_def word_neq_0_conv)
    have "throttle os n rl h = (let rl1 = (if 0 < ms
            then rl\<lparr>rl_windowStart := os_clock os h1, rl_windowBytes := 0\<rparr>
            else rl\<lparr>rl_windowBytes := rl_windowBytes rl + n\<rparr>)
        in (if 1 \<le> e then rl1\<lparr>rl_windowStart := os_clock os h1, rl_windowBytes := 0\<rparr> else rl1, h1))"
      by (simp only: throttle_def nz if_False Let_def wb_def e0_def e_def ms_def h1_def rate_def)
    then show ?thesis by (cases "0 < ms"; cases "1 \<le> e") simp_all
  qed
  have h1: "\<exists>es. h1 = h @ es \<and> (\<forall>e\<in>set es. \<exists>ms. e = Ev_sleep ms) \<and> pauses es = (if 0 < ms then of_nat ms + 2 else 0)"
    by (auto simp: h1_def pause_def intro: exI[of _ "[Ev_sleep ms]"])
  show ?thesis
  proof (cases "0 < ms \<or> 1 \<le> e")
    case True
    let ?rl = "rl\<lparr>rl_windowStart := os_clock os h1, rl_windowBytes := 0\<rparr>"
    have "limiter_ok os ?rl h1"
      using assms(2) L by (simp add: limiter_ok_def rate_def rat_of_u64_def clock_seconds_def)
    moreover have "wb + 1001 / 1000 * (rate rl * clock_seconds (rl_windowStart rl)) \<le>
        1001 / 1000 * (rate rl * clock_seconds (os_clock os h1)) +
        rate rl * (if 0 < ms then of_nat ms + 2 else 0) / 1000"
      using True t b2 bL e0_pos by (cases "0 < ms") auto
    ultimately show ?thesis
      using True h1 wb by (auto simp: thr rate_def potential_def rat_of_u64_def)
  next
    case False
    let ?rl = "rl\<lparr>rl_windowBytes := rl_windowBytes rl + n\<rparr>"
    have "rate rl * (e0 + 2 / 1000) = rate rl * e0 + rate rl * 2 / 1000" by (simp add: algebra_simps)
    then have "limiter_ok os ?rl h1"
      using assms(2) False b1 bL wb_def by (simp add: limiter_ok_def rate_def h1_def e0_def)
    then show ?thesis using False wb wb_def by (simp add: thr h1_def potential_def rate_def)
  qed
qed

section \<open>Sums of steps\<close>

text \<open>What the events from \<open>h\<close> to \<open>h'\<close> have moved is paid for by the potential and the pauses.\<close>

definition moved :: "(event \<Rightarrow> nat) \<Rightarrow> hist \<Rightarrow> nat" where
  "moved m h = sum_list (map m h)"

lemma moved_zero: "moved m es = 0 \<longleftrightarrow> (\<forall>e\<in>set es. m e = 0)"
  by (simp add: moved_def)

lemma moved_append [simp]: "moved m (h @ h') = moved m h + moved m h'"
  by (simp add: moved_def)

definition metered :: "os \<Rightarrow> (event \<Rightarrow> nat) \<Rightarrow> RateLimiter \<Rightarrow> hist \<Rightarrow> RateLimiter \<Rightarrow> hist \<Rightarrow> bool" where
  "metered os m rl h rl' h' \<longleftrightarrow> rate rl' = rate rl \<and> limiter_ok os rl' h' \<and>
     (\<exists>es. h' = h @ es \<and>
       of_nat (moved m es) + potential rl \<le> potential rl' + rate rl * pauses es / 1000)"

lemma metered_refl: "limiter_ok os rl h \<Longrightarrow> metered os m rl h rl h"
  by (auto simp: metered_def moved_def)

lemma metered_trans:
  assumes "metered os m rl h rl1 h1" and "metered os m rl1 h1 rl2 h2"
  shows "metered os m rl h rl2 h2"
proof -
  from assms(1) obtain es1 where 1: "rate rl1 = rate rl" "h1 = h @ es1"
      "of_nat (moved m es1) + potential rl \<le> potential rl1 + rate rl * pauses es1 / 1000"
    by (auto simp: metered_def)
  from assms(2) obtain es2 where 2: "rate rl2 = rate rl1" "limiter_ok os rl2 h2" "h2 = h1 @ es2"
      "of_nat (moved m es2) + potential rl1 \<le> potential rl2 + rate rl1 * pauses es2 / 1000"
    by (auto simp: metered_def)
  have "of_nat (moved m (es1 @ es2)) + potential rl \<le> potential rl2 + rate rl * pauses (es1 @ es2) / 1000"
    using 1(1,3) 2(4) by (simp add: moved_def distrib_left add_divide_distrib)
  with 1(1,2) 2(1-3) show ?thesis by (auto simp: metered_def)
qed

lemma metered_quiet:
  assumes "clock_monotone os" and "limiter_ok os rl h" and "moved m es = 0"
  shows "metered os m rl h rl (h @ es)"
proof -
  have "0 \<le> rate rl * pauses es / 1000" using rate_pos[OF assms(2)] by simp
  with assms show ?thesis
    by (auto simp: metered_def intro: limiter_ok_later)
qed

lemma metered_chunk:
  assumes "clock_monotone os" and "limiter_ok os rl h" and "unat n \<le> 65536"
    and "moved m es0 \<le> unat n" and "\<And>ms. m (Ev_sleep ms) = 0"
    and "throttle os n rl (h @ es0) = (rl', h')"
  shows "metered os m rl h rl' h'"
proof -
  have p: "0 \<le> rate rl * pauses es0 / 1000" using rate_pos[OF assms(2)] by simp
  from throttle_step[OF assms(1) limiter_ok_later[OF assms(1,2)] assms(3), of es0] assms(6) obtain es where
    es: "rate rl' = rate rl" "limiter_ok os rl' h'" "h' = h @ es0 @ es" "\<forall>e\<in>set es. \<exists>ms. e = Ev_sleep ms"
      "of_nat (unat n) + potential rl \<le> potential rl' + rate rl * pauses es / 1000"
    by auto
  have "moved m es = 0" using es(4) assms(5) by (auto simp: moved_def)
  then have "moved m (es0 @ es) \<le> unat n" using assms(4) by simp
  then have "of_nat (moved m (es0 @ es)) \<le> (of_nat (unat n) :: rat)" by (simp only: of_nat_le_iff)
  moreover have "rate rl * pauses (es0 @ es) / 1000 = rate rl * pauses es0 / 1000 + rate rl * pauses es / 1000"
    by (simp add: distrib_left add_divide_distrib)
  ultimately have "of_nat (moved m (es0 @ es)) + potential rl \<le> potential rl' + rate rl * pauses (es0 @ es) / 1000"
    using es(5) p by linarith
  with es(1-3) show ?thesis by (auto simp: metered_def)
qed

lemma metered_bound:
  assumes "metered os m rl h rl' (h @ es)" and "limiter_ok os rl h"
  shows "of_nat (moved m es) \<le> rate rl * (1001 / 1000 *
     clock_seconds (os_clock os (h @ es) - rl_windowStart rl) + (pauses es + 2) / 1000)"
proof -
  let ?L = "rate rl" and ?now = "clock_seconds (os_clock os (h @ es))"
  from assms(1) have 1: "rate rl' = ?L" "limiter_ok os rl' (h @ es)"
      "of_nat (moved m es) + potential rl \<le> potential rl' + ?L * pauses es / 1000"
    by (auto simp: metered_def)
  from 1(2) have w: "rat_of_u64 (rl_windowBytes rl') \<le> ?L * (?now - clock_seconds (rl_windowStart rl') + 2 / 1000)"
      "clock_seconds (rl_windowStart rl') \<le> ?now"
    using 1(1) by (auto simp: limiter_ok_def clock_seconds_diff intro: clock_seconds_mono)
  have "?L * (?now - clock_seconds (rl_windowStart rl')) \<le> 1001 / 1000 * (?L * (?now - clock_seconds (rl_windowStart rl')))"
    using w(2) rate_pos[OF assms(2)] by simp
  with w(1) have "potential rl' \<le> 1001 / 1000 * (?L * ?now) + ?L * 2 / 1000"
    using 1(1) by (simp add: potential_def algebra_simps)
  moreover have "0 \<le> rat_of_u64 (rl_windowBytes rl)" by (simp only: rat_of_u64_def of_nat_0_le_iff)
  then have "1001 / 1000 * (?L * clock_seconds (rl_windowStart rl)) \<le> potential rl"
    by (simp add: potential_def)
  ultimately have "of_nat (moved m es) \<le> 1001 / 1000 * (?L * ?now) + ?L * 2 / 1000
      - 1001 / 1000 * (?L * clock_seconds (rl_windowStart rl)) + ?L * pauses es / 1000"
    using 1(3) by linarith
  then show ?thesis by (simp add: clock_seconds_diff algebra_simps add_divide_distrib diff_divide_distrib)
qed

section \<open>The two loops\<close>

definition stored :: "string \<Rightarrow> event \<Rightarrow> nat" where
  "stored path e = length (ev_written path e)"

lemma stored_sum: "moved (stored path) es = length (written_to path es)"
  by (induction es) (simp_all add: moved_def stored_def)

lemma word_of_chunk: "length buf \<le> CHUNK_SIZE \<Longrightarrow> unat (word_of_nat (length buf) :: 64 word) = length buf"
  by (simp add: CHUNK_SIZE_def unat_of_nat take_bit_nat_eq_self)

lemma recv_chunks_metered:
  assumes "clock_monotone os"
  shows "limiter_ok os rl h \<Longrightarrow> (case recv_chunks os path mx inp f rl h of
    (e, n, rl', h') \<Rightarrow> metered os (stored path) rl h rl' h')"
proof (induction rule: recv_chunks_induct)
  case (more inp f rl h buf inp' rl' h1 res)
  have len: "length buf \<le> CHUNK_SIZE"
    using more(1) recvData_delivered[of CHUNK_SIZE inp] by simp
  have "metered os (stored path) rl h rl' h1"
    using metered_chunk[OF assms more(5), of "word_of_nat (length buf)" "stored path" "[Ev_fwrite path buf]"]
      more(3) len word_of_chunk[OF len] by (simp add: moved_def stored_def ev_written_def CHUNK_SIZE_def)
  moreover from this have "limiter_ok os rl' h1" by (simp add: metered_def)
  ultimately show ?case using more(4) metered_trans by (auto split: prod.splits)
qed (auto intro: metered_refl)

text \<open>Bytes given to a \<open>send\<close> that succeeded; the loop ends with the first that fails.\<close>

definition sent_bytes :: "handle \<Rightarrow> event \<Rightarrow> nat" where
  "sent_bytes s e = length (concat (ev_sent s e))"

lemma sent_sum: "moved (sent_bytes s) es = length (concat (sent_on s es))"
  by (induction es) (simp_all add: moved_def sent_bytes_def)

lemma send_chunks_metered:
  assumes "clock_monotone os"
  shows "limiter_ok os rl h \<Longrightarrow> (case send_chunks os sock path left n rl h of (n', rl', h') \<Rightarrow>
    \<exists>h1 es. metered os (sent_bytes sock) rl h rl' h1 \<and> h' = h1 @ es \<and> moved (sent_bytes sock) es \<le> 65536)"
proof (induction "length left" arbitrary: left n rl h rule: less_induct)
  case less
  let ?buf = "take CHUNK_SIZE left"
  let ?es = "[Ev_fread path (length ?buf), Ev_send sock ?buf]"
  have len: "length ?buf \<le> CHUNK_SIZE" by simp
  have es: "moved (sent_bytes sock) ?es = length ?buf" by (simp add: moved_def sent_bytes_def)
  have stop: "\<exists>h1 es. metered os (sent_bytes sock) rl h rl h1 \<and> h @ e = h1 @ es \<and> moved (sent_bytes sock) es \<le> 65536"
    if "e = ?es \<or> e = [Ev_fread path (length ?buf)]" for e
    using metered_refl[OF less(2)] that es len
    by (intro exI[of _ h] exI[of _ e]) (auto simp: CHUNK_SIZE_def moved_def sent_bytes_def)
  show ?case
  proof (cases "?buf = []")
    case True
    with stop[of "[Ev_fread path (length ?buf)]"] show ?thesis by (subst send_chunks.simps) (simp add: Let_def)
  next
    case False
    then have dec: "length (drop CHUNK_SIZE left) < length left" by (simp add: CHUNK_SIZE_def)
    show ?thesis
    proof (cases "os_send os (h @ [Ev_fread path (length ?buf)]) sock ?buf < 0")
      case True
      with False stop[of ?es] show ?thesis
        by (subst send_chunks.simps) (simp add: sendData_def toPosix_def Let_def)
    next
      case sent: False
      obtain rl' h2 where t: "throttle os (word_of_nat (length ?buf)) rl (h @ ?es) = (rl', h2)"
        by (cases "throttle os (word_of_nat (length ?buf)) rl (h @ ?es)")
      have m: "metered os (sent_bytes sock) rl h rl' h2"
        using metered_chunk[OF assms less(2), of "word_of_nat (length ?buf)" "sent_bytes sock" ?es] es t
          word_of_chunk[OF len] len by (simp add: sent_bytes_def CHUNK_SIZE_def)
      then have "limiter_ok os rl' h2" by (simp add: metered_def)
      from less(1)[OF dec this, of "n + word_of_nat (length ?buf)"] metered_trans[OF m] show ?thesis
        using False sent t
        by (subst send_chunks.simps) (fastforce simp: sendData_def toPosix_def Let_def)
    qed
  qed
qed

section \<open>Property\<close>

text \<open>The bytes a limiter grants from its window's start to the end of the events \<open>es\<close>.\<close>

definition granted :: "os \<Rightarrow> RateLimiter \<Rightarrow> hist \<Rightarrow> hist \<Rightarrow> rat" where
  "granted os rl h es = rate rl * (1001 / 1000 *
     clock_seconds (os_clock os (h @ es) - rl_windowStart rl) + (pauses es + 2) / 1000)"

lemma new_limiter_ok:
  assumes "0 < bps" and "unat bps \<le> 2 ^ 63"
  shows "limiter_ok os (setLimit bps (new_limiter os h)) h"
  using assms by (simp add: limiter_ok_def setLimit_def new_limiter_def rate_def clock_seconds_def)

lemma recvFile_metered:
  assumes "clock_monotone os" and "limiter_ok os rl h"
    and "recvFile os sock path off rl mx h = (r, rl', h')"
  shows "metered os (stored path) rl h rl' h'"
proof -
  let ?h1 = "h @ [Ev_fopen path (upload_mode off)]"
  have quiet: "metered os (stored path) rl1 h1 rl1 (h1 @ es)"
    if "limiter_ok os rl1 h1" "\<forall>e\<in>set es. e = Ev_fopen path (upload_mode off) \<or> e = Ev_fclose path \<or> e = Ev_remove path"
    for rl1 h1 es
  proof (rule metered_quiet[OF assms(1) that(1)])
    have "stored path e = 0" if "e = Ev_fopen path (upload_mode off) \<or> e = Ev_fclose path \<or> e = Ev_remove path" for e
      using that by (elim disjE) (simp_all add: stored_def ev_written_def)
    with that(2) show "moved (stored path) es = 0" unfolding moved_zero by blast
  qed
  obtain e n rl1 h3 where c: "recv_chunks os path mx (upload_stream os sock path off h) 0 rl ?h1 = (e, n, rl1, h3)"
    by (cases "recv_chunks os path mx (upload_stream os sock path off h) 0 rl ?h1")
  have 1: "metered os (stored path) rl h rl ?h1" by (intro quiet assms(2)) simp
  have ok: "limiter_ok os rl ?h1" by (rule limiter_ok_later[OF assms(1,2)])
  have "metered os (stored path) rl ?h1 rl1 h3"
    using recv_chunks_metered[OF assms(1) ok, of path mx "upload_stream os sock path off h" 0] c by simp
  note 2 = metered_trans[OF 1 this]
  have "limiter_ok os rl1 h3" using 2 by (simp add: metered_def)
  note 3 = metered_trans[OF 2 quiet[OF this]]
  consider "rl' = rl \<and> h' = ?h1" | "rl' = rl1 \<and> h' = h3" | "rl' = rl1 \<and> h' = h3 @ [Ev_fclose path]"
    | "rl' = rl1 \<and> h' = h3 @ [Ev_fclose path, Ev_remove path]"
    using assms(3) c by (auto simp: recvFile_eq Let_def split: if_splits recv_end.splits)
  then show ?thesis
    using 1 2 3[of "[Ev_fclose path]"] 3[of "[Ev_fclose path, Ev_remove path]"] by cases simp_all
qed

lemma sendFileBuffered_metered:
  assumes "clock_monotone os" and "limiter_ok os rl h"
    and "sendFileBuffered os sock path off n rl h = (n', rl', h')"
  shows "\<exists>h1 es. metered os (sent_bytes sock) rl h rl' h1 \<and> h' = h1 @ es \<and> moved (sent_bytes sock) es \<le> 65536"
proof (cases "os_fopen os h path ''rb''")
  case False
  with assms(2,3) show ?thesis
    by (intro exI[of _ h] exI[of _ "[Ev_fopen path ''rb'']"])
      (auto simp: sendFileBuffered_def Let_def moved_def sent_bytes_def metered_refl)
next
  case True
  define es0 where "es0 = Ev_fopen path ''rb'' # (if 0 < off then [Ev_fseek path (sint off)] else [])"
  let ?c = "os_content os (h @ [Ev_fopen path ''rb'']) path"
  let ?left = "if 0 < off then seek_from off ?c else ?c"
  obtain k rl1 h3 where c: "send_chunks os sock path ?left n rl (h @ es0) = (k, rl1, h3)"
    by (cases "send_chunks os sock path ?left n rl (h @ es0)")
  have "moved (sent_bytes sock) es0 = 0" by (simp add: es0_def moved_def sent_bytes_def)
  note q = metered_quiet[OF assms(1,2) this]
  have ok: "limiter_ok os rl (h @ es0)" by (rule limiter_ok_later[OF assms(1,2)])
  from send_chunks_metered[OF assms(1) ok, of sock path ?left n] c
  obtain h1 es where "metered os (sent_bytes sock) rl (h @ es0) rl1 h1" "h3 = h1 @ es" "moved (sent_bytes sock) es \<le> 65536"
    by auto
  moreover have "rl' = rl1 \<and> h' = h3 @ [Ev_fclose path]"
    using True assms(3) c by (auto simp: sendFileBuffered_def Let_def es0_def split: if_splits)
  ultimately show ?thesis using metered_trans[OF q]
    by (intro exI[of _ h1] exI[of _ "es @ [Ev_fclose path]"]) (simp add: moved_def sent_bytes_def)
qed



end
