(* ===== verification/Transfer_Log.thy ===== *)
theory Transfer_Log
  imports Transfer_Engine Logger
begin

text \<open>
  What \<open>src/server/transfer.h\<close> writes to the log about a transfer: the speed in megabytes per second as
  \<open>formatSpeed\<close> prints it, and the line for each way a transfer ends. \<open>%.nf\<close> prints the exact value rounded to
  \<open>n\<close> places, a tie to the even neighbour.
\<close>

section \<open>Decimal places\<close>

definition round_half_even :: "rat \<Rightarrow> int" where
  "round_half_even x =
     (let f = \<lfloor>x\<rfloor>; d = x - of_int f
      in if d < 1 / 2 \<or> d = 1 / 2 \<and> even f then f else f + 1)"

definition pad_zeros :: "nat \<Rightarrow> string \<Rightarrow> string" where
  "pad_zeros n s = replicate (n - length s) (CHR ''0'') @ s"

text \<open>Of a number that is not negative.\<close>

definition print_fixed :: "nat \<Rightarrow> rat \<Rightarrow> string" where
  "print_fixed n x =
     (let k = nat (round_half_even (x * 10 ^ n))
      in nat_str (k div 10 ^ n) @ ''.'' @ pad_zeros n (nat_str (k mod 10 ^ n)))"

lemma round_half_even_error: "\<bar>of_int (round_half_even x) - x\<bar> \<le> 1 / 2"
proof -
  have "of_int \<lfloor>x\<rfloor> \<le> x" "x < of_int \<lfloor>x\<rfloor> + 1" using floor_correct[of x] by simp_all
  then show ?thesis by (auto simp: round_half_even_def Let_def abs_le_iff)
qed

lemma round_half_even_nonneg: "0 \<le> x \<Longrightarrow> 0 \<le> round_half_even x"
proof -
  assume "0 \<le> x"
  then have "0 \<le> \<lfloor>x\<rfloor>" by simp
  then show ?thesis by (simp add: round_half_even_def Let_def)
qed

lemma dec_zeros: "dec (replicate k (CHR ''0'') @ s) = dec s"
proof (induction k)
  case (Suc k)
  have "foldl (\<lambda>a c. a * 10 + digit_val c) 0 (CHR ''0'' # replicate k (CHR ''0'') @ s) =
      foldl (\<lambda>a c. a * 10 + digit_val c) 0 (replicate k (CHR ''0'') @ s)"
    by (simp add: digit_val_def)
  with Suc show ?case by (simp add: dec_def)
qed simp

text \<open>The printed digits read back as the value, to half a unit of the last place.\<close>

lemma print_fixed_value:
  assumes "0 \<le> x"
  shows "\<exists>a b. print_fixed n x = a @ ''.'' @ b \<and>
    \<bar>of_nat (dec a) + of_nat (dec b) / 10 ^ n - x\<bar> \<le> 1 / 2 / 10 ^ n"
proof -
  define k where "k = nat (round_half_even (x * 10 ^ n))"
  have "0 \<le> x * 10 ^ n" using assms by simp
  from round_half_even_nonneg[OF this] have "(of_nat k :: rat) = of_int (round_half_even (x * 10 ^ n))"
    by (simp add: k_def)
  then have e: "\<bar>of_nat k - x * 10 ^ n\<bar> \<le> 1 / 2" using round_half_even_error[of "x * 10 ^ n"] by simp
  have "(of_nat k :: rat) = of_nat (k div 10 ^ n * 10 ^ n + k mod 10 ^ n)" by (simp only: div_mult_mod_eq)
  also have "\<dots> = of_nat (k div 10 ^ n) * 10 ^ n + of_nat (k mod 10 ^ n)" by (simp only: of_nat_add of_nat_mult of_nat_power of_nat_numeral)
  finally have k: "of_nat (k div 10 ^ n) + of_nat (k mod 10 ^ n) / 10 ^ n - x = (of_nat k - x * 10 ^ n) / (10 ^ n :: rat)"
    by (simp add: field_simps)
  have "\<bar>(of_nat k - x * 10 ^ n) / (10 ^ n :: rat)\<bar> \<le> 1 / 2 / 10 ^ n"
    using divide_right_mono[OF e, of "10 ^ n"] by (simp add: abs_divide)
  with k have "\<bar>of_nat (k div 10 ^ n) + of_nat (k mod 10 ^ n) / 10 ^ n - x\<bar> \<le> 1 / 2 / (10 ^ n :: rat)" by simp
  moreover have "print_fixed n x = nat_str (k div 10 ^ n) @ ''.'' @ pad_zeros n (nat_str (k mod 10 ^ n))"
    by (simp add: print_fixed_def k_def Let_def)
  ultimately show ?thesis
    by (intro exI[of _ "nat_str (k div 10 ^ n)"] exI[of _ "pad_zeros n (nat_str (k mod 10 ^ n))"])
      (simp add: pad_zeros_def dec_zeros dec_nat_str)
qed

section \<open>The speed\<close>

definition speedMBps :: "TransferResult \<Rightarrow> rat" where
  "speedMBps r =
     (if tr_seconds r < 1 / 10000 then 0 else rat_of_u64 (tr_bytes r) / (1024 * 1024) / tr_seconds r)"

text \<open>The buffer of \<open>snprintf\<close> has room for 31 characters.\<close>

definition formatSpeed :: "rat \<Rightarrow> string" where
  "formatSpeed mbps = take 31 (if 1 \<le> mbps then print_fixed 2 mbps else print_fixed 3 mbps)"

lemma speedMBps_nonneg: "0 \<le> speedMBps r"
  by (auto simp: speedMBps_def intro!: divide_nonneg_nonneg)

lemma speeds_agree: "speedMBps r * 1024 = speedKBps r"
  by (simp add: speedMBps_def speedKBps_def)

section \<open>The lines\<close>

definition retr_log :: "string \<Rightarrow> bool \<Rightarrow> TransferResult \<Rightarrow> LogLevel \<times> string" where
  "retr_log clientIp zeroCopyOk result =
     (LVL_INFO, clientIp @ '' RETR ['' @ (if zeroCopyOk then ''zero-copy'' else ''buffered'') @ '']'' @ '' '' @
        nat_str (unat (tr_bytes result)) @ ''B'' @ '' @ '' @ formatSpeed (speedMBps result) @ '' MB/s'')"

definition stor_log :: "string \<Rightarrow> string \<Rightarrow> bool \<Rightarrow> TransferResult \<Rightarrow> LogLevel \<times> string" where
  "stor_log clientIp filePath opened result =
     (if \<not> opened then (LVL_ERROR, ''Cannot open for write: '' @ filePath)
      else if tr_rateLimitHit result then (LVL_WARN, clientIp @ '' STOR aborted: max file size exceeded'')
      else (LVL_INFO, clientIp @ '' STOR [buffered]'' @ '' '' @ nat_str (unat (tr_bytes result)) @ ''B'' @
              '' @ '' @ formatSpeed (speedMBps result) @ '' MB/s''))"

end
