(* ===== verification/Spec2Isabelle.thy ===== *)
theory Spec2Isabelle
  imports Session_Transfers Session_Replies Server_Main Client_Transfers Dialogue Client_Console
    V1_Paths V1_Client Hash_Tool Sha256_Vectors
    Auth_Overlap Win_Shutdown Pool_Order Atomics Win_Atomics Managed_Socket Remove_Tree Platform_Win
    Session_Store Rate_Limit Transfer_Log
begin

text \<open>
  NexusFTP is an FTP server and client in C++14. This development models the server, the client,
  the hash tool and the first version of server and client that the repository still carries, and
  proves what makes them correct - and, where they are not, exactly how they fail.

  The program. The server program reads a configuration file and constructs \<open>FTPServer\<close>,
  which loads the users' file, starts a pool of worker threads and, if a port is configured, a
  dashboard (\<open>AdminServer\<close>), and accepts clients. Each accepted client is a task for the pool; a
  worker constructs a \<open>Session\<close> and runs its command loop. A session checks logins with the shared
  \<open>AuthManager\<close> (salted SHA-256, failed attempts counted per address), opens data connections
  through its \<open>DataChannel\<close> and moves files with the \<open>TransferEngine\<close>. All of them reach the system
  through the platform layer. The sessions share \<open>ServerContext\<close>: settings, counters and
  the \<open>AuthManager\<close>. The client is a command loop over a control connection and passive data
  connections.

  The system. The operating system is a record of oracles (\<open>os\<close> in \<open>Platform\<close>) that answer
  a call from the calls made so far; the calls are recorded in a trace (\<open>hist\<close>), and safety
  properties speak about traces. What a peer sends on a connection is a list of segments and
  whether it then closes or stays silent. An operation returns its new state, or an \<open>outcome\<close>: \<open>Done\<close>,
  \<open>Throws\<close> (an exception of the standard library or undefined behaviour) or \<open>Hangs\<close> (a call that
  waits for ever), each with the state reached. Machine integers are words where the code's
  arithmetic can wrap, \<open>int\<close> with the range checks written out elsewhere.

  Theories and sources.

  \<^item> \<open>Prelude\<close>: outcomes, the string operations of the standard library (searching, \<open>stoi\<close>, \<open>to_string\<close>,
    case conversion, lines), used by all. \<open>Platform\<close>: \<open>src/common/platform.h\<close> and \<open>.cpp\<close>, POSIX
    branches; counting of open descriptors (\<open>held\<close>), of bytes sent and of paths used.
    \<open>Managed_Socket\<close>: the objects that own sockets. \<open>Remove_Tree\<close>: \<open>removeDirRecursive\<close>. \<open>Platform_Win\<close>: the
    Windows branches with logic of their own - handles, timeout, listings, attributes, \<open>TransmitFile\<close> -
    and where they agree with the POSIX ones.
  \<^item> \<open>Sha256\<close>: \<open>src/common/sha256.h\<close>. \<open>Sha256_Spec\<close>: FIPS 180-4 as recurrences, the equivalence of the two
    on all messages below \<open>2 ^ 61\<close> bytes, the constants as roots of primes. \<open>Sha256_Vectors\<close>: the
    vectors of the repository's test, evaluated.
  \<^item> \<open>Auth\<close>: \<open>src/server/auth.h\<close> and \<open>.cpp\<close>. The limiter is proved once against an interface (locale
    \<open>attempt_limiter\<close>). \<open>Auth_Overlap\<close>: the limiter when the calls of several sessions interleave. \<open>Hash_Tool\<close>: \<open>tools/hash_password.cpp\<close>.
  \<^item> \<open>Data_Channel\<close>: \<open>src/server/data_channel.h\<close>. \<open>Transfer_Engine\<close>: \<open>src/server/transfer.h\<close>. \<open>Rate_Limit\<close>: what the
    bandwidth limiter guarantees, by a potential over its steps. \<open>Transfer_Log\<close>: the speeds and the log lines of a transfer.
  \<^item> \<open>Session\<close>: \<open>src/server/session.h\<close> and \<open>.cpp\<close>, one definition per handler, the dispatcher and the
    command loop on one state (\<open>world\<close>: the session's members, the context and the trace).
    \<open>Session_Contract\<close> states what every handler keeps (locale \<open>handler\<close>, and \<open>data_body\<close> for those
    that use a data connection) and interprets it on each of them; \<open>Session_Runs\<close> lifts it to
    whole sessions: confinement of paths, sockets, counters, termination. \<open>Session_Login\<close>,
    \<open>Session_Commands\<close>, \<open>Session_Transfers\<close> and \<open>Session_Replies\<close> are about single commands.
    \<open>File_Store\<close> reads a trace as operations on a map from paths to contents and says when a system is faithful to
    it; \<open>Session_Store\<close>: over such a system sequences of file commands implement the map.
  \<^item> \<open>Thread_Pool\<close>: \<open>src/server/thread_pool.h\<close> and \<open>.cpp\<close> over \<open>src/common/win32_threads.h\<close> (POSIX branch)
    as a step relation of workers, submitting threads and the closing thread, with spurious
    wake-ups and an executable scheduler. \<open>Pool_Invariants\<close>: the inductive invariant.
    \<open>Pool_Shutdown\<close>: every accepted task is run once before \<open>shutdown\<close> returns, and \<open>shutdown\<close> does return.
    \<open>Win_Threads\<close>: the same pool over the Windows condition variable, a semaphore with a count of waiters; both
    are instances of one interface (locale \<open>pool_implementation\<close>), by a simulation in which a waiter
    whose token has come may count as woken. \<open>Win_Shutdown\<close>: tokens and waiters, no lost notification, the end of a shutdown.
    \<open>Pool_Order\<close>: order of the tasks, tasks that come too late. \<open>Atomics\<close>: \<open>AtomicU64\<close> step by step, and the
    thread objects of the Windows branch. \<open>Win_Atomics\<close>: \<open>AtomicU64\<close> of the Windows branch, behind its mutex, and
    what both versions promise (locale \<open>shared_counter\<close>).
  \<^item> \<open>Config\<close>, \<open>Logger\<close>: \<open>src/common/config.h\<close>, \<open>src/common/logger.h\<close>. \<open>Admin_Server\<close>:
    \<open>src/server/admin_server.h\<close> and \<open>.cpp\<close>. \<open>Server\<close>: \<open>src/server/ftp_server.h\<close> and \<open>.cpp\<close>; the accept loop,
    the workers and the sessions as a step relation on the queue and the counter they share.
    \<open>Server_Main\<close>: \<open>src/server/main.cpp\<close>.
  \<^item> \<open>Client\<close>: \<open>src/client/ftp_client.h\<close> and \<open>.cpp\<close>. \<open>Client_Replies\<close>: reading replies (locale \<open>text_source\<close>,
    interpreted for lines and for replies). \<open>Client_Transfers\<close>: client and server together, a file at
    one end is the file at the other. \<open>Dialogue\<close>: connecting, logging in and leaving, with the client's
    calls and the server's task run against each other. \<open>Client_Console\<close>: \<open>commandLoop\<close> and \<open>src/client/main.cpp\<close>.
  \<^item> \<open>V1_Server\<close>, \<open>V1_Paths\<close>: \<open>server/main.cpp\<close> at the top of the repository, the first server; its sockets
    and its paths. \<open>V1_Client\<close>: \<open>client/main.cpp\<close>, the first client, and its agreement with the second.

  Termination. Loops over received data and over buffers are functions with a measure
  (the bytes still to come, the bytes left). The session's command loop ends with its input
  and the receive timeout. The pool is a relation; that a shutdown ends is a measure on
  its states (\<open>steps_left\<close>). Some loops may run for ever and are partial functions whose value
  \<open>None\<close> is that: the rest of a reply of several lines (\<open>read_rest\<close>, \<open>skip_lines\<close>), the command
  loops of the clients and the removal of a directory tree; theorems say when they return. There is no fuel.

  Bounds. The Windows pool is taken with at most \<open>2 ^ 30\<close> workers, so that the count of waiters does not overflow and
  a notification refused by the full semaphore (\<open>2 ^ 31 - 1\<close> tokens) finds tokens enough there.

  Not modelled. Windows branches that only call another system function with the same
  arguments (their POSIX counterparts are); log lines other than those of transfers, and console output;
  \<open>getSocketError\<close> and \<open>cleanupNetworking\<close>, which nothing of the server's logic uses; rounding of \<open>double\<close>; the destruction of a server whose start failed; the test
  programs (what they check follows from the theorems). The numbers of the transfer speed and of the sleeping limiter are
  exact rationals.
\<close>

end
